(* ===== verification/Prelude.thy ===== *)
theory Prelude
  imports Main "HOL-Library.Word" "HOL-Library.Monad_Syntax"
begin

text \<open>
  Shared vocabulary of the development.

  Integers of the source keep their width.  A Rust \<open>u32\<close> or \<open>u64\<close> is a natural number, and the
  wrap-around of the release build (the workspace's release profile leaves overflow checks off)
  is written out in the operations \<open>add_u32\<close>, \<open>sub_u32\<close>, \<open>mul_u32\<close> and \<open>add_u64\<close>.  Digests and
  other fixed-size byte arrays are words.

  A panic of the source aborts the process (\<open>panic = 'abort'\<close>), so it has no result: an operation
  that may panic, or that may not return, has an \<open>option\<close> result, and \<open>None\<close> is the run that has
  no value.  The do-notation of \<open>HOL-Library.Monad_Syntax\<close> sequences such operations.
\<close>

section \<open>Collections of facts\<close>

named_theorems wrap_simps \<open>bounds under which machine arithmetic is plain arithmetic\<close>
named_theorems dag_mono \<open>operations on a larger DAG return what they returned on a smaller one\<close>

section \<open>Machine integers\<close>

type_synonym u32 = nat
type_synonym u64 = nat
type_synonym u8 = "8 word"
type_synonym bytes = "8 word list"

definition add_u32 :: "u32 \<Rightarrow> u32 \<Rightarrow> u32" where
  "add_u32 a b = (a + b) mod 2 ^ 32"

definition sub_u32 :: "u32 \<Rightarrow> u32 \<Rightarrow> u32" where
  "sub_u32 a b = (a + (2 ^ 32 - b mod 2 ^ 32)) mod 2 ^ 32"

definition mul_u32 :: "u32 \<Rightarrow> u32 \<Rightarrow> u32" where
  "mul_u32 a b = (a * b) mod 2 ^ 32"

definition add_u64 :: "u64 \<Rightarrow> u64 \<Rightarrow> u64" where
  "add_u64 a b = (a + b) mod 2 ^ 64"

definition mul_u64 :: "u64 \<Rightarrow> u64 \<Rightarrow> u64" where
  "mul_u64 a b = (a * b) mod 2 ^ 64"

definition sum_u64 :: "u64 list \<Rightarrow> u64" where
  "sum_u64 xs = fold (\<lambda>x acc. add_u64 acc x) xs 0"

lemma add_u32_small [wrap_simps]: "a + b < 2 ^ 32 \<Longrightarrow> add_u32 a b = a + b"
  by (simp add: add_u32_def)

lemma mul_u32_small [wrap_simps]: "a * b < 2 ^ 32 \<Longrightarrow> mul_u32 a b = a * b"
  by (simp add: mul_u32_def)

lemma sub_u32_small [wrap_simps]: "b \<le> a \<Longrightarrow> a < 2 ^ 32 \<Longrightarrow> sub_u32 a b = a - b"
proof -
  assume "b \<le> a" "a < 2 ^ 32"
  then have "a + (2 ^ 32 - b mod 2 ^ 32) = 2 ^ 32 + (a - b)" by simp
  with \<open>a < 2 ^ 32\<close> show ?thesis
    by (simp add: sub_u32_def del: power_numeral)
qed

lemma add_u64_small [wrap_simps]: "a + b < 2 ^ 64 \<Longrightarrow> add_u64 a b = a + b"
  by (simp add: add_u64_def)

lemma mul_u64_small [wrap_simps]: "a * b < 2 ^ 64 \<Longrightarrow> mul_u64 a b = a * b"
  by (simp add: mul_u64_def)

lemma add_u32_less: "add_u32 a b < 2 ^ 32"
  by (simp add: add_u32_def)

lemma add_u64_less: "add_u64 a b < 2 ^ 64"
  by (simp add: add_u64_def)

lemma fold_add_u64: "fold (\<lambda>x acc. add_u64 acc x) xs a mod 2 ^ 64 = (a + sum_list xs) mod 2 ^ 64"
  by (induction xs arbitrary: a) (simp_all add: add_u64_def mod_add_left_eq add.assoc)

lemma sum_u64_mod: "sum_u64 xs = sum_list xs mod 2 ^ 64"
proof -
  have "fold (\<lambda>x acc. add_u64 acc x) xs a < 2 ^ 64" if "a < 2 ^ 64" for a
    using that by (induction xs arbitrary: a) (simp_all add: add_u64_def)
  from this [of 0] fold_add_u64 [of xs 0] show ?thesis
    by (simp add: sum_u64_def)
qed

lemma sum_u64_small [wrap_simps]: "sum_list xs < 2 ^ 64 \<Longrightarrow> sum_u64 xs = sum_list xs"
  by (simp add: sum_u64_mod)

section \<open>Searching a list with an operation that may not return\<close>

text \<open>
  A \<open>for\<close> loop that leaves with the first result its body finds.  The body may panic or not return,
  and so may the loop.
\<close>

primrec find_first_some :: "('a \<Rightarrow> 'b option option) \<Rightarrow> 'a list \<Rightarrow> 'b option option" where
  "find_first_some f [] = Some None"
| "find_first_some f (x # xs) =
     do { r \<leftarrow> f x; (case r of Some y \<Rightarrow> Some (Some y) | None \<Rightarrow> find_first_some f xs) }"

lemma find_first_some_mono [partial_function_mono]:
  assumes "\<And>x. mono_option (\<lambda>F. G F x)"
  shows "mono_option (\<lambda>F. find_first_some (\<lambda>x. G F x) xs)"
proof (induction xs)
  case Nil
  show ?case by (simp add: monotone_on_def option.leq_refl)
next
  case (Cons x xs)
  have "mono_option (\<lambda>F. Option.bind (G F x)
          (\<lambda>r. case r of Some y \<Rightarrow> Some (Some y) | None \<Rightarrow> find_first_some (\<lambda>x. G F x) xs))"
    using Cons.IH
    by (intro bind_mono assms) (auto split: option.split simp: monotone_on_def option.leq_refl)
  then show ?case by simp
qed

lemma find_first_some_cong [fundef_cong]:
  assumes "xs = ys" and "\<And>x. x \<in> set ys \<Longrightarrow> f x = g x"
  shows "find_first_some f xs = find_first_some g ys"
proof -
  have "\<forall>x \<in> set ys. f x = g x \<Longrightarrow> find_first_some f ys = find_first_some g ys"
    by (induction ys) (auto cong: option.case_cong)
  with assms show ?thesis by simp
qed

lemma find_first_some_SomeD:
  "find_first_some f xs = Some (Some y) \<Longrightarrow> \<exists>x \<in> set xs. f x = Some (Some y)"
  by (induction xs) (auto split: Option.bind_splits option.splits)

lemma find_first_some_NoneD:
  "find_first_some f xs = Some None \<Longrightarrow> x \<in> set xs \<Longrightarrow> f x = Some None"
  by (induction xs) (auto split: Option.bind_splits option.splits)

lemma find_first_some_total:
  "(\<And>x. x \<in> set xs \<Longrightarrow> f x \<noteq> None) \<Longrightarrow> find_first_some f xs \<noteq> None"
proof (induction xs)
  case (Cons x xs)
  then have "f x \<noteq> None" and "find_first_some f xs \<noteq> None" by simp_all
  then show ?case by (auto split: option.splits)
qed simp

lemma find_first_some_weaken:
  assumes "find_first_some f xs = Some r"
    and "\<And>x y. x \<in> set xs \<Longrightarrow> f x = Some y \<Longrightarrow> g x = Some y"
  shows "find_first_some g xs = Some r"
  using assms
proof (induction xs)
  case (Cons x xs)
  from Cons.prems(1) obtain q where fx: "f x = Some q"
    by (auto split: Option.bind_splits)
  with Cons.prems(2) have "g x = Some q" by simp
  with fx Cons show ?case by (cases q) auto
qed simp

end
