(* ===== verification/Quorum_System.thy ===== *)
theory Quorum_System
  imports Prelude
begin

text \<open>
  Weighted quorums, the arithmetic every committee of the repository relies on.  The locale
  \<open>quorum_system\<close> is the contract between a committee type and the protocols that count votes:
  \<open>quorum\<close> (2f+1) and \<open>validity\<close> (f+1) are thresholds on summed weights.  The committees that
  satisfy it are interpreted in their own theories.
\<close>

definition weight_of :: "(nat \<Rightarrow> nat) \<Rightarrow> nat set \<Rightarrow> nat" where
  "weight_of w A = sum w A"

lemma weight_of_mono: "finite B \<Longrightarrow> A \<subseteq> B \<Longrightarrow> weight_of w A \<le> weight_of w B"
  unfolding weight_of_def by (rule sum_mono2) auto

lemma weight_of_inter:
  assumes "finite M" and "A \<subseteq> M" and "B \<subseteq> M"
  shows "weight_of w A + weight_of w B \<le> weight_of w M + weight_of w (A \<inter> B)"
proof -
  have fin: "finite A" "finite B" using assms finite_subset by blast+
  then have "weight_of w A + weight_of w B = weight_of w (A \<union> B) + weight_of w (A \<inter> B)"
    unfolding weight_of_def by (rule sum.union_inter [symmetric])
  moreover have "weight_of w (A \<union> B) \<le> weight_of w M"
    using assms by (intro weight_of_mono) auto
  ultimately show ?thesis by simp
qed

lemma weight_of_split:
  assumes "finite M" and "B \<subseteq> M"
  shows "weight_of w M = weight_of w (M - B) + weight_of w B"
  unfolding weight_of_def using assms by (simp add: sum.subset_diff)

locale quorum_system =
  fixes wf :: "'c \<Rightarrow> bool"
    and members :: "'c \<Rightarrow> nat set"
    and weight :: "'c \<Rightarrow> nat \<Rightarrow> nat"
    and quorum :: "'c \<Rightarrow> nat"
    and validity :: "'c \<Rightarrow> nat"
  assumes members_finite: "wf c \<Longrightarrow> finite (members c)"
    and two_quorums: "wf c \<Longrightarrow> weight_of (weight c) (members c) + validity c \<le> 2 * quorum c"
    and quorum_avoids_faults:
      "wf c \<Longrightarrow> quorum c + validity c \<le> weight_of (weight c) (members c) + 1"
    and validity_positive: "wf c \<Longrightarrow> 0 < validity c"
begin

lemma quorum_positive: "wf c \<Longrightarrow> 0 < quorum c"
  using two_quorums [of c] validity_positive [of c] by linarith

text \<open>Two quorums share members of weight at least the validity threshold.\<close>

lemma quorum_overlap:
  assumes "wf c" and "A \<subseteq> members c" and "B \<subseteq> members c"
    and "quorum c \<le> weight_of (weight c) A" and "quorum c \<le> weight_of (weight c) B"
  shows "validity c \<le> weight_of (weight c) (A \<inter> B)"
  using weight_of_inter [OF members_finite [OF assms(1)] assms(2,3), of "weight c"]
    two_quorums [OF assms(1)] assms(4,5) by linarith

text \<open>If the faulty members weigh less than the validity threshold, a set that reaches it has a
  correct member, and two quorums share a correct member.\<close>

lemma validity_has_correct:
  assumes "wf c" and "A \<subseteq> members c" and "validity c \<le> weight_of (weight c) A"
    and "weight_of (weight c) (members c - H) < validity c"
  shows "\<exists>a \<in> A. a \<in> H"
proof (rule ccontr)
  assume "\<not> (\<exists>a \<in> A. a \<in> H)"
  with assms(2) have "A \<subseteq> members c - H" by auto
  then have "weight_of (weight c) A \<le> weight_of (weight c) (members c - H)"
    using members_finite [OF assms(1)] by (intro weight_of_mono) auto
  with assms(3,4) show False by simp
qed

lemma quorums_share_correct:
  assumes "wf c" and "A \<subseteq> members c" and "B \<subseteq> members c"
    and "quorum c \<le> weight_of (weight c) A" and "quorum c \<le> weight_of (weight c) B"
    and "weight_of (weight c) (members c - H) < validity c"
  shows "\<exists>a. a \<in> A \<and> a \<in> B \<and> a \<in> H"
proof -
  have "validity c \<le> weight_of (weight c) (A \<inter> B)"
    using assms(1-5) by (rule quorum_overlap)
  with assms(1,2,6) have "\<exists>a \<in> A \<inter> B. a \<in> H"
    by (intro validity_has_correct [of c]) auto
  then show ?thesis by auto
qed

text \<open>The correct members reach a quorum without the faulty ones.\<close>

lemma correct_reach_quorum:
  assumes "wf c" and "H \<subseteq> members c"
    and "weight_of (weight c) (members c - H) < validity c"
  shows "quorum c \<le> weight_of (weight c) H"
proof -
  have "weight_of (weight c) (members c) = weight_of (weight c) (members c - H) + weight_of (weight c) H"
    using members_finite [OF assms(1)] assms(2) by (rule weight_of_split)
  with quorum_avoids_faults [OF assms(1)] assms(3) show ?thesis by linarith
qed

end

end
