(* ===== verification/Committee.thy ===== *)
theory Committee
  imports Quorum_System
begin

text \<open>
  The committee of the consensus protocol (\<open>consensus/config/src/committee.rs\<close>) and the stake
  aggregator that counts votes against its thresholds (\<open>consensus/core/src/stake_aggregator.rs\<close>).
  A stake is a \<open>u64\<close> whose sum wraps; \<open>committee_ok\<close> is the condition under which it does not
  (the voting powers of a committee sum to 10,000).
\<close>

section \<open>Committee\<close>

type_synonym epoch = u64
type_synonym stake = u64
type_synonym authority_index = nat

record authority =
  au_stake :: stake
  au_address :: string
  au_hostname :: string
  au_network_key :: bytes
  au_protocol_key :: bytes

record committee =
  cm_epoch :: epoch
  cm_total_stake :: stake
  cm_quorum_threshold :: stake
  cm_validity_threshold :: stake
  cm_authorities :: "authority list"

definition Committee_new :: "epoch \<Rightarrow> authority list \<Rightarrow> committee option" where
  "Committee_new epoch authorities =
     (if authorities = [] then None
      else if \<not> length authorities < 2 ^ 32 - 1 then None
      else
        let total_stake = sum_u64 (map au_stake authorities)
        in if total_stake = 0 then None
           else Some \<lparr>cm_epoch = epoch,
                      cm_total_stake = total_stake,
                      cm_quorum_threshold = add_u64 (mul_u64 2 total_stake div 3) 1,
                      cm_validity_threshold = add_u64 total_stake 2 div 3,
                      cm_authorities = authorities\<rparr>)"

definition reached_quorum :: "committee \<Rightarrow> stake \<Rightarrow> bool" where
  "reached_quorum c s \<longleftrightarrow> s \<ge> cm_quorum_threshold c"

definition reached_validity :: "committee \<Rightarrow> stake \<Rightarrow> bool" where
  "reached_validity c s \<longleftrightarrow> s \<ge> cm_validity_threshold c"

definition committee_size :: "committee \<Rightarrow> nat" where
  "committee_size c = length (cm_authorities c)"

text \<open>Indexing the authorities with an index out of range panics.\<close>

definition committee_authority :: "committee \<Rightarrow> authority_index \<Rightarrow> authority option" where
  "committee_authority c i =
     (if i < length (cm_authorities c) then Some (cm_authorities c ! i) else None)"

definition committee_stake :: "committee \<Rightarrow> authority_index \<Rightarrow> stake option" where
  "committee_stake c i = map_option au_stake (committee_authority c i)"

definition to_authority_index :: "committee \<Rightarrow> nat \<Rightarrow> authority_index option" where
  "to_authority_index c index =
     (if index < length (cm_authorities c) then Some (index mod 2 ^ 32) else None)"

definition committee_authorities :: "committee \<Rightarrow> (authority_index \<times> authority) list" where
  "committee_authorities c =
     map (\<lambda>(i, a). (i mod 2 ^ 32, a))
         (zip [0..<length (cm_authorities c)] (cm_authorities c))"

definition committee_exists :: "committee \<Rightarrow> authority_index \<Rightarrow> bool" where
  "committee_exists c i \<longleftrightarrow> i < committee_size c"

section \<open>Stake aggregator\<close>

datatype committee_threshold = QuorumThreshold | ValidityThreshold

fun is_threshold :: "committee_threshold \<Rightarrow> committee \<Rightarrow> stake \<Rightarrow> bool" where
  "is_threshold QuorumThreshold c amount = reached_quorum c amount"
| "is_threshold ValidityThreshold c amount = reached_validity c amount"

record stake_aggregator =
  sa_votes :: "authority_index set"
  sa_stake :: stake

definition StakeAggregator_new :: stake_aggregator where
  "StakeAggregator_new = \<lparr>sa_votes = {}, sa_stake = 0\<rparr>"

definition StakeAggregator_add ::
  "committee_threshold \<Rightarrow> stake_aggregator \<Rightarrow> authority_index \<Rightarrow> committee
     \<Rightarrow> (bool \<times> stake_aggregator) option" where
  "StakeAggregator_add T agg vote c =
     (if vote \<notin> sa_votes agg then
        do { s \<leftarrow> committee_stake c vote;
             let agg' = agg\<lparr>sa_votes := insert vote (sa_votes agg),
                            sa_stake := add_u64 (sa_stake agg) s\<rparr>;
             Some (is_threshold T c (sa_stake agg'), agg') }
      else Some (is_threshold T c (sa_stake agg), agg))"

definition StakeAggregator_clear :: "stake_aggregator \<Rightarrow> stake_aggregator" where
  "StakeAggregator_clear agg = agg\<lparr>sa_votes := {}, sa_stake := 0\<rparr>"

section \<open>Well-formed committees\<close>

definition members :: "committee \<Rightarrow> authority_index set" where
  "members c = {0..<committee_size c}"

definition stake_at :: "committee \<Rightarrow> authority_index \<Rightarrow> nat" where
  "stake_at c i = au_stake (cm_authorities c ! i)"

definition threshold_of :: "committee_threshold \<Rightarrow> committee \<Rightarrow> nat" where
  "threshold_of T c = (case T of QuorumThreshold \<Rightarrow> cm_quorum_threshold c
                               | ValidityThreshold \<Rightarrow> cm_validity_threshold c)"

text \<open>A committee built by \<open>Committee_new\<close> whose stakes do not overflow.\<close>

definition committee_ok :: "committee \<Rightarrow> bool" where
  "committee_ok c \<longleftrightarrow>
     Committee_new (cm_epoch c) (cm_authorities c) = Some c
     \<and> 2 * sum_list (map au_stake (cm_authorities c)) < 2 ^ 64 - 2"

lemma members_iff [simp]: "i \<in> members c \<longleftrightarrow> i < committee_size c"
  by (simp add: members_def)

lemma finite_members [simp]: "finite (members c)"
  by (simp add: members_def)

lemma committee_stake_eq:
  "committee_stake c i = (if i < committee_size c then Some (stake_at c i) else None)"
  by (simp add: committee_stake_def committee_authority_def committee_size_def stake_at_def)

lemma weight_members:
  "weight_of (stake_at c) (members c) = sum_list (map au_stake (cm_authorities c))"
proof -
  have "sum_list (map au_stake (cm_authorities c))
      = (\<Sum>i = 0..<length (cm_authorities c). au_stake (cm_authorities c ! i))"
    by (simp add: sum_list_sum_nth)
  then show ?thesis
    by (simp add: weight_of_def members_def committee_size_def stake_at_def [abs_def])
qed

lemma committee_ok_thresholds:
  assumes "committee_ok c"
  defines "n \<equiv> weight_of (stake_at c) (members c)"
  shows "cm_total_stake c = n" and "0 < n" and "2 * n + 2 < 2 ^ 64"
    and "cm_quorum_threshold c = 2 * n div 3 + 1"
    and "cm_validity_threshold c = (n + 2) div 3"
proof -
  from assms have new: "Committee_new (cm_epoch c) (cm_authorities c) = Some c"
    and bound: "2 * n + 2 < 2 ^ 64"
    by (auto simp: committee_ok_def n_def weight_members)
  then have total: "sum_u64 (map au_stake (cm_authorities c)) = n"
    by (simp add: n_def weight_members sum_u64_small)
  define q where "q = add_u64 (mul_u64 2 n div 3) 1"
  define v where "v = add_u64 n 2 div 3"
  have q: "q = 2 * n div 3 + 1"
    unfolding q_def using bound by (simp add: wrap_simps)
  have v: "v = (n + 2) div 3"
    unfolding v_def using bound by (simp add: wrap_simps)
  from new total have pos: "n \<noteq> 0"
    and c: "c = \<lparr>cm_epoch = cm_epoch c, cm_total_stake = n, cm_quorum_threshold = q,
                cm_validity_threshold = v, cm_authorities = cm_authorities c\<rparr>"
    by (auto simp: Committee_new_def Let_def q_def v_def split: if_splits)
  from pos show "0 < n" by simp
  show "2 * n + 2 < 2 ^ 64" by (rule bound)
  from c show "cm_total_stake c = n" by (metis committee.select_convs(2))
  from c q show "cm_quorum_threshold c = 2 * n div 3 + 1" by (metis committee.select_convs(3))
  from c v show "cm_validity_threshold c = (n + 2) div 3" by (metis committee.select_convs(4))
qed

interpretation cq: quorum_system committee_ok members stake_at cm_quorum_threshold
  cm_validity_threshold
proof
  fix c assume ok: "committee_ok c"
  note th = committee_ok_thresholds [OF ok]
  show "finite (members c)" by simp
  show "weight_of (stake_at c) (members c) + cm_validity_threshold c \<le> 2 * cm_quorum_threshold c"
    unfolding th(4,5) by presburger
  show "cm_quorum_threshold c + cm_validity_threshold c
      \<le> weight_of (stake_at c) (members c) + 1"
    unfolding th(4,5) by presburger
  show "0 < cm_validity_threshold c"
    unfolding th(5) using th(2) by presburger
qed

section \<open>Counting votes\<close>

definition agg_inv :: "committee \<Rightarrow> stake_aggregator \<Rightarrow> bool" where
  "agg_inv c agg \<longleftrightarrow>
     sa_votes agg \<subseteq> members c \<and> sa_stake agg = weight_of (stake_at c) (sa_votes agg)"

lemma agg_inv_new [simp]: "agg_inv c StakeAggregator_new"
  by (simp add: agg_inv_def StakeAggregator_new_def weight_of_def)

lemma agg_inv_clear [simp]: "agg_inv c (StakeAggregator_clear agg)"
  by (simp add: agg_inv_def StakeAggregator_clear_def weight_of_def)

lemma sa_votes_new [simp]: "sa_votes StakeAggregator_new = {}"
  by (simp add: StakeAggregator_new_def)

lemma sa_votes_clear [simp]: "sa_votes (StakeAggregator_clear agg) = {}"
  by (simp add: StakeAggregator_clear_def)

lemma is_threshold_iff: "is_threshold T c s \<longleftrightarrow> threshold_of T c \<le> s"
  by (cases T) (simp_all add: threshold_of_def reached_quorum_def reached_validity_def)

lemma threshold_of_simps [simp]:
  "threshold_of QuorumThreshold c = cm_quorum_threshold c"
  "threshold_of ValidityThreshold c = cm_validity_threshold c"
  by (simp_all add: threshold_of_def)

lemma threshold_positive: "committee_ok c \<Longrightarrow> 0 < threshold_of T c"
  by (cases T) (simp_all add: cq.quorum_positive cq.validity_positive)

lemma StakeAggregator_add_eq:
  assumes ok: "committee_ok c" and inv: "agg_inv c agg" and v: "vote < committee_size c"
  shows "\<exists>agg'. StakeAggregator_add T agg vote c =
           Some (threshold_of T c \<le> weight_of (stake_at c) (insert vote (sa_votes agg)), agg')
         \<and> agg_inv c agg' \<and> sa_votes agg' = insert vote (sa_votes agg)"
proof (cases "vote \<in> sa_votes agg")
  case True
  with inv show ?thesis
    by (auto simp: StakeAggregator_add_def is_threshold_iff agg_inv_def insert_absorb)
next
  case False
  have sub: "insert vote (sa_votes agg) \<subseteq> members c"
    using inv v by (auto simp: agg_inv_def)
  then have fin: "finite (sa_votes agg)"
    by (meson finite_members finite_insert finite_subset)
  have w: "weight_of (stake_at c) (insert vote (sa_votes agg)) = sa_stake agg + stake_at c vote"
    using False fin inv by (simp add: weight_of_def agg_inv_def)
  have "weight_of (stake_at c) (insert vote (sa_votes agg)) \<le> weight_of (stake_at c) (members c)"
    using sub by (intro weight_of_mono) auto
  with committee_ok_thresholds(3) [OF ok] have "sa_stake agg + stake_at c vote < 2 ^ 64"
    unfolding w by linarith
  then have "add_u64 (sa_stake agg) (stake_at c vote)
      = weight_of (stake_at c) (insert vote (sa_votes agg))"
    by (simp add: w add_u64_small)
  with False v sub show ?thesis
    by (auto simp: StakeAggregator_add_def committee_stake_eq is_threshold_iff agg_inv_def)
qed

text \<open>Feeding votes in order and stopping when the threshold is reached.\<close>

fun votes_reach ::
  "committee_threshold \<Rightarrow> committee \<Rightarrow> stake_aggregator \<Rightarrow> authority_index list \<Rightarrow> bool option" where
  "votes_reach T c agg [] = Some False"
| "votes_reach T c agg (v # vs) =
     do { (reached, agg') \<leftarrow> StakeAggregator_add T agg v c;
          (if reached then Some True else votes_reach T c agg' vs) }"

lemma votes_reach_eq_gen:
  assumes ok: "committee_ok c" and "agg_inv c agg"
    and "\<forall>v \<in> set vs. v < committee_size c"
    and "weight_of (stake_at c) (sa_votes agg) < threshold_of T c"
  shows "votes_reach T c agg vs =
           Some (threshold_of T c \<le> weight_of (stake_at c) (sa_votes agg \<union> set vs))"
  using assms(2-4)
proof (induction vs arbitrary: agg)
  case (Cons v vs)
  let ?W = "\<lambda>A. weight_of (stake_at c) A"
  obtain agg' where add: "StakeAggregator_add T agg v c =
      Some (threshold_of T c \<le> ?W (insert v (sa_votes agg)), agg')"
    and inv: "agg_inv c agg'" and votes: "sa_votes agg' = insert v (sa_votes agg)"
    using StakeAggregator_add_eq [OF ok Cons.prems(1), of v T] Cons.prems(2) by auto
  show ?case
  proof (cases "threshold_of T c \<le> ?W (insert v (sa_votes agg))")
    case True
    have "?W (insert v (sa_votes agg)) \<le> ?W (sa_votes agg \<union> set (v # vs))"
      using Cons.prems(1) by (intro weight_of_mono) (auto simp: agg_inv_def finite_subset)
    with True add show ?thesis by simp
  next
    case False
    with inv votes Cons.prems(2) Cons.IH [of agg'] add show ?thesis by simp
  qed
qed simp

lemma votes_reach_eq:
  assumes "committee_ok c" and "\<forall>v \<in> set vs. v < committee_size c"
  shows "votes_reach T c StakeAggregator_new vs =
           Some (threshold_of T c \<le> weight_of (stake_at c) (set vs))"
  using votes_reach_eq_gen [OF assms(1) agg_inv_new assms(2), of T] threshold_positive [OF assms(1)]
  by (simp add: weight_of_def)

end
