(* ===== verification/BTree_Map.thy ===== *)
theory BTree_Map
  imports Prelude
begin

text \<open>
  The ordered map of Rust's standard library (\<open>std::collections::BTreeMap\<close>), as far as the modelled
  code uses it: a list of entries in strictly ascending key order.  The order is part of the type,
  so a map value is well formed wherever it occurs.  The interface the components rely on is the
  locale \<open>ordered_map\<close>; the interpretation at the end discharges its laws for this type.
\<close>

section \<open>Sorted association lists\<close>

fun al_insert :: "'k::linorder \<Rightarrow> 'v \<Rightarrow> ('k \<times> 'v) list \<Rightarrow> ('k \<times> 'v) list" where
  "al_insert k v [] = [(k, v)]"
| "al_insert k v ((k', v') # xs) =
     (if k < k' then (k, v) # (k', v') # xs
      else if k = k' then (k, v) # xs
      else (k', v') # al_insert k v xs)"

abbreviation al_sorted :: "('k::linorder \<times> 'v) list \<Rightarrow> bool" where
  "al_sorted xs \<equiv> sorted_wrt (<) (map fst xs)"

lemma keys_al_insert: "fst ` set (al_insert k v xs) = insert k (fst ` set xs)"
  by (induction k v xs rule: al_insert.induct) auto

lemma sorted_al_insert: "al_sorted xs \<Longrightarrow> al_sorted (al_insert k v xs)"
proof (induction k v xs rule: al_insert.induct)
  case (2 k v k' v' xs)
  then show ?case
    using keys_al_insert [of k v xs] by (auto simp: image_iff)
qed simp

lemma map_of_al_insert:
  "al_sorted xs \<Longrightarrow> map_of (al_insert k v xs) = (map_of xs)(k \<mapsto> v)"
proof (induction k v xs rule: al_insert.induct)
  case (2 k v k' v' xs)
  then show ?case by (auto simp: fun_eq_iff map_of_eq_None_iff)
qed simp

lemma al_sorted_distinct: "al_sorted xs \<Longrightarrow> distinct (map fst xs)"
  by (simp add: strict_sorted_iff)

lemma al_sorted_filter: "al_sorted xs \<Longrightarrow> al_sorted (filter P xs)"
  by (induction xs) auto

section \<open>The map type and its operations\<close>

typedef (overloaded) ('k::linorder, 'v) btree_map = "{xs :: ('k \<times> 'v) list. al_sorted xs}"
  morphisms bt_entries BTree
  by (rule exI [of _ "[]"]) simp

setup_lifting type_definition_btree_map

lift_definition bt_empty :: "('k::linorder, 'v) btree_map" is "[]"
  by simp

lift_definition bt_insert :: "'k::linorder \<Rightarrow> 'v \<Rightarrow> ('k, 'v) btree_map \<Rightarrow> ('k, 'v) btree_map"
  is al_insert
  by (rule sorted_al_insert)

text \<open>\<open>retain\<close> keeps the entries whose key satisfies a predicate.\<close>

lift_definition bt_retain :: "('k::linorder \<Rightarrow> bool) \<Rightarrow> ('k, 'v) btree_map \<Rightarrow> ('k, 'v) btree_map"
  is "\<lambda>P xs. filter (\<lambda>(k, _). P k) xs"
  by (rule al_sorted_filter)

definition bt_get :: "('k::linorder, 'v) btree_map \<Rightarrow> 'k \<Rightarrow> 'v option" where
  "bt_get m = map_of (bt_entries m)"

definition bt_keys :: "('k::linorder, 'v) btree_map \<Rightarrow> 'k list" where
  "bt_keys m = map fst (bt_entries m)"

text \<open>Entries with a key in a range, in ascending key order.\<close>

definition bt_select :: "('k::linorder \<Rightarrow> bool) \<Rightarrow> ('k, 'v) btree_map \<Rightarrow> ('k \<times> 'v) list" where
  "bt_select P m = filter (\<lambda>(k, _). P k) (bt_entries m)"

text \<open>\<open>last_key_value\<close>: the entry with the greatest key.\<close>

definition bt_last :: "('k::linorder, 'v) btree_map \<Rightarrow> ('k \<times> 'v) option" where
  "bt_last m = (if bt_entries m = [] then None else Some (last (bt_entries m)))"

section \<open>Laws\<close>

lemma bt_entries_sorted [simp]: "al_sorted (bt_entries m)"
  using bt_entries [of m] by simp

lemma bt_entries_empty [simp]: "bt_entries bt_empty = []"
  by transfer simp

lemma bt_entries_insert [simp]: "bt_entries (bt_insert k v m) = al_insert k v (bt_entries m)"
  by transfer simp

lemma bt_entries_retain [simp]:
  "bt_entries (bt_retain P m) = filter (\<lambda>(k, _). P k) (bt_entries m)"
  by transfer simp

lemma bt_get_empty [simp]: "bt_get bt_empty k = None"
  by (simp add: bt_get_def)

lemma bt_get_insert [simp]: "bt_get (bt_insert k v m) = (bt_get m)(k \<mapsto> v)"
  by (simp add: bt_get_def map_of_al_insert)

lemma bt_get_iff_entry: "bt_get m k = Some v \<longleftrightarrow> (k, v) \<in> set (bt_entries m)"
  by (simp add: bt_get_def map_of_eq_Some_iff al_sorted_distinct)

lemma map_of_filter_key:
  "map_of (filter (\<lambda>(k, _). P k) xs) k = (if P k then map_of xs k else None)"
  by (induction xs) auto

lemma bt_get_retain [simp]: "bt_get (bt_retain P m) k = (if P k then bt_get m k else None)"
  by (simp add: bt_get_def map_of_filter_key)

lemma bt_keys_set: "set (bt_keys m) = dom (bt_get m)"
  by (simp add: bt_keys_def bt_get_def dom_map_of_conv_image_fst)

lemma finite_dom_bt_get [simp]: "finite (dom (bt_get m))"
  by (simp add: bt_get_def finite_dom_map_of)

lemma bt_select_set: "(k, v) \<in> set (bt_select P m) \<longleftrightarrow> P k \<and> bt_get m k = Some v"
  by (auto simp: bt_select_def bt_get_iff_entry)

lemma bt_select_values: "v \<in> snd ` set (bt_select P m) \<longleftrightarrow> (\<exists>k. P k \<and> bt_get m k = Some v)"
proof -
  have "v \<in> snd ` set (bt_select P m) \<longleftrightarrow> (\<exists>k. (k, v) \<in> set (bt_select P m))" by force
  then show ?thesis by (simp only: bt_select_set)
qed

lemma bt_select_sorted: "al_sorted (bt_select P m)"
  by (simp add: bt_select_def al_sorted_filter)

lemma bt_select_distinct: "distinct (map fst (bt_select P m))"
  by (rule al_sorted_distinct) (rule bt_select_sorted)

lemma bt_last_None: "bt_last m = None \<longleftrightarrow> (\<forall>k. bt_get m k = None)"
  by (auto simp: bt_last_def bt_get_def map_of_eq_None_iff)

lemma bt_last_Some:
  assumes "bt_last m = Some (k, v)"
  shows "bt_get m k = Some v" and "bt_get m k' = Some v' \<Longrightarrow> k' \<le> k"
proof -
  from assms have ne: "bt_entries m \<noteq> []" and kv: "last (bt_entries m) = (k, v)"
    by (auto simp: bt_last_def split: if_splits)
  from ne kv obtain xs where xs: "bt_entries m = xs @ [(k, v)]"
    by (metis append_butlast_last_id)
  then show "bt_get m k = Some v" by (simp add: bt_get_iff_entry)
  from bt_entries_sorted [of m] xs have "\<forall>x \<in> set xs. fst x < k"
    by (auto simp: sorted_wrt_append)
  then show "k' \<le> k" if "bt_get m k' = Some v'"
    using that xs by (auto simp: bt_get_iff_entry)
qed

section \<open>The interface\<close>

text \<open>
  What the components rely on: insertion and lookup as in a finite map, and a selection that lists
  exactly the entries in a range, once each and in key order.
\<close>

locale ordered_map =
  fixes empty :: "'m"
    and insert_entry :: "'k::linorder \<Rightarrow> 'v \<Rightarrow> 'm \<Rightarrow> 'm"
    and lookup :: "'m \<Rightarrow> 'k \<Rightarrow> 'v option"
    and select :: "('k \<Rightarrow> bool) \<Rightarrow> 'm \<Rightarrow> ('k \<times> 'v) list"
  assumes lookup_empty: "lookup empty = Map.empty"
    and lookup_insert: "lookup (insert_entry k v m) = (lookup m)(k \<mapsto> v)"
    and select_entries: "(k, v) \<in> set (select P m) \<longleftrightarrow> P k \<and> lookup m k = Some v"
    and select_ordered: "sorted_wrt (<) (map fst (select P m))"
begin

lemma select_insert_hit:
  "P k \<Longrightarrow> (k, v) \<in> set (select P (insert_entry k v m))"
  by (simp add: select_entries lookup_insert)

lemma select_insert_miss:
  assumes "\<not> P k"
  shows "set (select P (insert_entry k v m)) = set (select P m)"
  using assms by (auto simp: select_entries lookup_insert split: if_splits)

lemma select_determined:
  assumes "lookup m = lookup m'"
  shows "select P m = select P m'"
proof -
  have same: "set (select P m) = set (select P m')"
    using assms by (auto simp: select_entries)
  have keys: "map fst (select P m) = map fst (select P m')"
    using same by (intro strict_sorted_equal select_ordered) (metis image_set)
  have inj: "inj_on fst (set (select P m))"
    using assms by (auto simp: inj_on_def select_entries)
  show ?thesis
    using keys same inj by (metis inj_on_map_eq_map sup.idem)
qed

end

interpretation bt: ordered_map bt_empty bt_insert bt_get bt_select
  by unfold_locales (auto simp: bt_select_set bt_select_sorted)

end
