(* ===== verification/Block.thy ===== *)
theory Block
  imports Committee BTree_Map
begin

text \<open>
  Blocks of the consensus DAG (\<open>consensus/core/src/block.rs\<close>) and the statuses the commit rule gives
  to leaders (\<open>consensus/core/src/commit.rs\<close>).  Serialisation (BCS), hashing (Blake2b-256) and
  signatures (Ed25519) are code of other packages: they are fields of the record \<open>block_crypto\<close>,
  an argument of the definitions that use them.
\<close>

section \<open>Rounds, digests and references\<close>

type_synonym round = u32
type_synonym block_timestamp_ms = u64
type_synonym block_digest = "256 word"

definition GENESIS_ROUND :: round where
  "GENESIS_ROUND = 0"

text \<open>The lexicographically least and greatest of the 32-byte arrays.\<close>

definition digest_MIN :: block_digest where
  "digest_MIN = 0"

definition digest_MAX :: block_digest where
  "digest_MAX = - 1"

datatype block_ref = BlockRef (br_round: round) (br_author: authority_index) (br_digest: block_digest)

text \<open>The derived order compares round, author and digest in this order.\<close>

instantiation block_ref :: linorder
begin

definition less_block_ref :: "block_ref \<Rightarrow> block_ref \<Rightarrow> bool" where
  "less_block_ref a b \<longleftrightarrow>
     br_round a < br_round b
     \<or> br_round a = br_round b \<and> (br_author a < br_author b
        \<or> br_author a = br_author b \<and> br_digest a < br_digest b)"

definition less_eq_block_ref :: "block_ref \<Rightarrow> block_ref \<Rightarrow> bool" where
  "less_eq_block_ref a b \<longleftrightarrow> a < b \<or> a = b"

instance
proof
  fix a b c :: block_ref
  show "(a < b) = (a \<le> b \<and> \<not> b \<le> a)"
    by (auto simp: less_block_ref_def less_eq_block_ref_def)
  show "a \<le> a" by (simp add: less_eq_block_ref_def)
  show "a \<le> b \<Longrightarrow> b \<le> c \<Longrightarrow> a \<le> c"
    by (auto simp: less_block_ref_def less_eq_block_ref_def)
  show "a \<le> b \<Longrightarrow> b \<le> a \<Longrightarrow> a = b"
    by (auto simp: less_block_ref_def less_eq_block_ref_def)
  show "a \<le> b \<or> b \<le> a"
    by (cases a; cases b) (auto simp: less_block_ref_def less_eq_block_ref_def)
qed

end

lemma BlockRef_le_iff:
  "BlockRef r a d \<le> b \<longleftrightarrow>
     r < br_round b \<or> r = br_round b \<and> (a < br_author b \<or> a = br_author b \<and> d \<le> br_digest b)"
  by (cases b) (auto simp: less_eq_block_ref_def less_block_ref_def)

lemma le_BlockRef_iff:
  "b \<le> BlockRef r a d \<longleftrightarrow>
     br_round b < r \<or> br_round b = r \<and> (br_author b < a \<or> br_author b = a \<and> br_digest b \<le> d)"
  by (cases b) (auto simp: less_eq_block_ref_def less_block_ref_def)

lemma less_BlockRef_iff:
  "b < BlockRef r a d \<longleftrightarrow>
     br_round b < r \<or> br_round b = r \<and> (br_author b < a \<or> br_author b = a \<and> br_digest b < d)"
  by (cases b) (auto simp: less_block_ref_def)

lemmas block_ref_order = BlockRef_le_iff le_BlockRef_iff less_BlockRef_iff

lemma block_ref_le_round: "a \<le> b \<Longrightarrow> br_round a \<le> br_round b"
  by (auto simp: less_eq_block_ref_def less_block_ref_def)

lemma digest_MIN_le [simp]: "digest_MIN \<le> d"
  by (simp add: digest_MIN_def)

lemma not_less_digest_MIN [simp]: "\<not> d < digest_MIN"
  by (simp add: digest_MIN_def)

lemma le_digest_MAX [simp]: "d \<le> digest_MAX"
  by (simp add: digest_MAX_def)

record slot =
  sl_round :: round
  sl_authority :: authority_index

definition Slot_new :: "round \<Rightarrow> authority_index \<Rightarrow> slot" where
  "Slot_new r a = \<lparr>sl_round = r, sl_authority = a\<rparr>"

definition Slot_from :: "block_ref \<Rightarrow> slot" where
  "Slot_from r = Slot_new (br_round r) (br_author r)"

lemma Slot_from_eq_iff:
  "Slot_from r = s \<longleftrightarrow> br_round r = sl_round s \<and> br_author r = sl_authority s"
  by (cases s) (auto simp: Slot_from_def Slot_new_def)

lemma Slot_new_sel [simp]: "sl_round (Slot_new r a) = r" "sl_authority (Slot_new r a) = a"
  by (simp_all add: Slot_new_def)

section \<open>Blocks\<close>

type_synonym transaction = bytes

record block_v1 =
  b1_epoch :: epoch
  b1_round :: round
  b1_author :: authority_index
  b1_timestamp_ms :: block_timestamp_ms
  b1_ancestors :: "block_ref list"
  b1_transactions :: "transaction list"

datatype block = V1 block_v1

record signed_block =
  sb_inner :: block
  sb_signature :: bytes

record verified_block =
  vb_block :: signed_block
  vb_digest :: block_digest
  vb_serialized :: bytes

definition BlockV1_new ::
  "epoch \<Rightarrow> round \<Rightarrow> authority_index \<Rightarrow> block_timestamp_ms \<Rightarrow> block_ref list \<Rightarrow> transaction list
     \<Rightarrow> block_v1" where
  "BlockV1_new epoch round author timestamp_ms ancestors transactions =
     \<lparr>b1_epoch = epoch, b1_round = round, b1_author = author, b1_timestamp_ms = timestamp_ms,
      b1_ancestors = ancestors, b1_transactions = transactions\<rparr>"

definition BlockV1_genesis :: "authority_index \<Rightarrow> epoch \<Rightarrow> block_v1" where
  "BlockV1_genesis author epoch =
     \<lparr>b1_epoch = epoch, b1_round = GENESIS_ROUND, b1_author = author, b1_timestamp_ms = 0,
      b1_ancestors = [], b1_transactions = []\<rparr>"

fun block_round :: "block \<Rightarrow> round" where "block_round (V1 b) = b1_round b"
fun block_author :: "block \<Rightarrow> authority_index" where "block_author (V1 b) = b1_author b"
fun block_timestamp :: "block \<Rightarrow> block_timestamp_ms" where "block_timestamp (V1 b) = b1_timestamp_ms b"
fun block_ancestors :: "block \<Rightarrow> block_ref list" where "block_ancestors (V1 b) = b1_ancestors b"

text \<open>A verified block dereferences to its inner block.\<close>

definition vb_round :: "verified_block \<Rightarrow> round" where
  "vb_round b = block_round (sb_inner (vb_block b))"

definition vb_author :: "verified_block \<Rightarrow> authority_index" where
  "vb_author b = block_author (sb_inner (vb_block b))"

definition vb_timestamp_ms :: "verified_block \<Rightarrow> block_timestamp_ms" where
  "vb_timestamp_ms b = block_timestamp (sb_inner (vb_block b))"

definition vb_ancestors :: "verified_block \<Rightarrow> block_ref list" where
  "vb_ancestors b = block_ancestors (sb_inner (vb_block b))"

definition vb_reference :: "verified_block \<Rightarrow> block_ref" where
  "vb_reference b = BlockRef (vb_round b) (vb_author b) (vb_digest b)"

lemma vb_reference_sel [simp]:
  "br_round (vb_reference b) = vb_round b"
  "br_author (vb_reference b) = vb_author b"
  "br_digest (vb_reference b) = vb_digest b"
  by (simp_all add: vb_reference_def)

section \<open>Signing and verification\<close>

datatype consensus_error =
    UnknownAuthority authority_index
  | SerializationFailure
  | MalformedSignature
  | SignatureVerificationFailure

record block_crypto =
  bcs_block :: "block \<Rightarrow> bytes option"
  bcs_signed_block :: "signed_block \<Rightarrow> bytes option"
  blake2b256 :: "bytes \<Rightarrow> block_digest"
  sign_digest :: "block_digest \<Rightarrow> bytes"
  signature_well_formed :: "bytes \<Rightarrow> bool"
  verify_digest :: "bytes \<Rightarrow> block_digest \<Rightarrow> bytes \<Rightarrow> bool"

definition compute_digest :: "block_crypto \<Rightarrow> block \<Rightarrow> block_digest option" where
  "compute_digest cr b = map_option (blake2b256 cr) (bcs_block cr b)"

definition SignedBlock_new_genesis :: "block \<Rightarrow> signed_block" where
  "SignedBlock_new_genesis b = \<lparr>sb_inner = b, sb_signature = []\<rparr>"

definition SignedBlock_new :: "block_crypto \<Rightarrow> block \<Rightarrow> consensus_error + signed_block" where
  "SignedBlock_new cr b =
     (case compute_digest cr b of
        None \<Rightarrow> Inl SerializationFailure
      | Some digest \<Rightarrow> Inr \<lparr>sb_inner = b, sb_signature = sign_digest cr digest\<rparr>)"

definition SignedBlock_verify ::
  "block_crypto \<Rightarrow> committee \<Rightarrow> signed_block \<Rightarrow> consensus_error + unit" where
  "SignedBlock_verify cr c sb =
     (case compute_digest cr (sb_inner sb) of
        None \<Rightarrow> Inl SerializationFailure
      | Some digest \<Rightarrow>
          if \<not> committee_exists c (block_author (sb_inner sb))
          then Inl (UnknownAuthority (block_author (sb_inner sb)))
          else (case committee_authority c (block_author (sb_inner sb)) of
                  None \<Rightarrow> Inl (UnknownAuthority (block_author (sb_inner sb)))
                | Some authority \<Rightarrow>
                    if \<not> signature_well_formed cr (sb_signature sb) then Inl MalformedSignature
                    else if verify_digest cr (au_network_key authority) digest (sb_signature sb)
                    then Inr () else Inl SignatureVerificationFailure))"

definition VerifiedBlock_new_verified ::
  "block_crypto \<Rightarrow> signed_block \<Rightarrow> bytes \<Rightarrow> verified_block option" where
  "VerifiedBlock_new_verified cr sb serialized =
     do { digest \<leftarrow> compute_digest cr (sb_inner sb);
          Some \<lparr>vb_block = sb, vb_digest = digest, vb_serialized = serialized\<rparr> }"

definition VerifiedBlock_new_verified_unserialized ::
  "block_crypto \<Rightarrow> signed_block \<Rightarrow> verified_block option" where
  "VerifiedBlock_new_verified_unserialized cr sb =
     do { serialized \<leftarrow> bcs_signed_block cr sb;
          VerifiedBlock_new_verified cr sb serialized }"

text \<open>The genesis blocks, one per authority, as (own block, blocks of the others).\<close>

fun genesis_blocks ::
  "block_crypto \<Rightarrow> epoch \<Rightarrow> (authority_index \<times> authority) list \<Rightarrow> verified_block list option" where
  "genesis_blocks cr e [] = Some []"
| "genesis_blocks cr e ((i, _) # rest) =
     do { b \<leftarrow> VerifiedBlock_new_verified_unserialized cr
                 (SignedBlock_new_genesis (V1 (BlockV1_genesis i e)));
          bs \<leftarrow> genesis_blocks cr e rest;
          Some (b # bs) }"

definition Block_genesis ::
  "block_crypto \<Rightarrow> authority_index \<Rightarrow> committee \<Rightarrow> (verified_block \<times> verified_block list) option" where
  "Block_genesis cr own_index c =
     do { bs \<leftarrow> genesis_blocks cr (cm_epoch c) (committee_authorities c);
          (case filter (\<lambda>b. vb_author b = own_index) bs of
             [] \<Rightarrow> None
           | my_block # _ \<Rightarrow> Some (my_block, filter (\<lambda>b. vb_author b \<noteq> own_index) bs)) }"

section \<open>Commits and leader statuses\<close>

definition MINIMUM_WAVE_LENGTH :: round where
  "MINIMUM_WAVE_LENGTH = 3"

definition DEFAULT_WAVE_LENGTH :: round where
  "DEFAULT_WAVE_LENGTH = MINIMUM_WAVE_LENGTH"

type_synonym wave = u32
type_synonym commit_index = u64

record commit =
  co_index :: commit_index
  co_leader :: block_ref
  co_blocks :: "block_ref list"
  co_last_committed_rounds :: "round list"

datatype decision = Direct | Indirect

datatype leader_status = Commit verified_block | Skip slot | Undecided slot

fun ls_round :: "leader_status \<Rightarrow> round" where
  "ls_round (Commit b) = vb_round b"
| "ls_round (Skip leader) = sl_round leader"
| "ls_round (Undecided leader) = sl_round leader"

fun ls_authority :: "leader_status \<Rightarrow> authority_index" where
  "ls_authority (Commit b) = vb_author b"
| "ls_authority (Skip leader) = sl_authority leader"
| "ls_authority (Undecided leader) = sl_authority leader"

fun is_decided :: "leader_status \<Rightarrow> bool" where
  "is_decided (Commit _) = True"
| "is_decided (Skip _) = True"
| "is_decided (Undecided _) = False"

section \<open>Lemmas\<close>

lemma VerifiedBlock_new_verified_sel:
  assumes "VerifiedBlock_new_verified cr sb ser = Some b"
  shows "vb_block b = sb" and "compute_digest cr (sb_inner sb) = Some (vb_digest b)"
  using assms by (auto simp: VerifiedBlock_new_verified_def split: Option.bind_splits)

lemma genesis_blocks_sel:
  "genesis_blocks cr e as = Some bs \<Longrightarrow>
     map vb_author bs = map fst as
     \<and> (\<forall>b \<in> set bs. vb_round b = GENESIS_ROUND \<and> vb_ancestors b = [] \<and> vb_timestamp_ms b = 0)"
proof (induction as arbitrary: bs)
  case (Cons x as)
  obtain i a where x: "x = (i, a)" by (cases x)
  from Cons.prems obtain b bs' where
    b: "VerifiedBlock_new_verified_unserialized cr
          (SignedBlock_new_genesis (V1 (BlockV1_genesis i e))) = Some b"
    and bs': "genesis_blocks cr e as = Some bs'" and bs: "bs = b # bs'"
    by (auto simp: x split: Option.bind_splits)
  from b have "vb_block b = SignedBlock_new_genesis (V1 (BlockV1_genesis i e))"
    by (auto simp: VerifiedBlock_new_verified_unserialized_def
        dest: VerifiedBlock_new_verified_sel split: Option.bind_splits)
  then have "vb_author b = i \<and> vb_round b = GENESIS_ROUND \<and> vb_ancestors b = [] \<and> vb_timestamp_ms b = 0"
    by (simp add: vb_author_def vb_round_def vb_ancestors_def vb_timestamp_ms_def
        SignedBlock_new_genesis_def BlockV1_genesis_def)
  with Cons.IH [OF bs'] bs x show ?case by auto
qed simp

end
