(* ===== verification/Dag_State.thy ===== *)
theory Dag_State
  imports Block
begin

text \<open>
  The in-memory DAG of accepted blocks (\<open>consensus/core/src/dag_state.rs\<close>).  The recent blocks are
  an ordered map from references to blocks, the cached references one set per authority.  The
  persistent store the state is initialised from is a trait object: the two operations used,
  \<open>read_last_commit\<close> and \<open>scan_blocks_by_author\<close>, are arguments of \<open>DagState_new\<close>.
\<close>

section \<open>State\<close>

record consensus_context =
  cx_own_index :: authority_index
  cx_committee :: committee

definition CACHED_ROUNDS :: round where
  "CACHED_ROUNDS = 100"

record dag_state =
  ds_recent_blocks :: "(block_ref, verified_block) btree_map"
  ds_cached_refs :: "block_ref set list"
  ds_last_commit :: "commit option"
  ds_highest_accepted_round :: round

section \<open>Reading the DAG\<close>

definition get_uncommitted_block :: "dag_state \<Rightarrow> block_ref \<Rightarrow> verified_block option" where
  "get_uncommitted_block s r = bt_get (ds_recent_blocks s) r"

definition get_uncommitted_blocks_at_slot :: "dag_state \<Rightarrow> slot \<Rightarrow> verified_block list" where
  "get_uncommitted_blocks_at_slot s sl =
     map snd (bt_select (\<lambda>k. BlockRef (sl_round sl) (sl_authority sl) digest_MIN \<le> k
                           \<and> k \<le> BlockRef (sl_round sl) (sl_authority sl) digest_MAX)
                        (ds_recent_blocks s))"

definition last_commit_round :: "dag_state \<Rightarrow> round" where
  "last_commit_round s = (case ds_last_commit s of Some commit \<Rightarrow> br_round (co_leader commit) | None \<Rightarrow> 0)"

text \<open>A range query panics when its start is above its end.\<close>

definition get_uncommitted_blocks_at_round :: "dag_state \<Rightarrow> round \<Rightarrow> verified_block list option" where
  "get_uncommitted_blocks_at_round s round =
     (if round \<le> last_commit_round s then None
      else
        let lo = BlockRef round 0 digest_MIN; hi = BlockRef (add_u32 round 1) 0 digest_MIN
        in if hi < lo then None
           else Some (map snd (bt_select (\<lambda>k. lo \<le> k \<and> k < hi) (ds_recent_blocks s))))"

text \<open>The traversal of \<open>ancestors_at_uncommitted_round\<close>: the set \<open>linked\<close> is expanded from its
  greatest reference until no reference above \<open>earlier_round\<close> is left.\<close>

partial_function (option) expand_linked ::
  "(block_ref \<Rightarrow> verified_block option) \<Rightarrow> round \<Rightarrow> block_ref set \<Rightarrow> block_ref set option" where
  "expand_linked get earlier_round linked =
     (if linked = {} then Some linked
      else if br_round (Max linked) \<le> earlier_round then Some linked
      else
        do { block \<leftarrow> get (Max linked);
             expand_linked get earlier_round ((linked - {Max linked}) \<union> set (vb_ancestors block)) })"

fun get_all :: "(block_ref \<Rightarrow> verified_block option) \<Rightarrow> block_ref list \<Rightarrow> verified_block list option" where
  "get_all get [] = Some []"
| "get_all get (r # rs) = do { b \<leftarrow> get r; bs \<leftarrow> get_all get rs; Some (b # bs) }"

definition ancestors_at_uncommitted_round ::
  "dag_state \<Rightarrow> verified_block \<Rightarrow> round \<Rightarrow> verified_block list option" where
  "ancestors_at_uncommitted_round s later_block earlier_round =
     (if earlier_round \<le> last_commit_round s then None
      else if earlier_round \<ge> vb_round later_block then None
      else
        do { linked \<leftarrow> expand_linked (get_uncommitted_block s) earlier_round
                         (set (vb_ancestors later_block));
             get_all (get_uncommitted_block s)
               (filter (\<lambda>r. BlockRef earlier_round 0 digest_MIN \<le> r) (sorted_list_of_set linked)) })"

section \<open>Accepting blocks\<close>

definition accept_block ::
  "consensus_context \<Rightarrow> dag_state \<Rightarrow> verified_block \<Rightarrow> dag_state option" where
  "accept_block cx s block =
     (let block_ref = vb_reference block
      in if br_author block_ref = cx_own_index cx
            \<and> get_uncommitted_blocks_at_slot s (Slot_from block_ref) \<noteq> []
         then None
         else if br_author block_ref < length (ds_cached_refs s)
         then Some (s\<lparr>ds_recent_blocks := bt_insert block_ref block (ds_recent_blocks s),
                      ds_cached_refs := (ds_cached_refs s)
                        [br_author block_ref :=
                           insert block_ref (ds_cached_refs s ! br_author block_ref)],
                      ds_highest_accepted_round :=
                        max (ds_highest_accepted_round s) (vb_round block)\<rparr>)
         else None)"

fun accept_blocks ::
  "consensus_context \<Rightarrow> dag_state \<Rightarrow> verified_block list \<Rightarrow> dag_state option" where
  "accept_blocks cx s [] = Some s"
| "accept_blocks cx s (b # bs) = do { s' \<leftarrow> accept_block cx s b; accept_blocks cx s' bs }"

text \<open>The loop of \<open>new\<close> over the last committed round of each authority.\<close>

fun load_authorities ::
  "consensus_context \<Rightarrow> (authority_index \<Rightarrow> round \<Rightarrow> verified_block list option)
     \<Rightarrow> nat \<Rightarrow> round list \<Rightarrow> dag_state \<Rightarrow> dag_state option" where
  "load_authorities cx scan_blocks_by_author i [] s = Some s"
| "load_authorities cx scan_blocks_by_author i (round # rounds) s =
     do { authority_index \<leftarrow> to_authority_index (cx_committee cx) i;
          blocks \<leftarrow> scan_blocks_by_author authority_index (round - CACHED_ROUNDS);
          s' \<leftarrow> accept_blocks cx s blocks;
          load_authorities cx scan_blocks_by_author (Suc i) rounds s' }"

definition DagState_new ::
  "consensus_context \<Rightarrow> commit option \<Rightarrow> (authority_index \<Rightarrow> round \<Rightarrow> verified_block list option)
     \<Rightarrow> dag_state option" where
  "DagState_new cx last_commit scan_blocks_by_author =
     (let num_authorities = committee_size (cx_committee cx);
          last_committed_rounds = (case last_commit of
             Some commit \<Rightarrow> co_last_committed_rounds commit
           | None \<Rightarrow> replicate num_authorities 0);
          state = \<lparr>ds_recent_blocks = bt_empty,
                   ds_cached_refs = replicate num_authorities {},
                   ds_last_commit = last_commit,
                   ds_highest_accepted_round = 0\<rparr>
      in load_authorities cx scan_blocks_by_author 0 last_committed_rounds state)"

section \<open>Invariant\<close>

text \<open>
  Blocks are stored under their own reference, their references are cached with their author, and
  the highest accepted round is the greatest round of a stored block.  An authority never has two
  blocks of its own in one slot.
\<close>

definition stored_under_reference :: "dag_state \<Rightarrow> bool" where
  "stored_under_reference s \<longleftrightarrow>
     (\<forall>r b. get_uncommitted_block s r = Some b \<longrightarrow>
        vb_reference b = r
        \<and> br_author r < length (ds_cached_refs s)
        \<and> br_round r \<le> ds_highest_accepted_round s)"

definition refs_cached :: "dag_state \<Rightarrow> bool" where
  "refs_cached s \<longleftrightarrow>
     (\<forall>a < length (ds_cached_refs s). ds_cached_refs s ! a
        = {r. br_author r = a \<and> get_uncommitted_block s r \<noteq> None})"

definition highest_round_attained :: "dag_state \<Rightarrow> bool" where
  "highest_round_attained s \<longleftrightarrow>
     ds_highest_accepted_round s = 0
     \<or> (\<exists>r. get_uncommitted_block s r \<noteq> None \<and> br_round r = ds_highest_accepted_round s)"

definition own_slots_unique :: "authority_index \<Rightarrow> dag_state \<Rightarrow> bool" where
  "own_slots_unique own s \<longleftrightarrow>
     (\<forall>r r'. get_uncommitted_block s r \<noteq> None \<longrightarrow> get_uncommitted_block s r' \<noteq> None \<longrightarrow>
        br_author r = own \<longrightarrow> Slot_from r = Slot_from r' \<longrightarrow> r = r')"

definition dag_inv :: "consensus_context \<Rightarrow> dag_state \<Rightarrow> bool" where
  "dag_inv cx s \<longleftrightarrow>
     length (ds_cached_refs s) = committee_size (cx_committee cx)
     \<and> stored_under_reference s \<and> refs_cached s \<and> highest_round_attained s
     \<and> own_slots_unique (cx_own_index cx) s"

lemma Slot_from_inject:
  "Slot_from r = Slot_from r' \<longleftrightarrow> br_round r = br_round r' \<and> br_author r = br_author r'"
  by (auto simp: Slot_from_def Slot_new_def)

lemma blocks_at_slot_eq:
  "get_uncommitted_blocks_at_slot s sl =
     map snd (bt_select (\<lambda>k. Slot_from k = sl) (ds_recent_blocks s))"
proof -
  have "(\<lambda>k. BlockRef (sl_round sl) (sl_authority sl) digest_MIN \<le> k
          \<and> k \<le> BlockRef (sl_round sl) (sl_authority sl) digest_MAX) = (\<lambda>k. Slot_from k = sl)"
    by (auto simp: fun_eq_iff Slot_from_eq_iff block_ref_order)
  then show ?thesis by (simp only: get_uncommitted_blocks_at_slot_def)
qed

lemma blocks_at_slot_set:
  "b \<in> set (get_uncommitted_blocks_at_slot s sl) \<longleftrightarrow>
     (\<exists>r. get_uncommitted_block s r = Some b \<and> Slot_from r = sl)"
  by (auto simp: blocks_at_slot_eq get_uncommitted_block_def bt_select_values)

lemma blocks_at_slot_Nil:
  "get_uncommitted_blocks_at_slot s sl = [] \<longleftrightarrow>
     (\<forall>r. Slot_from r = sl \<longrightarrow> get_uncommitted_block s r = None)"
proof -
  have "get_uncommitted_blocks_at_slot s sl = [] \<longleftrightarrow>
      (\<forall>b. b \<notin> set (get_uncommitted_blocks_at_slot s sl))"
    by (metis list.set_intros(1) empty_iff list.set(1) list.exhaust)
  also have "\<dots> \<longleftrightarrow> (\<forall>r. Slot_from r = sl \<longrightarrow> get_uncommitted_block s r = None)"
    unfolding blocks_at_slot_set by (metis not_None_eq)
  finally show ?thesis .
qed

lemma dag_inv_reference:
  "dag_inv cx s \<Longrightarrow> get_uncommitted_block s r = Some b \<Longrightarrow> vb_reference b = r"
  by (simp add: dag_inv_def stored_under_reference_def)

lemma dag_inv_author:
  "dag_inv cx s \<Longrightarrow> get_uncommitted_block s r = Some b \<Longrightarrow> br_author r < committee_size (cx_committee cx)"
  by (auto simp: dag_inv_def stored_under_reference_def)

lemma map_reference_select:
  assumes "dag_inv cx s"
  shows "map vb_reference (map snd (bt_select P (ds_recent_blocks s)))
       = map fst (bt_select P (ds_recent_blocks s))"
proof -
  have "vb_reference (snd x) = fst x" if "x \<in> set (bt_select P (ds_recent_blocks s))" for x
    using that dag_inv_reference [OF assms, of "fst x" "snd x"] bt_select_set [of "fst x" "snd x"]
    by (simp add: get_uncommitted_block_def)
  then show ?thesis by simp
qed

lemma blocks_at_slot_distinct:
  "dag_inv cx s \<Longrightarrow> distinct (map vb_reference (get_uncommitted_blocks_at_slot s sl))"
  by (simp only: blocks_at_slot_eq map_reference_select bt_select_distinct)

lemma blocks_at_round_eq:
  assumes "last_commit_round s < round" and "round + 1 < 2 ^ 32"
  shows "get_uncommitted_blocks_at_round s round =
     Some (map snd (bt_select (\<lambda>k. br_round k = round) (ds_recent_blocks s)))"
proof -
  have "(\<lambda>k. BlockRef round 0 digest_MIN \<le> k \<and> k < BlockRef (round + 1) 0 digest_MIN)
      = (\<lambda>k. br_round k = round)"
    by (auto simp: fun_eq_iff less_Suc_eq block_ref_order)
  moreover have "\<not> BlockRef (round + 1) 0 digest_MIN < BlockRef round 0 digest_MIN"
    by (simp add: block_ref_order)
  ultimately show ?thesis
    using assms by (simp only: get_uncommitted_blocks_at_round_def Let_def add_u32_small) simp
qed

lemma blocks_at_round_set:
  assumes "get_uncommitted_blocks_at_round s round = Some bs" and "round + 1 < 2 ^ 32"
  shows "b \<in> set bs \<longleftrightarrow> (\<exists>r. get_uncommitted_block s r = Some b \<and> br_round r = round)"
proof -
  have "last_commit_round s < round"
    using assms(1) by (auto simp: get_uncommitted_blocks_at_round_def split: if_splits)
  with assms have "bs = map snd (bt_select (\<lambda>k. br_round k = round) (ds_recent_blocks s))"
    by (simp add: blocks_at_round_eq)
  then show ?thesis
    by (auto simp: get_uncommitted_block_def bt_select_values)
qed

lemma get_after_accept:
  assumes "accept_block cx s b = Some s'"
  shows "get_uncommitted_block s' = (get_uncommitted_block s)(vb_reference b \<mapsto> b)"
  using assms
  by (auto simp: accept_block_def Let_def get_uncommitted_block_def fun_eq_iff split: if_splits)

lemma accept_block_defined:
  "accept_block cx s b \<noteq> None \<longleftrightarrow>
     vb_author b < length (ds_cached_refs s)
     \<and> (vb_author b = cx_own_index cx \<longrightarrow>
          (\<forall>r. Slot_from r = Slot_from (vb_reference b) \<longrightarrow> get_uncommitted_block s r = None))"
  by (auto simp: accept_block_def Let_def blocks_at_slot_Nil)

lemma accept_block_fields:
  assumes "accept_block cx s b = Some s'"
  shows "ds_cached_refs s' = (ds_cached_refs s)
           [vb_author b := insert (vb_reference b) (ds_cached_refs s ! vb_author b)]"
    and "ds_highest_accepted_round s' = max (ds_highest_accepted_round s) (vb_round b)"
    and "vb_author b < length (ds_cached_refs s)"
    and "ds_last_commit s' = ds_last_commit s"
  using assms by (auto simp: accept_block_def Let_def split: if_splits)

lemma accept_block_stored:
  assumes acc: "accept_block cx s b = Some s'" and "stored_under_reference s"
  shows "stored_under_reference s'"
  using assms(2) accept_block_fields(3) [OF acc]
  by (auto simp: stored_under_reference_def get_after_accept [OF acc] accept_block_fields(1,2) [OF acc]
      le_max_iff_disj)

lemma accept_block_refs_cached:
  assumes acc: "accept_block cx s b = Some s'" and "refs_cached s"
  shows "refs_cached s'"
  using assms(2) accept_block_fields(3) [OF acc]
  by (auto simp: refs_cached_def get_after_accept [OF acc] accept_block_fields(1) [OF acc]
      nth_list_update)

lemma accept_block_highest:
  assumes acc: "accept_block cx s b = Some s'" and "highest_round_attained s"
  shows "highest_round_attained s'"
proof (cases "vb_round b \<le> ds_highest_accepted_round s")
  case True
  then have "ds_highest_accepted_round s' = ds_highest_accepted_round s"
    by (simp add: accept_block_fields(2) [OF acc])
  with assms(2) show ?thesis
    unfolding highest_round_attained_def get_after_accept [OF acc]
    by (metis fun_upd_apply option.distinct(1))
next
  case False
  then have "br_round (vb_reference b) = ds_highest_accepted_round s'"
    by (simp add: accept_block_fields(2) [OF acc])
  then show ?thesis
    unfolding highest_round_attained_def get_after_accept [OF acc]
    by (metis fun_upd_same option.distinct(1))
qed

lemma accept_block_own_slots:
  assumes acc: "accept_block cx s b = Some s'" and uniq: "own_slots_unique (cx_own_index cx) s"
  shows "own_slots_unique (cx_own_index cx) s'"
  unfolding own_slots_unique_def
proof (intro allI impI)
  fix r r'
  assume r: "get_uncommitted_block s' r \<noteq> None" and r': "get_uncommitted_block s' r' \<noteq> None"
    and own: "br_author r = cx_own_index cx" and eq: "Slot_from r = Slot_from r'"
  have fresh: "get_uncommitted_block s q = None"
    if "vb_author b = cx_own_index cx" "Slot_from q = Slot_from (vb_reference b)" for q
    using acc that accept_block_defined [of cx s b] by auto
  have old: "get_uncommitted_block s q \<noteq> None"
    if "get_uncommitted_block s' q \<noteq> None" "q \<noteq> vb_reference b" for q
    using that by (simp add: get_after_accept [OF acc])
  have own': "br_author r' = cx_own_index cx"
    using own eq by (simp add: Slot_from_inject)
  consider "r = vb_reference b" | "r \<noteq> vb_reference b" "r' = vb_reference b"
    | "r \<noteq> vb_reference b" "r' \<noteq> vb_reference b" by blast
  then show "r = r'"
  proof cases
    case 1
    show ?thesis
    proof (rule ccontr)
      assume "r \<noteq> r'"
      with 1 r' have "get_uncommitted_block s r' \<noteq> None" by (intro old) simp_all
      moreover have "vb_author b = cx_own_index cx" using 1 own by simp
      ultimately show False using fresh [of r'] eq 1 by simp
    qed
  next
    case 2
    with r have "get_uncommitted_block s r \<noteq> None" by (intro old)
    moreover have "vb_author b = cx_own_index cx" using 2 own' by simp
    ultimately show ?thesis using fresh [of r] eq 2 by simp
  next
    case 3
    with r r' have "get_uncommitted_block s r \<noteq> None" "get_uncommitted_block s r' \<noteq> None"
      by (simp_all add: old)
    with uniq own eq show ?thesis unfolding own_slots_unique_def by blast
  qed
qed

lemma accept_block_inv:
  assumes "dag_inv cx s" and acc: "accept_block cx s b = Some s'"
  shows "dag_inv cx s'"
  using assms(1) accept_block_stored [OF acc] accept_block_refs_cached [OF acc]
    accept_block_highest [OF acc] accept_block_own_slots [OF acc]
  by (simp add: dag_inv_def accept_block_fields(1) [OF acc])

lemma accept_blocks_inv:
  "dag_inv cx s \<Longrightarrow> accept_blocks cx s bs = Some s' \<Longrightarrow> dag_inv cx s'"
  by (induction bs arbitrary: s) (auto split: Option.bind_splits dest: accept_block_inv)

lemma load_authorities_inv:
  "dag_inv cx s \<Longrightarrow> load_authorities cx scan i rounds s = Some s' \<Longrightarrow> dag_inv cx s'"
  by (induction rounds arbitrary: i s) (auto split: Option.bind_splits dest: accept_blocks_inv)

lemma accept_blocks_last_commit:
  "accept_blocks cx s bs = Some s' \<Longrightarrow> ds_last_commit s' = ds_last_commit s"
  by (induction bs arbitrary: s)
     (auto simp: accept_block_def Let_def split: Option.bind_splits if_splits)

text \<open>Accepting blocks that are not yet in the state: it succeeds when no slot of the own authority
  is taken twice, and then the state has exactly the old and the new blocks.\<close>

definition fresh_blocks :: "authority_index \<Rightarrow> dag_state \<Rightarrow> verified_block list \<Rightarrow> bool" where
  "fresh_blocks own s bs \<longleftrightarrow>
     (\<forall>b \<in> set bs. vb_author b < length (ds_cached_refs s) \<and> get_uncommitted_block s (vb_reference b) = None)
     \<and> distinct (map vb_reference bs)
     \<and> (\<forall>b \<in> set bs. vb_author b = own \<longrightarrow>
          (\<forall>r. Slot_from r = Slot_from (vb_reference b) \<longrightarrow> get_uncommitted_block s r = None))
     \<and> distinct (map (Slot_from \<circ> vb_reference) (filter (\<lambda>b. vb_author b = own) bs))"

lemma fresh_blocks_Cons:
  assumes fresh: "fresh_blocks (cx_own_index cx) s (b # bs)"
  shows "\<exists>s'. accept_block cx s b = Some s' \<and> fresh_blocks (cx_own_index cx) s' bs"
proof -
  let ?own = "cx_own_index cx"
  have "accept_block cx s b \<noteq> None" unfolding accept_block_defined
    using fresh by (auto simp: fresh_blocks_def)
  then obtain s' where s': "accept_block cx s b = Some s'" by blast
  note g = get_after_accept [OF s'] and f = accept_block_fields [OF s']
  have other: "Slot_from (vb_reference b) \<noteq> Slot_from (vb_reference x)" if x: "x \<in> set bs" "vb_author x = ?own" for x
  proof
    assume eq: "Slot_from (vb_reference b) = Slot_from (vb_reference x)"
    then have "vb_author b = ?own" using x by (simp add: Slot_from_inject)
    with fresh x eq show False by (auto simp: fresh_blocks_def image_iff)
  qed
  have "fresh_blocks ?own s' bs"
    unfolding fresh_blocks_def
  proof (intro conjI ballI impI allI)
    fix x assume x: "x \<in> set bs"
    show "vb_author x < length (ds_cached_refs s')" using fresh x by (simp add: fresh_blocks_def f(1))
    have "vb_reference x \<noteq> vb_reference b" using fresh x by (auto simp: fresh_blocks_def image_iff)
    then show "get_uncommitted_block s' (vb_reference x) = None" using fresh x by (simp add: fresh_blocks_def g)
    fix r assume own: "vb_author x = ?own" and r: "Slot_from r = Slot_from (vb_reference x)"
    then show "get_uncommitted_block s' r = None"
      using fresh x other [OF x own] by (auto simp: fresh_blocks_def g)
  qed (use fresh in \<open>auto simp: fresh_blocks_def split: if_splits\<close>)
  with s' show ?thesis by blast
qed

lemma accept_blocks_fresh:
  assumes "fresh_blocks (cx_own_index cx) s bs"
  shows "\<exists>s'. accept_blocks cx s bs = Some s'
    \<and> (\<forall>r b. get_uncommitted_block s' r = Some b \<longleftrightarrow>
          get_uncommitted_block s r = Some b \<or> b \<in> set bs \<and> vb_reference b = r)
    \<and> length (ds_cached_refs s') = length (ds_cached_refs s)
    \<and> ds_highest_accepted_round s' = fold max (map vb_round bs) (ds_highest_accepted_round s)
    \<and> ds_last_commit s' = ds_last_commit s"
  using assms
proof (induction bs arbitrary: s)
  case (Cons b bs)
  from fresh_blocks_Cons [OF Cons.prems] obtain s1 where s1: "accept_block cx s b = Some s1"
    and fresh: "fresh_blocks (cx_own_index cx) s1 bs" by blast
  note g = get_after_accept [OF s1] and f = accept_block_fields [OF s1]
  have "get_uncommitted_block s (vb_reference b) = None" using Cons.prems by (simp add: fresh_blocks_def)
  with Cons.IH [OF fresh] s1 show ?case by (auto simp: g f(1,2,4) max.commute)
qed simp

end
