(* ===== verification/Threshold_Clock.thy ===== *)
theory Threshold_Clock
  imports Dag_State
begin

text \<open>
  The threshold clock (\<open>consensus/core/src/threshold_clock.rs\<close>): the round an authority may propose
  for, advanced by the references of processed blocks.  The time of the last quorum only feeds a
  metric and is left out.  The specification \<open>clock_spec\<close> gives the round as a function of the set
  of references seen; the clock computes it incrementally.
\<close>

section \<open>The clock\<close>

record threshold_clock =
  tc_aggregator :: stake_aggregator
  tc_round :: round
  tc_context :: consensus_context

definition ThresholdClock_new :: "round \<Rightarrow> consensus_context \<Rightarrow> threshold_clock" where
  "ThresholdClock_new round cx = \<lparr>tc_aggregator = StakeAggregator_new, tc_round = round, tc_context = cx\<rparr>"

definition ThresholdClock_add_block :: "threshold_clock \<Rightarrow> block_ref \<Rightarrow> threshold_clock option" where
  "ThresholdClock_add_block tc block =
     (let c = cx_committee (tc_context tc)
      in if br_round block < tc_round tc then Some tc
         else if br_round block > tc_round tc then
           do { (_, agg) \<leftarrow> StakeAggregator_add QuorumThreshold (StakeAggregator_clear (tc_aggregator tc))
                              (br_author block) c;
                Some (tc\<lparr>tc_aggregator := agg, tc_round := br_round block\<rparr>) }
         else
           do { (reached, agg) \<leftarrow> StakeAggregator_add QuorumThreshold (tc_aggregator tc) (br_author block) c;
                Some (if reached
                      then tc\<lparr>tc_aggregator := StakeAggregator_clear agg,
                              tc_round := add_u32 (br_round block) 1\<rparr>
                      else tc\<lparr>tc_aggregator := agg\<rparr>) })"

fun clock_loop :: "threshold_clock \<Rightarrow> block_ref list \<Rightarrow> threshold_clock option" where
  "clock_loop tc [] = Some tc"
| "clock_loop tc (b # bs) = do { tc' \<leftarrow> ThresholdClock_add_block tc b; clock_loop tc' bs }"

definition ThresholdClock_add_blocks ::
  "threshold_clock \<Rightarrow> block_ref list \<Rightarrow> (round option \<times> threshold_clock) option" where
  "ThresholdClock_add_blocks tc blocks =
     (let previous_round = tc_round tc
      in do { tc' \<leftarrow> clock_loop tc blocks;
              Some (if tc_round tc' > previous_round then Some (tc_round tc') else None, tc') })"

definition ThresholdClock_get_round :: "threshold_clock \<Rightarrow> round" where
  "ThresholdClock_get_round tc = tc_round tc"

section \<open>Specification\<close>

definition authors_in :: "block_ref set \<Rightarrow> round \<Rightarrow> authority_index set" where
  "authors_in seen r = br_author ` {b \<in> seen. br_round b = r}"

definition has_quorum :: "committee \<Rightarrow> block_ref set \<Rightarrow> round \<Rightarrow> bool" where
  "has_quorum c seen r \<longleftrightarrow> cm_quorum_threshold c \<le> weight_of (stake_at c) (authors_in seen r)"

text \<open>The highest of the starting round, the rounds of the blocks seen, and the rounds after a round
  with a quorum.\<close>

definition clock_spec :: "committee \<Rightarrow> round \<Rightarrow> block_ref set \<Rightarrow> round" where
  "clock_spec c start seen =
     Max (insert start (br_round ` seen \<union> Suc ` {r \<in> br_round ` seen. has_quorum c seen r}))"

definition no_dictator :: "committee \<Rightarrow> bool" where
  "no_dictator c \<longleftrightarrow> (\<forall>a < committee_size c. stake_at c a < cm_quorum_threshold c)"

definition clock_inv :: "round \<Rightarrow> block_ref set \<Rightarrow> threshold_clock \<Rightarrow> bool" where
  "clock_inv start seen tc \<longleftrightarrow>
     (let c = cx_committee (tc_context tc); agg = tc_aggregator tc
      in agg_inv c agg \<and> sa_votes agg = authors_in seen (tc_round tc)
         \<and> finite seen \<and> start \<le> tc_round tc
         \<and> (\<forall>b \<in> seen. br_round b \<le> tc_round tc \<and> br_author b < committee_size c)
         \<and> (\<forall>b \<in> seen. has_quorum c seen (br_round b) \<longrightarrow> br_round b < tc_round tc)
         \<and> (tc_round tc = start \<or> (\<exists>b \<in> seen. br_round b = tc_round tc)
            \<or> (\<exists>b \<in> seen. Suc (br_round b) = tc_round tc \<and> has_quorum c seen (br_round b))))"

lemma clock_invD:
  assumes "clock_inv start seen tc" and "cx_committee (tc_context tc) = c"
  shows "agg_inv c (tc_aggregator tc)" and "sa_votes (tc_aggregator tc) = authors_in seen (tc_round tc)"
    and "finite seen" and "start \<le> tc_round tc"
    and "\<And>b. b \<in> seen \<Longrightarrow> br_round b \<le> tc_round tc \<and> br_author b < committee_size c"
    and "\<And>b. b \<in> seen \<Longrightarrow> has_quorum c seen (br_round b) \<Longrightarrow> br_round b < tc_round tc"
    and "tc_round tc = start \<or> (\<exists>b \<in> seen. br_round b = tc_round tc)
            \<or> (\<exists>b \<in> seen. Suc (br_round b) = tc_round tc \<and> has_quorum c seen (br_round b))"
  using assms by (auto simp: clock_inv_def Let_def)

lemma clock_inv_round:
  assumes "clock_inv start seen tc" and "cx_committee (tc_context tc) = c"
  shows "tc_round tc = clock_spec c start seen"
proof -
  note i = clock_invD [OF assms]
  let ?R = "insert start (br_round ` seen \<union> Suc ` {r \<in> br_round ` seen. has_quorum c seen r})"
  have "finite ?R" using i(3) by simp
  moreover have "tc_round tc \<in> ?R" using i(7) by (metis (mono_tags, lifting) Un_iff image_eqI insertCI mem_Collect_eq)
  moreover have "r \<le> tc_round tc" if "r \<in> ?R" for r
    using that i(4-6) by (auto simp: Suc_le_eq)
  ultimately have "Max ?R = tc_round tc" by (intro Max_eqI) auto
  then show ?thesis by (simp add: clock_spec_def)
qed

lemma clock_inv_new: "clock_inv start {} (ThresholdClock_new start cx)"
  by (simp add: clock_inv_def ThresholdClock_new_def authors_in_def)

lemma authors_in_insert:
  "authors_in (insert b seen) r = (if br_round b = r then insert (br_author b) (authors_in seen r) else authors_in seen r)"
  by (auto simp: authors_in_def)

lemma authors_in_mono: "seen \<subseteq> seen' \<Longrightarrow> authors_in seen r \<subseteq> authors_in seen' r"
  by (auto simp: authors_in_def)

lemma has_quorum_insert_other: "br_round b \<noteq> r \<Longrightarrow> has_quorum c (insert b seen) r \<longleftrightarrow> has_quorum c seen r"
  by (simp add: has_quorum_def authors_in_insert)

lemma has_quorum_mono:
  assumes "has_quorum c seen r" and "seen \<subseteq> seen'" and "finite seen'"
  shows "has_quorum c seen' r"
proof -
  have "finite (authors_in seen' r)" using assms(3) by (simp add: authors_in_def)
  with assms(1,2) show ?thesis
    unfolding has_quorum_def by (meson authors_in_mono order_trans weight_of_mono)
qed

lemma no_block_no_quorum:
  assumes "committee_ok c" and "authors_in seen r = {}"
  shows "\<not> has_quorum c seen r"
  using cq.quorum_positive [OF assms(1)] assms(2) by (simp add: has_quorum_def weight_of_def)

section \<open>One block\<close>

lemma add_block_context:
  "ThresholdClock_add_block tc b = Some tc' \<Longrightarrow> tc_context tc' = tc_context tc"
  by (auto simp: ThresholdClock_add_block_def Let_def split: if_splits Option.bind_splits)

text \<open>A block below the clock changes nothing.\<close>

lemma clock_inv_lower:
  assumes inv: "clock_inv start seen tc" and c: "cx_committee (tc_context tc) = c"
    and b: "br_round b < tc_round tc" "br_author b < committee_size c"
  shows "clock_inv start (insert b seen) tc"
proof -
  note i = clock_invD [OF inv c]
  have other: "has_quorum c (insert b seen) (br_round x) \<Longrightarrow> br_round x < tc_round tc" if "x \<in> seen" for x
    using that i(6) b(1) has_quorum_insert_other [of b "br_round x" c seen] by (cases "br_round b = br_round x") auto
  have "tc_round tc = start \<or> (\<exists>x \<in> insert b seen. br_round x = tc_round tc)
      \<or> (\<exists>x \<in> insert b seen. Suc (br_round x) = tc_round tc \<and> has_quorum c (insert b seen) (br_round x))"
    using i(3,7) has_quorum_mono [of c seen _ "insert b seen"] by auto
  then show ?thesis
    using i(1-5) b other by (auto simp: clock_inv_def Let_def c authors_in_insert)
qed

text \<open>A block above the clock moves it to the block's round.\<close>

lemma clock_inv_higher:
  assumes ok: "committee_ok c" and nd: "no_dictator c"
    and inv: "clock_inv start seen tc" and c: "cx_committee (tc_context tc) = c"
    and b: "tc_round tc < br_round b" "br_author b < committee_size c"
  shows "\<exists>tc'. ThresholdClock_add_block tc b = Some tc' \<and> clock_inv start (insert b seen) tc'"
proof -
  note i = clock_invD [OF inv c]
  obtain reached agg where add: "StakeAggregator_add QuorumThreshold (StakeAggregator_clear (tc_aggregator tc))
      (br_author b) c = Some (reached, agg)" and agg: "agg_inv c agg" "sa_votes agg = {br_author b}"
    using StakeAggregator_add_eq [OF ok agg_inv_clear b(2), of QuorumThreshold "tc_aggregator tc"] by auto
  have none: "authors_in seen (br_round b) = {}" using i(5) b(1) by (force simp: authors_in_def)
  have "\<not> has_quorum c (insert b seen) (br_round b)"
    using nd b(2) none by (auto simp: has_quorum_def authors_in_insert no_dictator_def weight_of_def)
  moreover have "br_round x \<noteq> br_round b" if "x \<in> seen" for x using i(5) [OF that] b(1) by auto
  ultimately show ?thesis
    using add agg b i(3,4,5) none
    by (fastforce simp: ThresholdClock_add_block_def Let_def c clock_inv_def authors_in_insert)
qed

text \<open>A block of the clock's round is counted; with a quorum the clock moves on.\<close>

lemma clock_inv_equal:
  assumes ok: "committee_ok c" and inv: "clock_inv start seen tc" and c: "cx_committee (tc_context tc) = c"
    and b: "br_round b = tc_round tc" "br_author b < committee_size c" "br_round b + 1 < 2 ^ 32"
  shows "\<exists>tc'. ThresholdClock_add_block tc b = Some tc' \<and> clock_inv start (insert b seen) tc'"
proof -
  note i = clock_invD [OF inv c]
  let ?A = "authors_in (insert b seen) (tc_round tc)"
  have A: "insert (br_author b) (sa_votes (tc_aggregator tc)) = ?A" using i(2) b(1) by (simp add: authors_in_insert)
  obtain agg where add: "StakeAggregator_add QuorumThreshold (tc_aggregator tc) (br_author b) c
      = Some (has_quorum c (insert b seen) (tc_round tc), agg)" and agg: "agg_inv c agg" "sa_votes agg = ?A"
    using StakeAggregator_add_eq [OF ok i(1) b(2), of QuorumThreshold] A by (auto simp: has_quorum_def)
  have other: "has_quorum c (insert b seen) (br_round x) \<Longrightarrow> br_round x < tc_round tc"
    if "x \<in> seen" "br_round x \<noteq> tc_round tc" for x using i(5) that b(1) by (simp add: order_less_le)
  show ?thesis
  proof (cases "has_quorum c (insert b seen) (tc_round tc)")
    case True
    define tc' where "tc' = tc\<lparr>tc_aggregator := StakeAggregator_clear agg, tc_round := add_u32 (br_round b) 1\<rparr>"
    have "add_u32 (br_round b) 1 = Suc (tc_round tc)" using b(1,3) by (simp add: add_u32_def)
    then have r: "tc_round tc' = Suc (tc_round tc)" by (simp add: tc'_def)
    have "authors_in (insert b seen) (Suc (tc_round tc)) = {}"
      using i(5) b(1) by (force simp: authors_in_def)
    then have "clock_inv start (insert b seen) tc'"
      using i(3-5) b True r c
      by (auto simp: clock_inv_def Let_def tc'_def le_Suc_eq less_Suc_eq_le)
    moreover have "ThresholdClock_add_block tc b = Some tc'"
      using add True b(1) by (simp add: ThresholdClock_add_block_def Let_def c tc'_def)
    ultimately show ?thesis by blast
  next
    case False
    define tc' where "tc' = tc\<lparr>tc_aggregator := agg\<rparr>"
    have "has_quorum c (insert b seen) (br_round x) \<Longrightarrow> br_round x < tc_round tc" if "x \<in> insert b seen" for x
      using that other False b(1) by (cases "br_round x = tc_round tc") auto
    then have "clock_inv start (insert b seen) tc'"
      using i(3-5) b agg c False by (auto simp: clock_inv_def Let_def tc'_def)
    moreover have "ThresholdClock_add_block tc b = Some tc'"
      using add False b(1) by (simp add: ThresholdClock_add_block_def Let_def c tc'_def)
    ultimately show ?thesis by blast
  qed
qed

definition ref_ok :: "committee \<Rightarrow> block_ref \<Rightarrow> bool" where
  "ref_ok c b \<longleftrightarrow> br_author b < committee_size c \<and> br_round b + 1 < 2 ^ 32"

lemma clock_step:
  assumes "committee_ok c" and "no_dictator c" and "clock_inv start seen tc"
    and "cx_committee (tc_context tc) = c" and "ref_ok c b"
  shows "\<exists>tc'. ThresholdClock_add_block tc b = Some tc' \<and> clock_inv start (insert b seen) tc'"
proof -
  consider "br_round b < tc_round tc" | "tc_round tc < br_round b" | "br_round b = tc_round tc" by linarith
  then show ?thesis
  proof cases
    case 1
    with clock_inv_lower [OF assms(3,4)] assms(5) show ?thesis
      by (auto simp: ThresholdClock_add_block_def Let_def ref_ok_def)
  next
    case 2
    with clock_inv_higher [OF assms(1-4)] assms(5) show ?thesis by (simp add: ref_ok_def)
  next
    case 3
    with clock_inv_equal [OF assms(1,3,4)] assms(5) show ?thesis by (simp add: ref_ok_def)
  qed
qed

lemma clock_loop_inv:
  assumes "committee_ok c" and "no_dictator c" and "clock_inv start seen tc"
    and "cx_committee (tc_context tc) = c" and "\<forall>b \<in> set bs. ref_ok c b"
  shows "\<exists>tc'. clock_loop tc bs = Some tc' \<and> clock_inv start (seen \<union> set bs) tc' \<and> tc_context tc' = tc_context tc"
  using assms(3-)
proof (induction bs arbitrary: seen tc)
  case (Cons b bs)
  then have "ref_ok c b" by simp
  from clock_step [OF assms(1,2) Cons.prems(1,2) this] obtain tc1 where
    tc1: "ThresholdClock_add_block tc b = Some tc1" "clock_inv start (insert b seen) tc1" by blast
  with Cons.IH [OF tc1(2)] Cons.prems add_block_context [OF tc1(1)] show ?case by auto
qed simp

text \<open>The clock never goes back.\<close>

lemma add_block_mono:
  assumes "ThresholdClock_add_block tc b = Some tc'" and "br_round b + 1 < 2 ^ 32"
  shows "tc_round tc \<le> tc_round tc' \<and> tc_round tc' \<le> max (tc_round tc) (Suc (br_round b))"
proof -
  have "add_u32 (br_round b) 1 = Suc (br_round b)" using assms(2) by (simp add: add_u32_def)
  with assms(1) show ?thesis
    by (auto simp: ThresholdClock_add_block_def Let_def split: if_splits Option.bind_splits)
qed

lemma clock_loop_mono:
  "clock_loop tc bs = Some tc' \<Longrightarrow> \<forall>b \<in> set bs. br_round b + 1 < 2 ^ 32 \<Longrightarrow> tc_round tc \<le> tc_round tc'"
proof (induction bs arbitrary: tc)
  case (Cons b bs)
  from Cons.prems obtain tc1 where "ThresholdClock_add_block tc b = Some tc1" "clock_loop tc1 bs = Some tc'"
    by (auto split: Option.bind_splits)
  with Cons add_block_mono [of tc b tc1] show ?case by fastforce
qed simp

end
