(* ===== verification/Block_Manager.thy ===== *)
theory Block_Manager
  imports Block
begin

text \<open>
  The block manager (\<open>consensus/core/src/block_manager.rs\<close>).  In this version \<open>add_blocks\<close> assumes, as
  its comment says, that the causal history of the blocks exists, and suspends nothing;
  \<open>missing_blocks\<close> and \<open>suspended_blocks\<close> are unimplemented in the source.  The sort is stable, like
  \<open>sort_by_key\<close>.  The lemmas show what the method promises under its assumption: blocks come out once
  and after their ancestors.
\<close>

record block_manager =
  bm_accepted_blocks :: "block_ref set"

definition BlockManager_new :: block_manager where
  "BlockManager_new = \<lparr>bm_accepted_blocks = {}\<rparr>"

fun accept_new :: "block_manager \<Rightarrow> verified_block list \<Rightarrow> verified_block list \<times> block_manager" where
  "accept_new bm [] = ([], bm)"
| "accept_new bm (block # blocks) =
     (if vb_reference block \<in> bm_accepted_blocks bm then accept_new bm blocks
      else let (accepted, bm') = accept_new (bm\<lparr>bm_accepted_blocks :=
                                      insert (vb_reference block) (bm_accepted_blocks bm)\<rparr>) blocks
           in (block # accepted, bm'))"

definition BlockManager_add_blocks ::
  "block_manager \<Rightarrow> verified_block list \<Rightarrow> verified_block list \<times> block_manager" where
  "BlockManager_add_blocks bm blocks = accept_new bm (sort_key vb_round blocks)"

section \<open>The documented assumption\<close>

text \<open>The graph a manager knows of: genesis and what it has accepted.\<close>

definition in_graph :: "block_manager \<Rightarrow> block_ref \<Rightarrow> bool" where
  "in_graph bm r \<longleftrightarrow> br_round r = GENESIS_ROUND \<or> r \<in> bm_accepted_blocks bm"

text \<open>The causal history of the blocks exists: every ancestor is of an earlier round, and it is in the
  graph or comes with the blocks.\<close>

definition history_exists :: "block_manager \<Rightarrow> verified_block list \<Rightarrow> bool" where
  "history_exists bm blocks \<longleftrightarrow>
     (\<forall>b \<in> set blocks. \<forall>r \<in> set (vb_ancestors b).
        br_round r < vb_round b \<and> (in_graph bm r \<or> r \<in> vb_reference ` set blocks))"

section \<open>What is accepted\<close>

lemma accept_new_spec:
  assumes "accept_new bm blocks = (accepted, bm')"
  shows "bm_accepted_blocks bm' = bm_accepted_blocks bm \<union> vb_reference ` set blocks
    \<and> vb_reference ` set accepted = vb_reference ` set blocks - bm_accepted_blocks bm
    \<and> distinct (map vb_reference accepted) \<and> set accepted \<subseteq> set blocks
    \<and> (sorted (map vb_round blocks) \<longrightarrow> sorted (map vb_round accepted))"
  using assms
proof (induction blocks arbitrary: bm accepted)
  case (Cons b bs)
  show ?case
  proof (cases "vb_reference b \<in> bm_accepted_blocks bm")
    case True
    with Cons.prems have "accept_new bm bs = (accepted, bm')" by simp
    from Cons.IH [OF this] True show ?thesis by auto
  next
    case False
    define bm1 where "bm1 = bm\<lparr>bm_accepted_blocks := insert (vb_reference b) (bm_accepted_blocks bm)\<rparr>"
    obtain rest where rest: "accept_new bm1 bs = (rest, bm')" and acc: "accepted = b # rest"
      using Cons.prems False by (auto simp: Let_def bm1_def split: prod.splits)
    have bm1: "bm_accepted_blocks bm1 = insert (vb_reference b) (bm_accepted_blocks bm)" by (simp add: bm1_def)
    from Cons.IH [OF rest] have IH: "vb_reference ` set rest = vb_reference ` set bs - bm_accepted_blocks bm1"
      "bm_accepted_blocks bm' = bm_accepted_blocks bm1 \<union> vb_reference ` set bs"
      "distinct (map vb_reference rest)" "set rest \<subseteq> set bs"
      "sorted (map vb_round bs) \<longrightarrow> sorted (map vb_round rest)" by blast+
    have "vb_reference ` set accepted = vb_reference ` set (b # bs) - bm_accepted_blocks bm"
      using False unfolding acc list.set image_insert IH(1) bm1 by blast
    moreover have "distinct (map vb_reference accepted)" using IH(1,3) acc bm1 by simp
    moreover have "sorted (map vb_round (b # bs)) \<longrightarrow> sorted (map vb_round accepted)"
      using IH(4,5) acc by auto
    ultimately show ?thesis using IH(2,4) acc bm1 by auto
  qed
qed auto

lemma add_blocks_spec:
  assumes "BlockManager_add_blocks bm blocks = (accepted, bm')"
  shows "bm_accepted_blocks bm' = bm_accepted_blocks bm \<union> vb_reference ` set blocks"
    and "vb_reference ` set accepted = vb_reference ` set blocks - bm_accepted_blocks bm"
    and "distinct (map vb_reference accepted)" and "set accepted \<subseteq> set blocks"
    and "sorted (map vb_round accepted)"
  using accept_new_spec [OF assms [unfolded BlockManager_add_blocks_def]] by auto

lemma sorted_before:
  assumes "sorted (map f xs)" and "i < length xs" and "x \<in> set xs" and "f x < f (xs ! i)"
  shows "x \<in> set (take i xs)"
proof -
  from assms(3) obtain j where j: "j < length xs" "x = xs ! j" by (auto simp: in_set_conv_nth)
  have "j < i"
  proof (rule ccontr)
    assume "\<not> j < i"
    then have "f (xs ! i) \<le> f (xs ! j)" using sorted_nth_mono [OF assms(1), of i j] assms(2) j(1) by simp
    with assms(4) j(2) show False by simp
  qed
  with j assms(2) show ?thesis by (auto simp: in_set_conv_nth)
qed

lemma ancestors_come_first:
  assumes hist: "history_exists bm blocks" and add: "BlockManager_add_blocks bm blocks = (accepted, bm')"
    and i: "i < length accepted" and r: "r \<in> set (vb_ancestors (accepted ! i))"
  shows "in_graph bm r \<or> r \<in> vb_reference ` set (take i accepted)"
proof (cases "in_graph bm r")
  case False
  have b: "accepted ! i \<in> set blocks" using add_blocks_spec(4) [OF add] nth_mem [OF i] by blast
  with hist r False have "r \<in> vb_reference ` set blocks" and low: "br_round r < vb_round (accepted ! i)"
    by (auto simp: history_exists_def)
  with False have "r \<in> vb_reference ` set accepted" unfolding add_blocks_spec(2) [OF add] by (simp add: in_graph_def)
  then obtain a where a: "a \<in> set accepted" "r = vb_reference a" by blast
  with low sorted_before [OF add_blocks_spec(5) [OF add] i] show ?thesis by simp
qed simp

lemma add_blocks_again:
  assumes "BlockManager_add_blocks bm blocks = (accepted, bm')"
  shows "BlockManager_add_blocks bm' blocks = ([], bm')"
proof -
  obtain acc bm'' where again: "BlockManager_add_blocks bm' blocks = (acc, bm'')" by fastforce
  note first = add_blocks_spec [OF assms] and second = add_blocks_spec [OF again]
  have "vb_reference ` set acc = {}" unfolding second(2) first(1) by blast
  moreover have "bm_accepted_blocks bm'' = bm_accepted_blocks bm'" unfolding second(1) first(1) by blast
  ultimately show ?thesis using again by simp
qed

end
