(* ===== verification/Transactions_Client.thy ===== *)
theory Transactions_Client
  imports Block
begin

text \<open>
  The queue of transactions waiting for a proposal (\<open>consensus/core/src/transactions_client.rs\<close>).
  The channel between client and consumer is the list of transactions sent and not yet received.
  Waiting of \<open>submit\<close> on a full channel is not modelled: a submission takes effect when the channel
  takes it.
\<close>

section \<open>Consumer\<close>

definition MAX_PENDING_TRANSACTIONS :: nat where
  "MAX_PENDING_TRANSACTIONS = 2000"

definition MAX_CONSUMED_TRANSACTIONS_PER_REQUEST :: u64 where
  "MAX_CONSUMED_TRANSACTIONS_PER_REQUEST = 5000"

record transactions_consumer =
  tx_receiver :: "transaction list"
  max_consumed_bytes_per_request :: u64
  max_consumed_transactions_per_request :: u64
  pending_transaction :: "transaction option"

definition TransactionsConsumer_new ::
  "transaction list \<Rightarrow> u64 \<Rightarrow> u64 option \<Rightarrow> transactions_consumer" where
  "TransactionsConsumer_new receiver max_transactions_in_block_bytes max_consumed =
     \<lparr>tx_receiver = receiver,
      max_consumed_bytes_per_request = max_transactions_in_block_bytes,
      max_consumed_transactions_per_request =
        (case max_consumed of Some n \<Rightarrow> n | None \<Rightarrow> MAX_CONSUMED_TRANSACTIONS_PER_REQUEST),
      pending_transaction = None\<rparr>"

text \<open>The receiving loop: what was taken, the transaction kept for the next call, and the rest of the
  channel.\<close>

fun receive_loop ::
  "u64 \<Rightarrow> u64 \<Rightarrow> transaction list \<Rightarrow> u64 \<Rightarrow> transaction list
     \<Rightarrow> transaction list \<times> transaction option \<times> transaction list" where
  "receive_loop max_bytes max_transactions transactions total_size [] = (transactions, None, [])"
| "receive_loop max_bytes max_transactions transactions total_size (transaction # queue) =
     (let total_size' = add_u64 total_size (length transaction)
      in if total_size' > max_bytes then (transactions, Some transaction, queue)
         else
           let transactions' = transactions @ [transaction]
           in if length transactions' \<ge> max_transactions then (transactions', None, queue)
              else receive_loop max_bytes max_transactions transactions' total_size' queue)"

definition TransactionsConsumer_next ::
  "transactions_consumer \<Rightarrow> transaction list \<times> transactions_consumer" where
  "TransactionsConsumer_next tc =
     (let (transactions, total_size) =
            (case pending_transaction tc of
               Some transaction \<Rightarrow> ([transaction], length transaction)
             | None \<Rightarrow> ([], 0));
          (taken, pending, queue) =
            receive_loop (max_consumed_bytes_per_request tc) (max_consumed_transactions_per_request tc)
              transactions total_size (tx_receiver tc)
      in (taken, tc\<lparr>tx_receiver := queue, pending_transaction := pending\<rparr>))"

section \<open>Client\<close>

datatype client_error = SubmitError | OversizedTransaction u64 u64

record transactions_client =
  cl_max_transaction_size :: u64

text \<open>The channel is closed when its receiver was dropped.\<close>

definition TransactionsClient_submit ::
  "transactions_client \<Rightarrow> bool \<Rightarrow> transaction list \<Rightarrow> bytes \<Rightarrow> client_error + transaction list" where
  "TransactionsClient_submit client closed queue transaction =
     (if length transaction > cl_max_transaction_size client
      then Inl (OversizedTransaction (length transaction) (cl_max_transaction_size client))
      else if closed then Inl SubmitError
      else Inr (queue @ [transaction]))"

section \<open>Lemmas\<close>

text \<open>What waits for a proposal: the cached transaction first, then the channel.\<close>

definition waiting :: "transactions_consumer \<Rightarrow> transaction list" where
  "waiting tc = (case pending_transaction tc of Some t \<Rightarrow> [t] | None \<Rightarrow> []) @ tx_receiver tc"

definition total_bytes :: "transaction list \<Rightarrow> nat" where
  "total_bytes ts = sum_list (map length ts)"

lemma receive_loop_order:
  "receive_loop mb mt ts n q = (taken, pend, q') \<Longrightarrow>
     taken @ (case pend of Some t \<Rightarrow> [t] | None \<Rightarrow> []) @ q' = ts @ q"
  by (induction q arbitrary: ts n) (auto simp: Let_def split: if_splits)

lemma next_order:
  assumes "TransactionsConsumer_next tc = (taken, tc')"
  shows "taken @ waiting tc' = waiting tc"
  using assms receive_loop_order
  by (fastforce simp: TransactionsConsumer_next_def waiting_def Let_def split: option.splits prod.splits)

lemma receive_loop_bytes:
  assumes "receive_loop mb mt ts n q = (taken, pend, q')" and "n = total_bytes ts"
    and "total_bytes ts \<le> mb" and "total_bytes (ts @ q) < 2 ^ 64"
  shows "total_bytes taken \<le> mb"
  using assms
proof (induction q arbitrary: ts n)
  case (Cons t q)
  have add: "add_u64 n (length t) = total_bytes (ts @ [t])"
    using Cons.prems(2,4) by (simp add: add_u64_def total_bytes_def)
  show ?case
  proof (cases "total_bytes (ts @ [t]) > mb")
    case True
    with Cons.prems add show ?thesis by (simp add: Let_def)
  next
    case False
    with Cons.prems(1) add consider "taken = ts @ [t]"
      | "receive_loop mb mt (ts @ [t]) (total_bytes (ts @ [t])) q = (taken, pend, q')"
      by (auto simp: Let_def split: if_splits)
    then show ?thesis
    proof cases
      case 2
      show ?thesis by (rule Cons.IH [OF 2 refl]) (use False Cons.prems(4) in auto)
    qed (use False in simp)
  qed
qed simp

lemma receive_loop_count:
  assumes "receive_loop mb mt ts n q = (taken, pend, q')"
  shows "length taken \<le> max (Suc (length ts)) mt"
  using assms by (induction q arbitrary: ts n) (fastforce simp: Let_def split: if_splits)+

lemma next_count:
  assumes "TransactionsConsumer_next tc = (taken, tc')"
  shows "length taken \<le> max (if pending_transaction tc = None then 1 else 2) (max_consumed_transactions_per_request tc)"
  using assms receive_loop_count
  by (fastforce simp: TransactionsConsumer_next_def Let_def split: option.splits prod.splits)

lemma next_bytes:
  assumes "TransactionsConsumer_next tc = (taken, tc')"
    and "\<forall>t \<in> set (waiting tc). length t \<le> max_consumed_bytes_per_request tc"
    and "total_bytes (waiting tc) < 2 ^ 64"
  shows "total_bytes taken \<le> max_consumed_bytes_per_request tc"
proof (cases "pending_transaction tc")
  case None
  then obtain pend q' where
    "receive_loop (max_consumed_bytes_per_request tc) (max_consumed_transactions_per_request tc) [] 0
       (tx_receiver tc) = (taken, pend, q')"
    using assms(1) by (auto simp: TransactionsConsumer_next_def Let_def split: prod.splits)
  from receive_loop_bytes [OF this] assms(3) None show ?thesis by (simp add: total_bytes_def waiting_def)
next
  case (Some t)
  then obtain pend q' where
    "receive_loop (max_consumed_bytes_per_request tc) (max_consumed_transactions_per_request tc) [t] (length t)
       (tx_receiver tc) = (taken, pend, q')"
    using assms(1) by (auto simp: TransactionsConsumer_next_def Let_def split: prod.splits)
  from receive_loop_bytes [OF this] assms(2,3) Some show ?thesis by (simp add: total_bytes_def waiting_def)
qed

end
