(* ===== verification/Consensus_Core.thy ===== *)
theory Consensus_Core
  imports Threshold_Clock Block_Manager Transactions_Client
begin

text \<open>
  The core of an authority (\<open>consensus/core/src/core.rs\<close>): it feeds accepted blocks to the threshold
  clock and proposes a block for each round the clock reaches.  The commands of the core thread
  (\<open>consensus/core/src/core_thread.rs\<close>) are the steps of its runs.  The current time and the
  iteration order of a \<open>HashSet\<close> are arguments; signals are recorded in the order they are sent.
  Metrics are not modelled.
\<close>

section \<open>State\<close>

datatype core_signal = NewRound round | NewBlockReady block_ref

record core =
  cr_context :: consensus_context
  cr_threshold_clock :: threshold_clock
  cr_last_proposed_block :: verified_block
  cr_transactions_consumer :: transactions_consumer
  cr_pending_ancestors :: "(round, verified_block list) btree_map"
  cr_block_manager :: block_manager
  cr_signals :: "core_signal list"

definition last_proposed_round :: "core \<Rightarrow> round" where
  "last_proposed_round core = vb_round (cr_last_proposed_block core)"

text \<open>\<open>entry(round).or_default().push(block)\<close>\<close>

definition push_pending ::
  "verified_block \<Rightarrow> (round, verified_block list) btree_map \<Rightarrow> (round, verified_block list) btree_map" where
  "push_pending block m =
     bt_insert (vb_round block)
       ((case bt_get m (vb_round block) of Some bs \<Rightarrow> bs | None \<Rightarrow> []) @ [block]) m"

definition Core_new ::
  "block_crypto \<Rightarrow> consensus_context \<Rightarrow> transactions_consumer \<Rightarrow> block_manager \<Rightarrow> core_signal list
     \<Rightarrow> core option" where
  "Core_new cr cx consumer manager signals =
     do { (genesis_my, genesis_others) \<leftarrow> Block_genesis cr (cx_own_index cx) (cx_committee cx);
          let genesis = genesis_others @ [genesis_my];
          clock \<leftarrow> clock_loop (ThresholdClock_new 0 cx) (map vb_reference genesis);
          Some \<lparr>cr_context = cx,
                cr_threshold_clock = clock,
                cr_last_proposed_block = genesis_my,
                cr_transactions_consumer = consumer,
                cr_pending_ancestors = fold push_pending genesis bt_empty,
                cr_block_manager = manager,
                cr_signals = signals @ [NewRound (ThresholdClock_get_round clock)]\<rparr> }"

section \<open>Proposals\<close>

definition leaders :: "core \<Rightarrow> round \<Rightarrow> authority_index list" where
  "leaders core round = [round mod (committee_size (cx_committee (cr_context core)) mod 2 ^ 32)]"

definition last_quorum_leaders_exist :: "core \<Rightarrow> bool" where
  "last_quorum_leaders_exist core =
     (let quorum_round = ThresholdClock_get_round (cr_threshold_clock core) - 1;
          ls = leaders core quorum_round
      in case bt_get (cr_pending_ancestors core) quorum_round of
           Some ancestors \<Rightarrow>
             list_all (\<lambda>leader. list_ex (\<lambda>entry. br_author (vb_reference entry) = leader) ancestors) ls
         | None \<Rightarrow> False)"

definition ancestors_to_propose ::
  "(block_ref set \<Rightarrow> block_ref list) \<Rightarrow> core \<Rightarrow> round \<Rightarrow> block_timestamp_ms
     \<Rightarrow> (block_ref list \<times> core) option" where
  "ancestors_to_propose hash_order core clock_round timestamp =
     (let ancestors = concat (map snd (bt_select (\<lambda>r. r < clock_round) (cr_pending_ancestors core)))
      in if \<not> list_all (\<lambda>block. vb_timestamp_ms block \<le> timestamp) ancestors then None
         else
           let all_ancestors_parents = set (concat (map vb_ancestors ancestors));
               to_propose = insert (vb_reference (cr_last_proposed_block core))
                 (set (filter (\<lambda>r. r \<notin> all_ancestors_parents) (map vb_reference ancestors)))
           in Some (hash_order to_propose,
                    core\<lparr>cr_pending_ancestors :=
                           bt_retain (\<lambda>round. clock_round \<le> round) (cr_pending_ancestors core)\<rparr>))"

definition create_block ::
  "block_crypto \<Rightarrow> core \<Rightarrow> round \<Rightarrow> block_timestamp_ms \<Rightarrow> block_ref list \<Rightarrow> transaction list
     \<Rightarrow> verified_block option" where
  "create_block cr core clock_round now ancestors payload =
     (let block = V1 (BlockV1_new (cm_epoch (cx_committee (cr_context core))) clock_round
                        (cx_own_index (cr_context core)) now ancestors payload)
      in case SignedBlock_new cr block of
           Inl _ \<Rightarrow> None
         | Inr signed_block \<Rightarrow> VerifiedBlock_new_verified_unserialized cr signed_block)"

definition try_new_block ::
  "block_crypto \<Rightarrow> (block_ref set \<Rightarrow> block_ref list) \<Rightarrow> block_timestamp_ms \<Rightarrow> bool \<Rightarrow> core
     \<Rightarrow> (verified_block option \<times> core) option" where
  "try_new_block cr hash_order now ignore_leaders_check core =
     (let clock_round = ThresholdClock_get_round (cr_threshold_clock core)
      in if clock_round \<le> last_proposed_round core then Some (None, core)
         else if ignore_leaders_check \<or> last_quorum_leaders_exist core then
           do { (ancestors, core1) \<leftarrow> ancestors_to_propose hash_order core clock_round now;
                let (payload, consumer) = TransactionsConsumer_next (cr_transactions_consumer core1);
                block \<leftarrow> create_block cr core1 clock_round now ancestors payload;
                clock \<leftarrow> ThresholdClock_add_block (cr_threshold_clock core1) (vb_reference block);
                let manager = snd (BlockManager_add_blocks (cr_block_manager core1) [block]);
                Some (Some block,
                      core1\<lparr>cr_threshold_clock := clock,
                            cr_transactions_consumer := consumer,
                            cr_pending_ancestors := push_pending block (cr_pending_ancestors core1),
                            cr_block_manager := manager,
                            cr_last_proposed_block := block,
                            cr_signals := cr_signals core1 @ [NewBlockReady (vb_reference block)]\<rparr>) }
         else Some (None, core))"

definition force_new_block ::
  "block_crypto \<Rightarrow> (block_ref set \<Rightarrow> block_ref list) \<Rightarrow> block_timestamp_ms \<Rightarrow> round \<Rightarrow> core
     \<Rightarrow> (verified_block option \<times> core) option" where
  "force_new_block cr hash_order now round core =
     (if last_proposed_round core < round then try_new_block cr hash_order now True core
      else Some (None, core))"

definition Core_add_blocks ::
  "block_crypto \<Rightarrow> (block_ref set \<Rightarrow> block_ref list) \<Rightarrow> block_timestamp_ms \<Rightarrow> verified_block list \<Rightarrow> core
     \<Rightarrow> (block_ref list \<times> core) option" where
  "Core_add_blocks cr hash_order now blocks core =
     (let (accepted_blocks, manager) = BlockManager_add_blocks (cr_block_manager core) blocks
      in do { (new_round, clock) \<leftarrow> ThresholdClock_add_blocks (cr_threshold_clock core)
                                     (map vb_reference accepted_blocks);
              let signals = (case new_round of Some r \<Rightarrow> cr_signals core @ [NewRound r] | None \<Rightarrow> cr_signals core);
              let core1 = core\<lparr>cr_block_manager := manager, cr_threshold_clock := clock, cr_signals := signals,
                               cr_pending_ancestors := fold push_pending accepted_blocks (cr_pending_ancestors core)\<rparr>;
              (_, core2) \<leftarrow> try_new_block cr hash_order now False core1;
              Some ([], core2) })"

section \<open>The core thread\<close>

datatype core_thread_command = AddBlocks "verified_block list" | ForceNewBlock round | GetMissing

text \<open>One command, handled at a time \<open>now\<close>.\<close>

fun handle_command ::
  "block_crypto \<Rightarrow> (block_ref set \<Rightarrow> block_ref list) \<Rightarrow> block_timestamp_ms \<times> core_thread_command \<Rightarrow> core
     \<Rightarrow> core option" where
  "handle_command cr hash_order (now, AddBlocks blocks) core =
     map_option snd (Core_add_blocks cr hash_order now blocks core)"
| "handle_command cr hash_order (now, ForceNewBlock round) core =
     map_option snd (force_new_block cr hash_order now round core)"
| "handle_command cr hash_order (now, GetMissing) core = Some core"

fun CoreThread_run ::
  "block_crypto \<Rightarrow> (block_ref set \<Rightarrow> block_ref list) \<Rightarrow> (block_timestamp_ms \<times> core_thread_command) list
     \<Rightarrow> core \<Rightarrow> core option" where
  "CoreThread_run cr hash_order [] core = Some core"
| "CoreThread_run cr hash_order (command # commands) core =
     do { core' \<leftarrow> handle_command cr hash_order command core;
          CoreThread_run cr hash_order commands core' }"

section \<open>Pending ancestors\<close>

definition pending_at :: "core \<Rightarrow> round \<Rightarrow> verified_block set" where
  "pending_at core r = (case bt_get (cr_pending_ancestors core) r of Some bs \<Rightarrow> set bs | None \<Rightarrow> {})"

lemma bt_get_push_pending:
  "bt_get (push_pending b m) r =
     (if r = vb_round b then Some ((case bt_get m r of Some bs \<Rightarrow> bs | None \<Rightarrow> []) @ [b]) else bt_get m r)"
  by (simp add: push_pending_def)

lemma pending_after_push:
  "pending_at (core\<lparr>cr_pending_ancestors := fold push_pending bs m\<rparr>) r =
     pending_at (core\<lparr>cr_pending_ancestors := m\<rparr>) r \<union> {b \<in> set bs. vb_round b = r}"
  by (induction bs arbitrary: m) (auto simp: pending_at_def bt_get_push_pending split: option.splits)

definition pending_keyed :: "core \<Rightarrow> bool" where
  "pending_keyed core \<longleftrightarrow> (\<forall>r. \<forall>b \<in> pending_at core r. vb_round b = r)"

text \<open>The blocks below a round, as the proposal collects them.\<close>

lemma collected_blocks:
  "b \<in> set (concat (map snd (bt_select (\<lambda>r. r < n) (cr_pending_ancestors core)))) \<longleftrightarrow>
     (\<exists>r < n. b \<in> pending_at core r)"
proof -
  have "b \<in> set (concat (map snd (bt_select (\<lambda>r. r < n) (cr_pending_ancestors core)))) \<longleftrightarrow>
      (\<exists>r bs. (r, bs) \<in> set (bt_select (\<lambda>r. r < n) (cr_pending_ancestors core)) \<and> b \<in> set bs)"
    by force
  also have "\<dots> \<longleftrightarrow> (\<exists>r < n. b \<in> pending_at core r)"
    by (auto simp: bt_select_set pending_at_def split: option.splits)
  finally show ?thesis .
qed

end
