(* ===== verification/Dag_Traversal.thy ===== *)
theory Dag_Traversal
  imports Dag_State
begin

text \<open>
  What the traversal of \<open>ancestors_at_uncommitted_round\<close> computes.  The specification is the
  inductive predicate \<open>linked_from\<close>: the references reachable from a start set along ancestor links
  of blocks above a round.  The traversal returns exactly the blocks of the round that are linked,
  it terminates on a DAG whose ancestor links go to lower rounds, and a larger DAG does not change
  its result.
\<close>

section \<open>Specification\<close>

inductive linked_from ::
  "(block_ref \<Rightarrow> verified_block option) \<Rightarrow> round \<Rightarrow> block_ref set \<Rightarrow> block_ref \<Rightarrow> bool"
  for get low S where
  start: "r \<in> S \<Longrightarrow> linked_from get low S r"
| step: "linked_from get low S r \<Longrightarrow> low < br_round r \<Longrightarrow> get r = Some b \<Longrightarrow>
     a \<in> set (vb_ancestors b) \<Longrightarrow> linked_from get low S a"

text \<open>Ancestors of a block are in lower rounds; the blocks of a DAG have their ancestors with them.\<close>

definition ancestors_below :: "(block_ref \<Rightarrow> verified_block option) \<Rightarrow> bool" where
  "ancestors_below get \<longleftrightarrow>
     (\<forall>r b a. get r = Some b \<longrightarrow> a \<in> set (vb_ancestors b) \<longrightarrow> br_round a < br_round r)"

definition causally_complete :: "round \<Rightarrow> (block_ref \<Rightarrow> verified_block option) \<Rightarrow> bool" where
  "causally_complete low get \<longleftrightarrow>
     (\<forall>r b a. get r = Some b \<longrightarrow> a \<in> set (vb_ancestors b) \<longrightarrow> low \<le> br_round a \<longrightarrow> get a \<noteq> None)"

lemma ancestors_belowD:
  "ancestors_below get \<Longrightarrow> get r = Some b \<Longrightarrow> a \<in> set (vb_ancestors b) \<Longrightarrow> br_round a < br_round r"
  by (auto simp: ancestors_below_def)

lemma causally_completeD:
  "causally_complete low get \<Longrightarrow> get r = Some b \<Longrightarrow> a \<in> set (vb_ancestors b) \<Longrightarrow> low \<le> br_round a
     \<Longrightarrow> \<exists>c. get a = Some c"
  by (auto simp: causally_complete_def)

lemma ancestors_below_submap: "ancestors_below get' \<Longrightarrow> get \<subseteq>\<^sub>m get' \<Longrightarrow> ancestors_below get"
  unfolding ancestors_below_def map_le_def by (metis domI)

lemma linked_from_mono:
  assumes "linked_from get low S r" and "get \<subseteq>\<^sub>m get'" and "S \<subseteq> S'"
  shows "linked_from get' low S' r"
  using assms(1)
proof induction
  case (start r)
  with assms(3) show ?case by (auto intro: linked_from.start)
next
  case (step r b a)
  have "get' r = Some b" using step.hyps(3) assms(2) by (metis domI map_le_def)
  with step show ?case by (blast intro: linked_from.step)
qed

lemma linked_from_trans:
  assumes "linked_from get low T r" and "\<And>t. t \<in> T \<Longrightarrow> linked_from get low S t"
  shows "linked_from get low S r"
  using assms(1)
proof induction
  case (start r)
  then show ?case by (rule assms(2))
next
  case (step r b a)
  then show ?case by (blast intro: linked_from.step)
qed

lemma linked_from_below:
  assumes "linked_from get low S r" and "ancestors_below get" and "\<And>t. t \<in> S \<Longrightarrow> br_round t < n"
  shows "br_round r < n"
  using assms(1)
proof induction
  case (start r)
  then show ?case by (rule assms(3))
next
  case (step r b a)
  with ancestors_belowD [OF assms(2)] show ?case by (meson less_trans)
qed

section \<open>The traversal\<close>

text \<open>Replacing a reference above the round by the ancestors of its block keeps the linked
  references at or below the round.\<close>

lemma linked_from_replace:
  assumes m: "m \<in> L" "low < br_round m" and get: "get m = Some b" and low: "br_round r \<le> low"
  shows "linked_from get low ((L - {m}) \<union> set (vb_ancestors b)) r \<longleftrightarrow> linked_from get low L r"
    (is "linked_from get low ?L' r \<longleftrightarrow> _")
proof
  assume "linked_from get low ?L' r"
  then show "linked_from get low L r"
  proof (rule linked_from_trans)
    fix t assume "t \<in> ?L'"
    with m get show "linked_from get low L t"
      by (auto intro: linked_from.intros)
  qed
next
  have aux: "q = m \<or> linked_from get low ?L' q" if "linked_from get low L q" for q
    using that
  proof induction
    case (start q)
    then show ?case by (auto intro: linked_from.start)
  next
    case (step q c a)
    show ?case
    proof (cases "q = m")
      case True
      with step.hyps get have "a \<in> ?L'" by simp
      then show ?thesis by (blast intro: linked_from.start)
    next
      case False
      with step show ?thesis by (blast intro: linked_from.step)
    qed
  qed
  assume "linked_from get low L r"
  with aux [of r] low m(2) show "linked_from get low ?L' r" by auto
qed

lemma expand_linked_sound:
  assumes "expand_linked get low L = Some L'" and "finite L"
  shows "finite L' \<and> (\<forall>r \<in> L'. br_round r \<le> low)
    \<and> (\<forall>r. br_round r \<le> low \<longrightarrow> (r \<in> L' \<longleftrightarrow> linked_from get low L r))"
proof -
  have finished: "finite L' \<and> (\<forall>r \<in> L'. br_round r \<le> low)
      \<and> (\<forall>r. br_round r \<le> low \<longrightarrow> (r \<in> L' \<longleftrightarrow> linked_from get low L r))"
    if fin: "finite L" and below: "\<forall>r \<in> L. br_round r \<le> low" and "L' = L" for L L'
  proof -
    have "r \<in> L" if "linked_from get low L r" for r
      using that by induction (use below in auto)
    then show ?thesis using that by (auto intro: linked_from.start)
  qed
  show ?thesis
  proof (rule expand_linked.raw_induct [where P = "\<lambda>get' low' L L'. get' = get \<longrightarrow> low' = low \<longrightarrow>
      finite L \<longrightarrow> (finite L' \<and> (\<forall>r \<in> L'. br_round r \<le> low)
        \<and> (\<forall>r. br_round r \<le> low \<longrightarrow> (r \<in> L' \<longleftrightarrow> linked_from get low L r)))",
      OF _ assms(1), THEN mp, THEN mp, THEN mp, OF _ refl refl assms(2)], intro impI)
    fix rec get' low' and L L' :: "block_ref set"
    assume IH: "\<And>get' low' L L'. rec get' low' L = Some L' \<Longrightarrow> get' = get \<longrightarrow> low' = low \<longrightarrow>
        finite L \<longrightarrow> (finite L' \<and> (\<forall>r \<in> L'. br_round r \<le> low)
          \<and> (\<forall>r. br_round r \<le> low \<longrightarrow> (r \<in> L' \<longleftrightarrow> linked_from get low L r)))"
      and eq: "(if L = {} then Some L
        else if br_round (Max L) \<le> low' then Some L
        else do { block \<leftarrow> get' (Max L);
                  rec get' low' ((L - {Max L}) \<union> set (vb_ancestors block)) }) = Some L'"
      and get': "get' = get" and low': "low' = low" and fin: "finite L"
    show "finite L' \<and> (\<forall>r \<in> L'. br_round r \<le> low)
        \<and> (\<forall>r. br_round r \<le> low \<longrightarrow> (r \<in> L' \<longleftrightarrow> linked_from get low L r))"
    proof (cases "L = {} \<or> br_round (Max L) \<le> low")
      case True
      then have "\<forall>r \<in> L. br_round r \<le> low"
        using fin by (meson Max_ge block_ref_le_round order_trans empty_iff)
      moreover have "L' = L" using True eq low' by (auto split: if_splits)
      ultimately show ?thesis using fin finished by blast
    next
      case False
      then have m: "Max L \<in> L" "low < br_round (Max L)" using fin by auto
      from False eq get' low' obtain b where b: "get (Max L) = Some b"
        and r: "rec get low ((L - {Max L}) \<union> set (vb_ancestors b)) = Some L'"
        by (auto split: Option.bind_splits)
      have "linked_from get low ((L - {Max L}) \<union> set (vb_ancestors b)) q \<longleftrightarrow> linked_from get low L q"
        if "br_round q \<le> low" for q
        using m b that by (rule linked_from_replace)
      with IH [OF r] fin show ?thesis by simp
    qed
  qed
qed

lemma expand_linked_terminates:
  assumes below: "ancestors_below get" and complete: "causally_complete low get"
    and "finite (dom get)" and "finite L" and "\<And>r. r \<in> L \<Longrightarrow> low < br_round r \<Longrightarrow> get r \<noteq> None"
  shows "\<exists>L'. expand_linked get low L = Some L'"
  using assms(4,5)
proof (induction "card {r \<in> dom get. L \<noteq> {} \<and> r \<le> Max L}" arbitrary: L rule: less_induct)
  case less
  show ?case
  proof (cases "L = {} \<or> br_round (Max L) \<le> low")
    case True
    then show ?thesis by (auto simp: expand_linked.simps)
  next
    case False
    then have m: "Max L \<in> L" "low < br_round (Max L)" using less.prems(1) by auto
    then obtain b where b: "get (Max L) = Some b" using less.prems(2) by blast
    let ?L' = "(L - {Max L}) \<union> set (vb_ancestors b)"
    have lt: "r < Max L" if "r \<in> ?L'" for r
    proof (cases "r \<in> L - {Max L}")
      case True
      then show ?thesis using less.prems(1) by (simp add: order.not_eq_order_implies_strict)
    next
      case False
      with that have "br_round r < br_round (Max L)"
        using ancestors_belowD [OF below b] by blast
      then show ?thesis by (simp add: less_block_ref_def)
    qed
    have sub: "{r \<in> dom get. ?L' \<noteq> {} \<and> r \<le> Max ?L'} \<subset> {r \<in> dom get. L \<noteq> {} \<and> r \<le> Max L}"
    proof
      show "{r \<in> dom get. ?L' \<noteq> {} \<and> r \<le> Max ?L'} \<subseteq> {r \<in> dom get. L \<noteq> {} \<and> r \<le> Max L}"
      proof
        fix r assume "r \<in> {r \<in> dom get. ?L' \<noteq> {} \<and> r \<le> Max ?L'}"
        then have ne: "?L' \<noteq> {}" and r: "r \<in> dom get" "r \<le> Max ?L'" by auto
        have "Max ?L' \<in> ?L'" using ne less.prems(1) by (intro Max_in) auto
        with lt r have "r < Max L" by (meson le_less_trans)
        with r m show "r \<in> {r \<in> dom get. L \<noteq> {} \<and> r \<le> Max L}" by auto
      qed
      have "Max L \<notin> {r \<in> dom get. ?L' \<noteq> {} \<and> r \<le> Max ?L'}"
      proof
        assume "Max L \<in> {r \<in> dom get. ?L' \<noteq> {} \<and> r \<le> Max ?L'}"
        then have ne: "?L' \<noteq> {}" and le: "Max L \<le> Max ?L'" by auto
        have "Max ?L' \<in> ?L'" using ne less.prems(1) by (intro Max_in) auto
        with lt le show False by (meson leD)
      qed
      moreover have "Max L \<in> {r \<in> dom get. L \<noteq> {} \<and> r \<le> Max L}" using b m by auto
      ultimately show "{r \<in> dom get. ?L' \<noteq> {} \<and> r \<le> Max ?L'} \<noteq> {r \<in> dom get. L \<noteq> {} \<and> r \<le> Max L}"
        by blast
    qed
    have "card {r \<in> dom get. ?L' \<noteq> {} \<and> r \<le> Max ?L'} < card {r \<in> dom get. L \<noteq> {} \<and> r \<le> Max L}"
      using assms(3) sub by (intro psubset_card_mono) auto
    moreover have "finite ?L'" using less.prems(1) by simp
    moreover have "get r \<noteq> None" if "r \<in> ?L'" "low < br_round r" for r
      using that less.prems(2) causally_completeD [OF complete b, of r] by fastforce
    ultimately have "\<exists>L'. expand_linked get low ?L' = Some L'" by (rule less.hyps)
    with False b show ?thesis by (simp add: expand_linked.simps [of get low L])
  qed
qed

lemma expand_linked_mono [dag_mono]:
  assumes "expand_linked get low L = Some L'" and le: "get \<subseteq>\<^sub>m get'"
  shows "expand_linked get' low L = Some L'"
proof (rule expand_linked.raw_induct [where P = "\<lambda>g low L L'. g = get \<longrightarrow>
    expand_linked get' low L = Some L'", OF _ assms(1), THEN mp, OF _ refl], intro impI)
  fix rec g low L L'
  assume IH: "\<And>g low L L'. rec g low L = Some L' \<Longrightarrow> g = get \<longrightarrow> expand_linked get' low L = Some L'"
    and eq: "(if L = {} then Some L
        else if br_round (Max L) \<le> low then Some L
        else do { block \<leftarrow> g (Max L);
                  rec g low ((L - {Max L}) \<union> set (vb_ancestors block)) }) = Some L'"
    and g: "g = get"
  show "expand_linked get' low L = Some L'"
  proof (cases "L = {} \<or> br_round (Max L) \<le> low")
    case True
    with eq show ?thesis by (auto simp: expand_linked.simps split: if_splits)
  next
    case False
    with eq g obtain b where b: "get (Max L) = Some b"
      and r: "rec get low ((L - {Max L}) \<union> set (vb_ancestors b)) = Some L'"
      by (auto split: Option.bind_splits)
    have "get' (Max L) = Some b" using b le by (metis domI map_le_def)
    with False IH [OF r] show ?thesis by (simp add: expand_linked.simps [of get' low L])
  qed
qed

section \<open>Ancestors at a round\<close>

lemma get_all_eq:
  "get_all get rs = Some bs \<longleftrightarrow> map get rs = map Some bs"
proof (induction rs arbitrary: bs)
  case (Cons r rs)
  show ?case
  proof (cases bs)
    case Nil
    then show ?thesis by (auto split: Option.bind_splits)
  next
    case (Cons c cs)
    have "get_all get (r # rs) = Some (c # cs) \<longleftrightarrow> get r = Some c \<and> get_all get rs = Some cs"
      by (auto split: Option.bind_splits)
    then show ?thesis using Cons.IH [of cs] by (simp add: \<open>bs = c # cs\<close>)
  qed
qed auto

lemma ancestors_at_round_set:
  assumes "ancestors_at_uncommitted_round s later low = Some bs"
  shows "b \<in> set bs \<longleftrightarrow>
    (\<exists>r. linked_from (get_uncommitted_block s) low (set (vb_ancestors later)) r
       \<and> br_round r = low \<and> get_uncommitted_block s r = Some b)"
proof -
  let ?get = "get_uncommitted_block s"
  from assms obtain L where L: "expand_linked ?get low (set (vb_ancestors later)) = Some L"
    and bs: "get_all ?get (filter (\<lambda>r. BlockRef low 0 digest_MIN \<le> r) (sorted_list_of_set L)) = Some bs"
    by (auto simp: ancestors_at_uncommitted_round_def split: if_splits Option.bind_splits)
  let ?rs = "filter (\<lambda>r. BlockRef low 0 digest_MIN \<le> r) (sorted_list_of_set L)"
  from expand_linked_sound [OF L] have fin: "finite L" and le: "\<forall>r \<in> L. br_round r \<le> low"
    and char: "\<And>r. br_round r \<le> low \<Longrightarrow>
      r \<in> L \<longleftrightarrow> linked_from ?get low (set (vb_ancestors later)) r" by auto
  have rs: "r \<in> set ?rs \<longleftrightarrow> linked_from ?get low (set (vb_ancestors later)) r \<and> br_round r = low" for r
    using fin le char by (auto simp: BlockRef_le_iff)
  have "b \<in> set bs \<longleftrightarrow> Some b \<in> set (map Some bs)" by auto
  also have "\<dots> \<longleftrightarrow> Some b \<in> set (map ?get ?rs)" using bs by (simp only: get_all_eq)
  also have "\<dots> \<longleftrightarrow> (\<exists>r \<in> set ?rs. ?get r = Some b)" by (metis (no_types) image_iff set_map)
  finally show ?thesis using rs by blast
qed

lemma ancestors_at_round_defined:
  assumes inv: "ancestors_below (get_uncommitted_block s)"
    and complete: "causally_complete low (get_uncommitted_block s)"
    and later: "get_uncommitted_block s r = Some later" "low < vb_round later"
    and low: "last_commit_round s < low"
  shows "\<exists>bs. ancestors_at_uncommitted_round s later low = Some bs"
proof -
  let ?get = "get_uncommitted_block s" and ?S = "set (vb_ancestors later)"
  have fin: "finite (dom ?get)" by (simp add: get_uncommitted_block_def [abs_def])
  have "?get a \<noteq> None" if "a \<in> ?S" "low < br_round a" for a
    using causally_completeD [OF complete later(1) that(1)] that(2) by auto
  then obtain L where L: "expand_linked ?get low ?S = Some L"
    using expand_linked_terminates [OF inv complete fin, of ?S] by auto
  from expand_linked_sound [OF L] have fL: "finite L"
    and char: "\<And>q. br_round q \<le> low \<Longrightarrow> q \<in> L \<longleftrightarrow> linked_from ?get low ?S q"
    and le: "\<forall>q \<in> L. br_round q \<le> low" by auto
  have present: "?get q \<noteq> None" if "q \<in> L" "low \<le> br_round q" for q
  proof -
    have "linked_from ?get low ?S q" using that le char by auto
    then show ?thesis
    proof cases
      case start
      then show ?thesis using causally_completeD [OF complete later(1), of q] that(2) by auto
    next
      case (step p b)
      then show ?thesis using causally_completeD [OF complete step(3) step(4)] that(2) by auto
    qed
  qed
  let ?rs = "filter (\<lambda>q. BlockRef low 0 digest_MIN \<le> q) (sorted_list_of_set L)"
  have "\<forall>q \<in> set ?rs. ?get q \<noteq> None"
    using present fL by (auto simp: block_ref_order)
  then have "map ?get ?rs = map Some (map (the \<circ> ?get) ?rs)" by auto
  then have "get_all ?get ?rs = Some (map (the \<circ> ?get) ?rs)" by (simp only: get_all_eq)
  with L later(2) low show ?thesis
    by (auto simp: ancestors_at_uncommitted_round_def)
qed

end
