(* ===== verification/Leader_Schedule.thy ===== *)
theory Leader_Schedule
  imports Dag_State
begin

text \<open>
  Election of the leader of a round (\<open>consensus/core/src/leader_schedule.rs\<close>), as the release build
  does it: a stake-weighted choice seeded with the round.  The weighted choice is
  \<open>SliceRandom::choose_multiple_weighted\<close> of the package \<open>rand\<close> on a generator seeded with the given
  bytes, and the conversion of a stake to a 32-bit float is left to it: both are arguments.  The
  relevant promise of \<open>choose_multiple_weighted\<close> is \<open>chooses_distinct\<close>: it returns the asked number
  of elements of the slice, none twice.
\<close>

definition u32_to_le_bytes :: "u32 \<Rightarrow> bytes" where
  "u32_to_le_bytes n = map (\<lambda>i. word_of_nat (n div 256 ^ i)) [0..<4]"

definition seed_bytes :: "round \<Rightarrow> bytes" where
  "seed_bytes round = replicate 28 0 @ u32_to_le_bytes round"

type_synonym 'f weighted_choice =
  "bytes \<Rightarrow> (authority_index \<times> 'f) list \<Rightarrow> nat \<Rightarrow> (authority_index \<times> 'f) list option"

definition elect_leader_stake_based ::
  "(stake \<Rightarrow> 'f) \<Rightarrow> 'f weighted_choice \<Rightarrow> committee \<Rightarrow> round \<Rightarrow> u32 \<Rightarrow> authority_index option" where
  "elect_leader_stake_based as_f32 choose_multiple_weighted c round offset =
     (if \<not> offset < committee_size c then None
      else
        let choices = map (\<lambda>(index, authority). (index, as_f32 (au_stake authority)))
                        (committee_authorities c)
        in do { chosen \<leftarrow> choose_multiple_weighted (seed_bytes round) choices (committee_size c);
                (case drop offset chosen of [] \<Rightarrow> None | (index, _) # _ \<Rightarrow> Some index) })"

text \<open>The schedule a committer holds: the leader of a round at an offset.\<close>

type_synonym leader_schedule = "round \<Rightarrow> u32 \<Rightarrow> authority_index option"

definition LeaderSchedule_new ::
  "(stake \<Rightarrow> 'f) \<Rightarrow> 'f weighted_choice \<Rightarrow> committee \<Rightarrow> leader_schedule" where
  "LeaderSchedule_new as_f32 choose_multiple_weighted c =
     elect_leader_stake_based as_f32 choose_multiple_weighted c"

definition chooses_distinct :: "'f weighted_choice \<Rightarrow> bool" where
  "chooses_distinct cmw \<longleftrightarrow>
     (\<forall>seed xs n. n \<le> length xs \<longrightarrow> distinct xs \<longrightarrow>
        (\<exists>ys. cmw seed xs n = Some ys \<and> length ys = n \<and> distinct ys \<and> set ys \<subseteq> set xs))"

lemma committee_authorities_index:
  assumes "committee_size c < 2 ^ 32"
  shows "map fst (committee_authorities c) = [0..<committee_size c]"
proof -
  let ?z = "zip [0..<committee_size c] (cm_authorities c)"
  have "map fst (committee_authorities c) = map ((\<lambda>i. i mod 2 ^ 32) \<circ> fst) ?z"
    unfolding committee_authorities_def committee_size_def by (simp add: case_prod_beta comp_def)
  also have "\<dots> = map (\<lambda>i. i mod 2 ^ 32) (map fst ?z)" by (simp only: map_map)
  also have "map fst ?z = [0..<committee_size c]" by (simp add: committee_size_def)
  also have "map (\<lambda>i. i mod 2 ^ 32) [0..<committee_size c] = [0..<committee_size c]"
    using assms by (intro map_idI) simp
  finally show ?thesis .
qed

lemma committee_ok_size: "committee_ok c \<Longrightarrow> 0 < committee_size c \<and> committee_size c < 2 ^ 32"
  by (auto simp: committee_ok_def Committee_new_def committee_size_def split: if_splits)

text \<open>Every offset below the committee size elects an authority, and distinct offsets elect
  distinct authorities.\<close>

lemma elect_leader_distinct_gen:
  assumes ok: "committee_ok c" and ch: "chooses_distinct cmw"
  shows "\<exists>ys. length ys = committee_size c \<and> distinct ys \<and> set ys \<subseteq> members c
     \<and> (\<forall>i < committee_size c. elect_leader_stake_based f cmw c round i = Some (ys ! i))"
proof -
  define xs where "xs = map (\<lambda>(index, authority). (index, f (au_stake authority)))
                          (committee_authorities c)"
  have fst_xs: "map fst xs = [0..<committee_size c]"
    using committee_authorities_index [of c] committee_ok_size [OF ok]
    by (simp add: xs_def comp_def case_prod_beta)
  have "length (map fst xs) = committee_size c" by (simp only: fst_xs length_upt diff_zero)
  then have len: "length xs = committee_size c" by simp
  have d: "distinct (map fst xs)" by (simp only: fst_xs distinct_upt)
  then have inj: "distinct xs" and inj_fst: "inj_on fst (set xs)" by (simp_all add: distinct_map)
  from len inj obtain ys where ys: "cmw (seed_bytes round) xs (committee_size c) = Some ys"
      "length ys = committee_size c" "distinct ys" "set ys \<subseteq> set xs"
    using ch [unfolded chooses_distinct_def, THEN spec [of _ "seed_bytes round"], THEN spec [of _ xs],
        THEN spec [of _ "committee_size c"]] by auto
  have "distinct (map fst ys)"
    using ys(3,4) inj_fst by (simp add: distinct_map inj_on_subset)
  moreover have "set (map fst ys) \<subseteq> members c"
  proof -
    have "set (map fst ys) \<subseteq> set (map fst xs)" using ys(4) by auto
    also have "set (map fst xs) = members c" by (simp only: fst_xs members_def set_upt)
    finally show ?thesis .
  qed
  moreover have "elect_leader_stake_based f cmw c round i = Some (map fst ys ! i)" if "i < committee_size c" for i
  proof -
    have "drop i ys = ys ! i # drop (Suc i) ys"
      using that ys(2) by (simp add: Cons_nth_drop_Suc)
    with that ys(1,2) show ?thesis
      by (simp add: elect_leader_stake_based_def Let_def xs_def [symmetric] case_prod_beta)
  qed
  ultimately show ?thesis using ys(2) by (intro exI [of _ "map fst ys"]) simp
qed

end
