(* ===== verification/Base_Committer.thy ===== *)
theory Base_Committer
  imports Dag_Traversal Leader_Schedule
begin

text \<open>
  The commit rule for one leader slot (\<open>consensus/core/src/base_committer.rs\<close>).  The committer reads
  the DAG state through its lock; the definitions take the state as an argument.  Loops that leave
  early are recursive functions over the list they iterate, with the aggregator and the vote cache
  as accumulators.
\<close>

section \<open>Options and rounds\<close>

record base_committer_options =
  bo_wave_length :: u32
  bo_leader_offset :: u32
  bo_round_offset :: u32

definition BaseCommitterOptions_default :: base_committer_options where
  "BaseCommitterOptions_default =
     \<lparr>bo_wave_length = DEFAULT_WAVE_LENGTH, bo_leader_offset = 0, bo_round_offset = 0\<rparr>"

record base_committer =
  bc_context :: consensus_context
  bc_leader_schedule :: leader_schedule
  bc_options :: base_committer_options

definition BaseCommitter_new ::
  "consensus_context \<Rightarrow> leader_schedule \<Rightarrow> base_committer_options \<Rightarrow> base_committer option" where
  "BaseCommitter_new cx schedule opts =
     (if bo_wave_length opts \<ge> MINIMUM_WAVE_LENGTH
      then Some \<lparr>bc_context = cx, bc_leader_schedule = schedule, bc_options = opts\<rparr>
      else None)"

definition leader_round :: "base_committer \<Rightarrow> wave \<Rightarrow> round" where
  "leader_round bc wave =
     add_u32 (mul_u32 wave (bo_wave_length (bc_options bc))) (bo_round_offset (bc_options bc))"

definition decision_round :: "base_committer \<Rightarrow> wave \<Rightarrow> round" where
  "decision_round bc wave =
     (let wave_length = bo_wave_length (bc_options bc)
      in add_u32 (sub_u32 (add_u32 (mul_u32 wave wave_length) wave_length) 1)
                 (bo_round_offset (bc_options bc)))"

definition wave_number :: "base_committer \<Rightarrow> round \<Rightarrow> wave" where
  "wave_number bc round =
     (round - bo_round_offset (bc_options bc)) div bo_wave_length (bc_options bc)"

text \<open>\<open>None\<close> is a panic of the schedule, \<open>Some None\<close> a round without a leader.\<close>

definition elect_leader :: "base_committer \<Rightarrow> round \<Rightarrow> slot option option" where
  "elect_leader bc round =
     (let wave = wave_number bc round
      in if leader_round bc wave \<noteq> round then Some None
         else do { a \<leftarrow> bc_leader_schedule bc round (bo_leader_offset (bc_options bc));
                   Some (Some (Slot_new round a)) })"

section \<open>Votes and certificates\<close>

partial_function (option) find_supported_block ::
  "(block_ref \<Rightarrow> verified_block option) \<Rightarrow> slot \<Rightarrow> verified_block \<Rightarrow> block_ref option option" where
  "find_supported_block get leader_slot from =
     (if vb_round from < sl_round leader_slot then Some None
      else find_first_some
        (\<lambda>ancestor.
           if Slot_from ancestor = leader_slot then Some (Some ancestor)
           else if br_round ancestor \<le> sl_round leader_slot then Some None
           else do { block \<leftarrow> get ancestor; find_supported_block get leader_slot block })
        (vb_ancestors from))"

definition is_vote ::
  "(block_ref \<Rightarrow> verified_block option) \<Rightarrow> verified_block \<Rightarrow> verified_block \<Rightarrow> bool option" where
  "is_vote get potential_vote leader_block =
     (let reference = vb_reference leader_block; leader_slot = Slot_from reference
      in do { supported \<leftarrow> find_supported_block get leader_slot potential_vote;
              Some (supported = Some reference) })"

type_synonym vote_cache = "block_ref \<Rightarrow> bool option"

text \<open>The vote of one reference, from the cache or from the DAG, with the updated cache.\<close>

definition cached_vote ::
  "(block_ref \<Rightarrow> verified_block option) \<Rightarrow> verified_block \<Rightarrow> vote_cache \<Rightarrow> block_ref
     \<Rightarrow> (bool \<times> vote_cache) option" where
  "cached_vote get leader_block all_votes reference =
     (case all_votes reference of
        Some v \<Rightarrow> Some (v, all_votes)
      | None \<Rightarrow>
          do { potential_vote \<leftarrow> get reference;
               v \<leftarrow> is_vote get potential_vote leader_block;
               Some (v, all_votes(reference \<mapsto> v)) })"

fun certificate_loop ::
  "(block_ref \<Rightarrow> verified_block option) \<Rightarrow> committee \<Rightarrow> verified_block \<Rightarrow> stake_aggregator
     \<Rightarrow> vote_cache \<Rightarrow> block_ref list \<Rightarrow> (bool \<times> vote_cache) option" where
  "certificate_loop get c leader_block agg all_votes [] = Some (False, all_votes)"
| "certificate_loop get c leader_block agg all_votes (reference # references) =
     do { (v, all_votes') \<leftarrow> cached_vote get leader_block all_votes reference;
          (if v
           then do { (reached, agg') \<leftarrow> StakeAggregator_add QuorumThreshold agg (br_author reference) c;
                     (if reached then Some (True, all_votes')
                      else certificate_loop get c leader_block agg' all_votes' references) }
           else certificate_loop get c leader_block agg all_votes' references) }"

definition is_certificate ::
  "(block_ref \<Rightarrow> verified_block option) \<Rightarrow> committee \<Rightarrow> verified_block \<Rightarrow> verified_block
     \<Rightarrow> vote_cache \<Rightarrow> (bool \<times> vote_cache) option" where
  "is_certificate get c potential_certificate leader_block all_votes =
     certificate_loop get c leader_block StakeAggregator_new all_votes
       (vb_ancestors potential_certificate)"

section \<open>Direct decision\<close>

fun blame_loop ::
  "committee \<Rightarrow> authority_index \<Rightarrow> stake_aggregator \<Rightarrow> verified_block list \<Rightarrow> bool option" where
  "blame_loop c leader agg [] = Some False"
| "blame_loop c leader agg (voting_block # voting_blocks) =
     (if list_all (\<lambda>ancestor. br_author ancestor \<noteq> leader) (vb_ancestors voting_block)
      then do { (reached, agg') \<leftarrow> StakeAggregator_add QuorumThreshold agg
                                   (br_author (vb_reference voting_block)) c;
                (if reached then Some True else blame_loop c leader agg' voting_blocks) }
      else blame_loop c leader agg voting_blocks)"

definition enough_leader_blame ::
  "committee \<Rightarrow> dag_state \<Rightarrow> round \<Rightarrow> authority_index \<Rightarrow> bool option" where
  "enough_leader_blame c s voting_round leader =
     do { voting_blocks \<leftarrow> get_uncommitted_blocks_at_round s voting_round;
          blame_loop c leader StakeAggregator_new voting_blocks }"

fun stakes_of :: "committee \<Rightarrow> verified_block list \<Rightarrow> stake list option" where
  "stakes_of c [] = Some []"
| "stakes_of c (b # bs) =
     do { s \<leftarrow> committee_stake c (vb_author b); ss \<leftarrow> stakes_of c bs; Some (s # ss) }"

fun support_loop ::
  "(block_ref \<Rightarrow> verified_block option) \<Rightarrow> committee \<Rightarrow> verified_block \<Rightarrow> stake_aggregator
     \<Rightarrow> vote_cache \<Rightarrow> verified_block list \<Rightarrow> bool option" where
  "support_loop get c leader_block agg all_votes [] = Some False"
| "support_loop get c leader_block agg all_votes (decision_block # decision_blocks) =
     do { (certificate, all_votes') \<leftarrow> is_certificate get c decision_block leader_block all_votes;
          (if certificate
           then do { (reached, agg') \<leftarrow> StakeAggregator_add QuorumThreshold agg
                                        (br_author (vb_reference decision_block)) c;
                     (if reached then Some True
                      else support_loop get c leader_block agg' all_votes' decision_blocks) }
           else support_loop get c leader_block agg all_votes' decision_blocks) }"

definition enough_leader_support ::
  "committee \<Rightarrow> dag_state \<Rightarrow> round \<Rightarrow> verified_block \<Rightarrow> bool option" where
  "enough_leader_support c s dr leader_block =
     do { decision_blocks \<leftarrow> get_uncommitted_blocks_at_round s dr;
          stakes \<leftarrow> stakes_of c decision_blocks;
          (if \<not> reached_quorum c (sum_u64 stakes) then Some False
           else support_loop (get_uncommitted_block s) c leader_block StakeAggregator_new
                  Map.empty decision_blocks) }"

fun filter_opt :: "('a \<Rightarrow> bool option) \<Rightarrow> 'a list \<Rightarrow> 'a list option" where
  "filter_opt P [] = Some []"
| "filter_opt P (x # xs) =
     do { keep \<leftarrow> P x; ys \<leftarrow> filter_opt P xs; Some (if keep then x # ys else ys) }"

definition try_direct_decide :: "base_committer \<Rightarrow> dag_state \<Rightarrow> slot \<Rightarrow> leader_status option" where
  "try_direct_decide bc s leader =
     (let c = cx_committee (bc_context bc);
          voting_round = add_u32 (sl_round leader) 1
      in do { blame \<leftarrow> enough_leader_blame c s voting_round (sl_authority leader);
              (if blame then Some (Skip leader)
               else
                 let wave = wave_number bc (sl_round leader);
                     dr = decision_round bc wave;
                     leader_blocks = get_uncommitted_blocks_at_slot s leader
                 in do { leaders_with_enough_support \<leftarrow>
                           filter_opt (enough_leader_support c s dr) leader_blocks;
                         (if length leaders_with_enough_support > 1 then None
                          else (case leaders_with_enough_support of
                                  [] \<Rightarrow> Some (Undecided leader)
                                | l # _ \<Rightarrow> Some (Commit l))) }) })"

section \<open>Indirect decision\<close>

fun any_certificate ::
  "(block_ref \<Rightarrow> verified_block option) \<Rightarrow> committee \<Rightarrow> verified_block \<Rightarrow> vote_cache
     \<Rightarrow> verified_block list \<Rightarrow> bool option" where
  "any_certificate get c leader_block all_votes [] = Some False"
| "any_certificate get c leader_block all_votes (potential_certificate # rest) =
     do { (certificate, all_votes') \<leftarrow> is_certificate get c potential_certificate leader_block all_votes;
          (if certificate then Some True
           else any_certificate get c leader_block all_votes' rest) }"

definition decide_leader_from_anchor ::
  "base_committer \<Rightarrow> dag_state \<Rightarrow> verified_block \<Rightarrow> slot \<Rightarrow> leader_status option" where
  "decide_leader_from_anchor bc s anchor leader_slot =
     (let c = cx_committee (bc_context bc);
          leader_blocks = get_uncommitted_blocks_at_slot s leader_slot;
          wave = wave_number bc (sl_round leader_slot);
          dr = decision_round bc wave
      in do { potential_certificates \<leftarrow> ancestors_at_uncommitted_round s anchor dr;
              certified_leader_blocks \<leftarrow>
                filter_opt (\<lambda>leader_block. any_certificate (get_uncommitted_block s) c leader_block
                              Map.empty potential_certificates) leader_blocks;
              (if length certified_leader_blocks > 1 then None
               else (case certified_leader_blocks of
                       [] \<Rightarrow> Some (Skip leader_slot)
                     | l # _ \<Rightarrow> Some (Commit l))) })"

fun anchor_loop ::
  "base_committer \<Rightarrow> dag_state \<Rightarrow> slot \<Rightarrow> leader_status list \<Rightarrow> leader_status option" where
  "anchor_loop bc s leader_slot [] = Some (Undecided leader_slot)"
| "anchor_loop bc s leader_slot (Commit anchor # anchors) =
     decide_leader_from_anchor bc s anchor leader_slot"
| "anchor_loop bc s leader_slot (Skip _ # anchors) = anchor_loop bc s leader_slot anchors"
| "anchor_loop bc s leader_slot (Undecided _ # anchors) = Some (Undecided leader_slot)"

definition try_indirect_decide ::
  "base_committer \<Rightarrow> dag_state \<Rightarrow> slot \<Rightarrow> leader_status list \<Rightarrow> leader_status option" where
  "try_indirect_decide bc s leader_slot leaders =
     anchor_loop bc s leader_slot
       (filter (\<lambda>x. add_u32 (sl_round leader_slot) (bo_wave_length (bc_options bc)) \<le> ls_round x) leaders)"

end
