(* ===== verification/Commit_Rule.thy ===== *)
theory Commit_Rule
  imports Base_Committer
begin

text \<open>
  What the pieces of the commit rule compute, stated without their loops, accumulators and caches:
  the block a block supports, the votes in a list of references, certificates, blames, and the
  outcome of the direct and the indirect rule.  Each lemma holds whenever the operation returns, and
  the \<open>_defined\<close> lemmas say when it does.
\<close>

section \<open>Supported blocks\<close>

lemma find_supported_block_mono [dag_mono]:
  assumes "find_supported_block get sl from = Some r" and le: "get \<subseteq>\<^sub>m get'"
  shows "find_supported_block get' sl from = Some r"
proof (rule find_supported_block.raw_induct [where P = "\<lambda>g sl from r. g = get \<longrightarrow>
    find_supported_block get' sl from = Some r", OF _ assms(1), THEN mp, OF _ refl], intro impI)
  fix rec g sl "from" r
  assume IH: "\<And>g sl from r. rec g sl from = Some r \<Longrightarrow> g = get \<longrightarrow>
      find_supported_block get' sl from = Some r"
    and eq: "(if vb_round from < sl_round sl then Some None
      else find_first_some
        (\<lambda>a. if Slot_from a = sl then Some (Some a)
             else if br_round a \<le> sl_round sl then Some None
             else do { b \<leftarrow> g a; rec g sl b }) (vb_ancestors from)) = Some r"
    and g: "g = get"
  show "find_supported_block get' sl from = Some r"
  proof (cases "vb_round from < sl_round sl")
    case True
    with eq show ?thesis by (simp add: find_supported_block.simps [of get' sl "from"])
  next
    case False
    with eq have "find_first_some
        (\<lambda>a. if Slot_from a = sl then Some (Some a)
             else if br_round a \<le> sl_round sl then Some None
             else do { b \<leftarrow> g a; rec g sl b }) (vb_ancestors from) = Some r" by simp
    then have "find_first_some
        (\<lambda>a. if Slot_from a = sl then Some (Some a)
             else if br_round a \<le> sl_round sl then Some None
             else do { b \<leftarrow> get' a; find_supported_block get' sl b }) (vb_ancestors from) = Some r"
    proof (rule find_first_some_weaken)
      fix a y
      assume body: "(if Slot_from a = sl then Some (Some a)
             else if br_round a \<le> sl_round sl then Some None
             else do { b \<leftarrow> g a; rec g sl b }) = Some y"
      have up: "get' a = Some b" if "get a = Some b" for b
        using that le by (metis domI map_le_def)
      show "(if Slot_from a = sl then Some (Some a)
             else if br_round a \<le> sl_round sl then Some None
             else do { b \<leftarrow> get' a; find_supported_block get' sl b }) = Some y"
        using body g IH by (auto split: if_splits Option.bind_splits dest: up)
    qed
    with False show ?thesis by (simp add: find_supported_block.simps [of get' sl "from"])
  qed
qed

lemma find_supported_block_linked:
  assumes "find_supported_block get sl from = Some (Some r)"
  shows "Slot_from r = sl \<and> linked_from get (sl_round sl) (set (vb_ancestors from)) r"
proof (rule find_supported_block.raw_induct [where P = "\<lambda>g s from res. g = get \<longrightarrow>
    res = Some r \<longrightarrow> Slot_from r = s \<and> linked_from get (sl_round s) (set (vb_ancestors from)) r",
    OF _ assms, THEN mp, THEN mp, OF _ refl refl], intro impI)
  fix rec g s "from" res
  assume IH: "\<And>g s from res. rec g s from = Some res \<Longrightarrow> g = get \<longrightarrow> res = Some r \<longrightarrow>
      Slot_from r = s \<and> linked_from get (sl_round s) (set (vb_ancestors from)) r"
    and eq: "(if vb_round from < sl_round s then Some None
      else find_first_some
        (\<lambda>a. if Slot_from a = s then Some (Some a)
             else if br_round a \<le> sl_round s then Some None
             else do { b \<leftarrow> g a; rec g s b }) (vb_ancestors from)) = Some res"
    and g: "g = get" and res: "res = Some r"
  from eq res have "find_first_some
        (\<lambda>a. if Slot_from a = s then Some (Some a)
             else if br_round a \<le> sl_round s then Some None
             else do { b \<leftarrow> g a; rec g s b }) (vb_ancestors from) = Some (Some r)"
    by (simp split: if_splits)
  then obtain a where a: "a \<in> set (vb_ancestors from)" and body:
    "(if Slot_from a = s then Some (Some a)
      else if br_round a \<le> sl_round s then Some None
      else do { b \<leftarrow> g a; rec g s b }) = Some (Some r)"
    by (blast dest: find_first_some_SomeD)
  show "Slot_from r = s \<and> linked_from get (sl_round s) (set (vb_ancestors from)) r"
  proof (cases "Slot_from a = s")
    case True
    with body a show ?thesis by (auto intro: linked_from.start)
  next
    case False
    with body g obtain b where up: "sl_round s < br_round a" and b: "get a = Some b"
      and r: "rec get s b = Some (Some r)"
      by (auto split: if_splits Option.bind_splits)
    from IH [OF r] have 1: "Slot_from r = s"
      and 2: "linked_from get (sl_round s) (set (vb_ancestors b)) r" by auto
    have "linked_from get (sl_round s) (set (vb_ancestors from)) t"
      if "t \<in> set (vb_ancestors b)" for t
      using linked_from.start [OF a] up b that by (rule linked_from.step)
    with 1 2 show ?thesis by (blast intro: linked_from_trans)
  qed
qed

text \<open>A block of the round after the slot supports the first of its ancestors in the slot.\<close>

lemma find_supported_block_next_round:
  assumes "sl_round sl \<le> vb_round from" and "\<And>a. a \<in> set (vb_ancestors from) \<Longrightarrow> br_round a \<le> sl_round sl"
  shows "find_supported_block get sl from = Some (List.find (\<lambda>a. Slot_from a = sl) (vb_ancestors from))"
proof -
  have "find_first_some
        (\<lambda>a. if Slot_from a = sl then Some (Some a)
             else if br_round a \<le> sl_round sl then Some None
             else do { b \<leftarrow> get a; find_supported_block get sl b }) as
      = Some (List.find (\<lambda>a. Slot_from a = sl) as)"
    if "\<And>a. a \<in> set as \<Longrightarrow> br_round a \<le> sl_round sl" for as
    using that by (induction as) auto
  with assms show ?thesis by (simp add: find_supported_block.simps [of get sl "from"])
qed

lemma find_supported_block_defined:
  assumes below: "ancestors_below get" and complete: "causally_complete (Suc (sl_round sl)) get"
    and "get q = Some from" and ref: "\<And>r b. get r = Some b \<Longrightarrow> vb_reference b = r"
  shows "find_supported_block get sl from \<noteq> None"
  using assms(3)
proof (induction "br_round q" arbitrary: q "from" rule: less_induct)
  case less
  have "(if Slot_from a = sl then Some (Some a)
        else if br_round a \<le> sl_round sl then Some None
        else do { b \<leftarrow> get a; find_supported_block get sl b }) \<noteq> None"
    if a: "a \<in> set (vb_ancestors from)" for a
  proof (cases "Slot_from a = sl \<or> br_round a \<le> sl_round sl")
    case False
    then obtain b where b: "get a = Some b"
      using causally_completeD [OF complete less.prems a] by auto
    moreover have "br_round a < br_round q" using ancestors_belowD [OF below less.prems a] .
    ultimately have "find_supported_block get sl b \<noteq> None" by (intro less.hyps)
    with b False show ?thesis by simp
  qed auto
  then have "find_first_some (\<lambda>a. if Slot_from a = sl then Some (Some a)
        else if br_round a \<le> sl_round sl then Some None
        else do { b \<leftarrow> get a; find_supported_block get sl b }) (vb_ancestors from) \<noteq> None"
    by (rule find_first_some_total)
  then show ?case by (simp add: find_supported_block.simps [of get sl "from"])
qed

section \<open>Votes\<close>

definition supports :: "(block_ref \<Rightarrow> verified_block option) \<Rightarrow> block_ref \<Rightarrow> verified_block \<Rightarrow> bool" where
  "supports get r leader_block \<longleftrightarrow> (\<exists>b. get r = Some b \<and> is_vote get b leader_block = Some True)"

definition voters ::
  "(block_ref \<Rightarrow> verified_block option) \<Rightarrow> verified_block \<Rightarrow> block_ref list \<Rightarrow> authority_index set" where
  "voters get leader_block rs = br_author ` {r \<in> set rs. supports get r leader_block}"

definition certifies ::
  "(block_ref \<Rightarrow> verified_block option) \<Rightarrow> committee \<Rightarrow> verified_block \<Rightarrow> verified_block \<Rightarrow> bool" where
  "certifies get c potential_certificate leader_block \<longleftrightarrow>
     cm_quorum_threshold c
       \<le> weight_of (stake_at c) (voters get leader_block (vb_ancestors potential_certificate))"

definition cache_ok ::
  "(block_ref \<Rightarrow> verified_block option) \<Rightarrow> verified_block \<Rightarrow> vote_cache \<Rightarrow> bool" where
  "cache_ok get leader_block all_votes \<longleftrightarrow>
     (\<forall>r v. all_votes r = Some v \<longrightarrow> (\<exists>b. get r = Some b \<and> is_vote get b leader_block = Some v))"

lemma cache_ok_empty [simp]: "cache_ok get l Map.empty"
  by (simp add: cache_ok_def)

lemma finite_voters [simp]: "finite (voters get l rs)"
  by (simp add: voters_def)

lemma voters_Nil [simp]: "voters get l [] = {}"
  by (simp add: voters_def)

lemma voters_Cons:
  "voters get l (r # rs) = (if supports get r l then insert (br_author r) (voters get l rs)
                            else voters get l rs)"
  by (auto simp: voters_def)

lemma is_vote_mono [dag_mono]:
  "is_vote get b l = Some v \<Longrightarrow> get \<subseteq>\<^sub>m get' \<Longrightarrow> is_vote get' b l = Some v"
  by (auto simp: is_vote_def Let_def split: Option.bind_splits dest: find_supported_block_mono)

lemma cached_vote_eq:
  assumes "cached_vote get l av r = Some (v, av')" and "cache_ok get l av"
  shows "cache_ok get l av'" and "v \<longleftrightarrow> supports get r l" and "\<exists>b. get r = Some b \<and> is_vote get b l = Some v"
proof -
  have "cache_ok get l av' \<and> (\<exists>b. get r = Some b \<and> is_vote get b l = Some v)"
    using assms
    by (auto simp: cached_vote_def cache_ok_def split: option.splits Option.bind_splits if_splits)
  then show "cache_ok get l av'" and vote: "\<exists>b. get r = Some b \<and> is_vote get b l = Some v" by auto
  from vote show "v \<longleftrightarrow> supports get r l" by (auto simp: supports_def)
qed

lemma StakeAggregator_add_range:
  assumes "StakeAggregator_add T agg v c = Some x" and "agg_inv c agg"
  shows "v < committee_size c"
  using assms
  by (auto simp: StakeAggregator_add_def committee_stake_eq agg_inv_def split: if_splits Option.bind_splits)

lemma StakeAggregator_add_result:
  assumes "committee_ok c" and "agg_inv c agg" and "StakeAggregator_add T agg v c = Some (reached, agg')"
  shows "reached \<longleftrightarrow> threshold_of T c \<le> weight_of (stake_at c) (insert v (sa_votes agg))"
    and "agg_inv c agg'" and "sa_votes agg' = insert v (sa_votes agg)"
  using StakeAggregator_add_eq [OF assms(1,2) StakeAggregator_add_range [OF assms(3,2)], of T] assms(3)
  by auto

lemma agg_inv_finite: "agg_inv c agg \<Longrightarrow> finite (sa_votes agg)"
  by (auto simp: agg_inv_def intro: finite_subset)

lemma votes_reach_result:
  assumes "committee_ok c" and "agg_inv c agg"
    and "weight_of (stake_at c) (sa_votes agg) < threshold_of T c"
    and "votes_reach T c agg vs = Some res"
  shows "res \<longleftrightarrow> threshold_of T c \<le> weight_of (stake_at c) (sa_votes agg \<union> set vs)"
  using assms(2-4)
proof (induction vs arbitrary: agg)
  case (Cons v vs)
  from Cons.prems(3) obtain reached agg' where
    add: "StakeAggregator_add T agg v c = Some (reached, agg')"
    and rest: "(if reached then Some True else votes_reach T c agg' vs) = Some res"
    by (auto split: Option.bind_splits)
  note a = StakeAggregator_add_result [OF assms(1) Cons.prems(1) add]
  have all: "sa_votes agg \<union> set (v # vs) = sa_votes agg' \<union> set vs" using a(3) by simp
  show ?case
  proof (cases reached)
    case True
    have "weight_of (stake_at c) (sa_votes agg') \<le> weight_of (stake_at c) (sa_votes agg' \<union> set vs)"
      using agg_inv_finite [OF a(2)] by (intro weight_of_mono) auto
    with True rest a(1,3) show ?thesis unfolding all by simp
  next
    case False
    with rest a(1,3) Cons.IH [OF a(2)] show ?thesis unfolding all by simp
  qed
qed simp

lemma votes_reach_new_result:
  assumes "committee_ok c" and "votes_reach T c StakeAggregator_new vs = Some res"
  shows "res \<longleftrightarrow> threshold_of T c \<le> weight_of (stake_at c) (set vs)"
  using votes_reach_result [OF assms(1) agg_inv_new _ assms(2)] threshold_positive [OF assms(1)]
  by (simp add: weight_of_def)

lemma certificate_loop_votes:
  assumes "certificate_loop get c l agg av rs = Some (res, av')" and "cache_ok get l av"
  shows "cache_ok get l av'
    \<and> votes_reach QuorumThreshold c agg (map br_author (filter (\<lambda>r. supports get r l) rs)) = Some res"
  using assms
proof (induction rs arbitrary: agg av)
  case (Cons r rs)
  from Cons.prems(1) obtain v av1 where cv: "cached_vote get l av r = Some (v, av1)"
    by (auto split: Option.bind_splits)
  note v = cached_vote_eq [OF cv Cons.prems(2)]
  show ?case
    using Cons.prems(1) cv v(1,2) Cons.IH [OF _ v(1)]
    by (auto split: Option.bind_splits if_splits)
qed simp

text \<open>The cached search for a certificate agrees with the definition over all votes.\<close>

lemma is_certificate_eq:
  assumes "committee_ok c" and "cache_ok get l av" and "is_certificate get c k l av = Some (res, av')"
  shows "cache_ok get l av'" and "res \<longleftrightarrow> certifies get c k l"
proof -
  have loop: "certificate_loop get c l StakeAggregator_new av (vb_ancestors k) = Some (res, av')"
    using assms(3) by (simp add: is_certificate_def)
  note cl = certificate_loop_votes [OF loop assms(2)]
  from cl show "cache_ok get l av'" by blast
  from cl have "votes_reach QuorumThreshold c StakeAggregator_new
      (map br_author (filter (\<lambda>r. supports get r l) (vb_ancestors k))) = Some res" by blast
  from votes_reach_new_result [OF assms(1) this] show "res \<longleftrightarrow> certifies get c k l"
    by (simp add: certifies_def voters_def)
qed

lemma certificate_loop_defined:
  assumes "committee_ok c" and "agg_inv c agg" and "cache_ok get l av"
    and "\<And>r. r \<in> set rs \<Longrightarrow> br_author r < committee_size c \<and> (\<exists>b. get r = Some b \<and> is_vote get b l \<noteq> None)"
  shows "certificate_loop get c l agg av rs \<noteq> None"
  using assms(2-4)
proof (induction rs arbitrary: agg av)
  case (Cons r rs)
  have "\<exists>v av1. cached_vote get l av r = Some (v, av1)"
    using Cons.prems(3) [of r] by (auto simp: cached_vote_def split: option.splits)
  then obtain v av1 where cv: "cached_vote get l av r = Some (v, av1)" by blast
  note v = cached_vote_eq [OF cv Cons.prems(2)]
  show ?case
  proof (cases v)
    case True
    obtain reached agg' where add:
      "StakeAggregator_add QuorumThreshold agg (br_author r) c = Some (reached, agg')" and "agg_inv c agg'"
      using StakeAggregator_add_eq [OF assms(1) Cons.prems(1), of "br_author r" QuorumThreshold] Cons.prems(3) [of r]
      by auto
    then show ?thesis using True cv Cons.IH [of agg' av1] v(1) Cons.prems(3) by auto
  next
    case False
    then show ?thesis using cv Cons.IH [OF Cons.prems(1) v(1)] Cons.prems(3) by auto
  qed
qed simp

section \<open>Blames, support and certified leaders\<close>

definition is_blame :: "authority_index \<Rightarrow> verified_block \<Rightarrow> bool" where
  "is_blame leader b \<longleftrightarrow> (\<forall>a \<in> set (vb_ancestors b). br_author a \<noteq> leader)"

lemma blame_loop_votes:
  "blame_loop c leader agg bs =
     votes_reach QuorumThreshold c agg (map vb_author (filter (is_blame leader) bs))"
proof (induction bs arbitrary: agg)
  case (Cons b bs)
  have "list_all (\<lambda>a. br_author a \<noteq> leader) (vb_ancestors b) \<longleftrightarrow> is_blame leader b"
    by (simp add: is_blame_def list_all_iff)
  then show ?case by (simp add: Cons.IH cong: if_cong)
qed simp

lemma support_loop_votes:
  assumes "committee_ok c" and "cache_ok get l av" and "support_loop get c l agg av bs = Some res"
  shows "votes_reach QuorumThreshold c agg (map vb_author (filter (\<lambda>b. certifies get c b l) bs)) = Some res"
  using assms(2,3)
proof (induction bs arbitrary: agg av)
  case (Cons b bs)
  from Cons.prems(2) obtain v av1 where v: "is_certificate get c b l av = Some (v, av1)"
    by (auto split: Option.bind_splits)
  note ic = is_certificate_eq [OF assms(1) Cons.prems(1) v]
  show ?case
    using Cons.prems(2) v ic(2) Cons.IH [OF ic(1)] by (auto split: Option.bind_splits if_splits)
qed simp

lemma any_certificate_eq:
  assumes "committee_ok c" and "cache_ok get l av" and "any_certificate get c l av ks = Some res"
  shows "res \<longleftrightarrow> (\<exists>k \<in> set ks. certifies get c k l)"
  using assms(2,3)
proof (induction ks arbitrary: av)
  case (Cons k ks)
  from Cons.prems(2) obtain v av1 where v: "is_certificate get c k l av = Some (v, av1)"
    by (auto split: Option.bind_splits)
  note ic = is_certificate_eq [OF assms(1) Cons.prems(1) v]
  show ?case
    using Cons.prems(2) v ic(2) Cons.IH [OF ic(1)] by (auto split: if_splits)
qed simp

lemma filter_opt_eq:
  "filter_opt P xs = Some ys \<Longrightarrow> ys = filter (\<lambda>x. P x = Some True) xs \<and> (\<forall>x \<in> set xs. P x \<noteq> None)"
  by (induction xs arbitrary: ys) (auto split: Option.bind_splits if_splits)

lemma filter_opt_defined: "(\<And>x. x \<in> set xs \<Longrightarrow> P x \<noteq> None) \<Longrightarrow> filter_opt P xs \<noteq> None"
proof (induction xs)
  case (Cons x xs)
  then have "P x \<noteq> None" "filter_opt P xs \<noteq> None" by simp_all
  then show ?case by auto
qed simp

definition blamers :: "(block_ref \<Rightarrow> verified_block option) \<Rightarrow> slot \<Rightarrow> authority_index set" where
  "blamers get sl = {br_author r | r b. get r = Some b \<and> br_round r = sl_round sl + 1
                                      \<and> is_blame (sl_authority sl) b}"

definition certifiers ::
  "(block_ref \<Rightarrow> verified_block option) \<Rightarrow> committee \<Rightarrow> round \<Rightarrow> verified_block \<Rightarrow> authority_index set" where
  "certifiers get c dr l = {br_author r | r b. get r = Some b \<and> br_round r = dr \<and> certifies get c b l}"

lemma authors_at_round:
  assumes "dag_inv cx s" and "get_uncommitted_blocks_at_round s round = Some bs" and "round + 1 < 2 ^ 32"
  shows "set (map vb_author (filter P bs))
    = {br_author r | r b. get_uncommitted_block s r = Some b \<and> br_round r = round \<and> P b}"
proof -
  have "set (map vb_author (filter P bs)) = vb_author ` {b \<in> set bs. P b}" by simp
  also have "\<dots> = vb_author ` {b. (\<exists>r. get_uncommitted_block s r = Some b \<and> br_round r = round) \<and> P b}"
    by (simp only: blocks_at_round_set [OF assms(2,3)])
  also have "\<dots> = {br_author r | r b. get_uncommitted_block s r = Some b \<and> br_round r = round \<and> P b}"
    using dag_inv_reference [OF assms(1)] by (auto simp: image_iff) (metis vb_reference_sel(2))+
  finally show ?thesis .
qed

lemma enough_leader_blame_eq:
  assumes ok: "committee_ok c" and inv: "dag_inv cx s" and bound: "sl_round sl + 2 < 2 ^ 32"
    and res: "enough_leader_blame c s (sl_round sl + 1) (sl_authority sl) = Some res"
  shows "res \<longleftrightarrow> cm_quorum_threshold c \<le> weight_of (stake_at c) (blamers (get_uncommitted_block s) sl)"
proof -
  from res obtain bs where bs: "get_uncommitted_blocks_at_round s (sl_round sl + 1) = Some bs"
    and loop: "blame_loop c (sl_authority sl) StakeAggregator_new bs = Some res"
    by (auto simp: enough_leader_blame_def split: Option.bind_splits)
  have "set (map vb_author (filter (is_blame (sl_authority sl)) bs)) = blamers (get_uncommitted_block s) sl"
    using authors_at_round [OF inv bs] bound by (simp add: blamers_def)
  with votes_reach_new_result [OF ok loop [unfolded blame_loop_votes]] show ?thesis by simp
qed

lemma stakes_of_members:
  "stakes_of c bs = Some ss \<Longrightarrow> ss = map (stake_at c \<circ> vb_author) bs \<and> (\<forall>b \<in> set bs. vb_author b < committee_size c)"
  by (induction bs arbitrary: ss) (auto simp: committee_stake_eq split: Option.bind_splits if_splits)

lemma enough_leader_support_imp:
  assumes ok: "committee_ok c" and inv: "dag_inv cx s" and bound: "dr + 1 < 2 ^ 32"
    and res: "enough_leader_support c s dr l = Some True"
  shows "cm_quorum_threshold c \<le> weight_of (stake_at c) (certifiers (get_uncommitted_block s) c dr l)"
proof -
  let ?get = "get_uncommitted_block s"
  from res obtain bs where bs: "get_uncommitted_blocks_at_round s dr = Some bs"
    and loop: "support_loop ?get c l StakeAggregator_new Map.empty bs = Some True"
    by (auto simp: enough_leader_support_def split: Option.bind_splits if_splits)
  have "set (map vb_author (filter (\<lambda>b. certifies ?get c b l) bs)) = certifiers ?get c dr l"
    using authors_at_round [OF inv bs bound] by (simp add: certifiers_def)
  with votes_reach_new_result [OF ok support_loop_votes [OF ok cache_ok_empty loop]] show ?thesis by simp
qed

end
