(* ===== verification/Universal_Committer.thy ===== *)
theory Universal_Committer
  imports Commit_Rule
begin

text \<open>
  The universal committer (\<open>consensus/core/src/universal_committer.rs\<close>): it runs the base committers
  over the rounds above the last decided leader, from the highest round down, and returns the
  longest prefix of decided leaders.  Metrics are not modelled.
\<close>

section \<open>The committer\<close>

record universal_committer =
  uc_committers :: "base_committer list"

text \<open>One leader: the direct rule first, then the indirect rule over the later leaders.\<close>

definition decide_leader ::
  "base_committer \<Rightarrow> dag_state \<Rightarrow> slot \<Rightarrow> (leader_status \<times> decision) list
     \<Rightarrow> (leader_status \<times> decision) option" where
  "decide_leader committer s leader leaders =
     do { status \<leftarrow> try_direct_decide committer s leader;
          (if is_decided status then Some (status, Direct)
           else do { status' \<leftarrow> try_indirect_decide committer s leader (map fst leaders);
                     Some (status', Indirect) }) }"

text \<open>The inner loop over the committers of a round, in reverse order; the flag says that the last
  decided leader was reached (\<open>break 'outer\<close>).\<close>

fun decide_round ::
  "dag_state \<Rightarrow> slot \<Rightarrow> round \<Rightarrow> base_committer list \<Rightarrow> (leader_status \<times> decision) list
     \<Rightarrow> (bool \<times> (leader_status \<times> decision) list) option" where
  "decide_round s last_decided round [] leaders = Some (False, leaders)"
| "decide_round s last_decided round (committer # committers) leaders =
     do { elected \<leftarrow> elect_leader committer round;
          (case elected of
             None \<Rightarrow> decide_round s last_decided round committers leaders
           | Some leader \<Rightarrow>
               if leader = last_decided then Some (True, leaders)
               else do { status \<leftarrow> decide_leader committer s leader leaders;
                         decide_round s last_decided round committers (status # leaders) }) }"

fun decide_rounds ::
  "dag_state \<Rightarrow> slot \<Rightarrow> base_committer list \<Rightarrow> round list \<Rightarrow> (leader_status \<times> decision) list
     \<Rightarrow> (leader_status \<times> decision) list option" where
  "decide_rounds s last_decided rev_committers [] leaders = Some leaders"
| "decide_rounds s last_decided rev_committers (round # rounds) leaders =
     do { (stop, leaders') \<leftarrow> decide_round s last_decided round rev_committers leaders;
          (if stop then Some leaders'
           else decide_rounds s last_decided rev_committers rounds leaders') }"

definition try_commit :: "universal_committer \<Rightarrow> dag_state \<Rightarrow> slot \<Rightarrow> leader_status list option" where
  "try_commit uc s last_decided =
     (let highest = ds_highest_accepted_round s - 2
      in do { leaders \<leftarrow> decide_rounds s last_decided (rev (uc_committers uc))
                           (rev [sl_round last_decided..<Suc highest]) [];
              Some (map fst (takeWhile (\<lambda>(x, _). is_decided x)
                              (filter (\<lambda>(x, _). ls_round x > 0) leaders))) })"

text \<open>The leaders of a round: committers without a leader are skipped.\<close>

fun get_leaders_loop :: "base_committer list \<Rightarrow> round \<Rightarrow> authority_index list option" where
  "get_leaders_loop [] round = Some []"
| "get_leaders_loop (committer # committers) round =
     do { elected \<leftarrow> elect_leader committer round;
          rest \<leftarrow> get_leaders_loop committers round;
          Some (case elected of None \<Rightarrow> rest | Some l \<Rightarrow> sl_authority l # rest) }"

definition get_leaders :: "universal_committer \<Rightarrow> round \<Rightarrow> authority_index list option" where
  "get_leaders uc round = get_leaders_loop (uc_committers uc) round"

section \<open>The builder\<close>

record universal_committer_builder =
  ub_context :: consensus_context
  ub_leader_schedule :: leader_schedule
  ub_wave_length :: round
  ub_number_of_leaders :: nat
  ub_pipeline :: bool

definition UniversalCommitterBuilder_new ::
  "consensus_context \<Rightarrow> leader_schedule \<Rightarrow> universal_committer_builder" where
  "UniversalCommitterBuilder_new cx schedule =
     \<lparr>ub_context = cx, ub_leader_schedule = schedule, ub_wave_length = DEFAULT_WAVE_LENGTH,
      ub_number_of_leaders = 1, ub_pipeline = False\<rparr>"

fun build_committers ::
  "universal_committer_builder \<Rightarrow> (u32 \<times> nat) list \<Rightarrow> base_committer list option" where
  "build_committers ub [] = Some []"
| "build_committers ub ((round_offset, leader_offset) # offsets) =
     do { committer \<leftarrow> BaseCommitter_new (ub_context ub) (ub_leader_schedule ub)
            \<lparr>bo_wave_length = ub_wave_length ub,
             bo_leader_offset = leader_offset mod 2 ^ 32,
             bo_round_offset = round_offset\<rparr>;
          committers \<leftarrow> build_committers ub offsets;
          Some (committer # committers) }"

definition UniversalCommitterBuilder_build ::
  "universal_committer_builder \<Rightarrow> universal_committer option" where
  "UniversalCommitterBuilder_build ub =
     (let pipeline_stages = (if ub_pipeline ub then ub_wave_length ub else 1)
      in do { committers \<leftarrow> build_committers ub
                (concat (map (\<lambda>round_offset. map (Pair round_offset) [0..<ub_number_of_leaders ub])
                             [0..<pipeline_stages]));
              Some \<lparr>uc_committers = committers\<rparr> })"

section \<open>The loops as a pass over the elected leaders\<close>

text \<open>The leaders the loops reach, from the highest down.\<close>

fun scan_leaders ::
  "slot \<Rightarrow> (round \<times> base_committer) list \<Rightarrow> (base_committer \<times> slot) list option" where
  "scan_leaders last_decided [] = Some []"
| "scan_leaders last_decided ((round, committer) # rest) =
     do { elected \<leftarrow> elect_leader committer round;
          (case elected of
             None \<Rightarrow> scan_leaders last_decided rest
           | Some leader \<Rightarrow>
               if leader = last_decided then Some []
               else do { later \<leftarrow> scan_leaders last_decided rest; Some ((committer, leader) # later) }) }"

fun decide_in_order ::
  "dag_state \<Rightarrow> (base_committer \<times> slot) list \<Rightarrow> (leader_status \<times> decision) list
     \<Rightarrow> (leader_status \<times> decision) list option" where
  "decide_in_order s [] leaders = Some leaders"
| "decide_in_order s ((committer, leader) # rest) leaders =
     do { status \<leftarrow> decide_leader committer s leader leaders;
          decide_in_order s rest (status # leaders) }"

definition visiting_order :: "round list \<Rightarrow> base_committer list \<Rightarrow> (round \<times> base_committer) list" where
  "visiting_order rounds committers = concat (map (\<lambda>r. map (Pair r) committers) rounds)"

lemma scan_leaders_append:
  "scan_leaders ld (xs @ ys) =
     do { ds \<leftarrow> scan_leaders ld xs;
          (if \<exists>(r, bc) \<in> set xs. elect_leader bc r = Some (Some ld) then Some ds
           else do { es \<leftarrow> scan_leaders ld ys; Some (ds @ es) }) }"
proof (induction xs)
  case (Cons x xs)
  obtain r bc where x: "x = (r, bc)" by (cases x)
  show ?case
  proof (cases "elect_leader bc r")
    case (Some l)
    then show ?thesis using Cons.IH x by (cases l) (auto split: Option.bind_splits)
  qed (simp add: x)
qed (cases "scan_leaders ld ys", simp_all)

lemma decide_round_scan:
  assumes "decide_round s ld r bcs leaders = Some (stop, leaders')"
  shows "\<exists>ds. scan_leaders ld (map (Pair r) bcs) = Some ds \<and> decide_in_order s ds leaders = Some leaders'
     \<and> (stop \<longleftrightarrow> (\<exists>bc \<in> set bcs. elect_leader bc r = Some (Some ld)))"
  using assms
proof (induction bcs arbitrary: leaders)
  case (Cons bc bcs)
  from Cons.prems obtain l where l: "elect_leader bc r = Some l" by (auto split: Option.bind_splits)
  show ?case
  proof (cases l)
    case None
    with Cons l show ?thesis by auto
  next
    case (Some sl)
    show ?thesis
    proof (cases "sl = ld")
      case True
      with Cons.prems l Some show ?thesis by auto
    next
      case False
      with Cons.prems l Some obtain st where st: "decide_leader bc s sl leaders = Some st"
        and rest: "decide_round s ld r bcs (st # leaders) = Some (stop, leaders')"
        by (auto split: Option.bind_splits)
      from Cons.IH [OF rest] l Some False st show ?thesis by auto
    qed
  qed
qed simp

lemma decide_in_order_append:
  "decide_in_order s (ds @ es) leaders =
     do { ls \<leftarrow> decide_in_order s ds leaders; decide_in_order s es ls }"
proof (induction ds arbitrary: leaders)
  case (Cons d ds)
  obtain bc sl where d: "d = (bc, sl)" by (cases d)
  show ?case by (cases "decide_leader bc s sl leaders") (simp_all add: d Cons.IH)
qed simp

lemma decide_rounds_scan:
  assumes "decide_rounds s ld bcs rounds leaders = Some leaders'"
  shows "\<exists>ds. scan_leaders ld (visiting_order rounds bcs) = Some ds
     \<and> decide_in_order s ds leaders = Some leaders'"
  using assms
proof (induction rounds arbitrary: leaders)
  case (Cons r rounds)
  from Cons.prems obtain stop ls where dr: "decide_round s ld r bcs leaders = Some (stop, ls)"
    and rest: "(if stop then Some ls else decide_rounds s ld bcs rounds ls) = Some leaders'"
    by (auto split: Option.bind_splits)
  from decide_round_scan [OF dr] obtain ds where ds: "scan_leaders ld (map (Pair r) bcs) = Some ds"
    and ord: "decide_in_order s ds leaders = Some ls"
    and stop: "stop \<longleftrightarrow> (\<exists>bc \<in> set bcs. elect_leader bc r = Some (Some ld))" by auto
  have stop': "stop \<longleftrightarrow> (\<exists>(r', bc) \<in> set (map (Pair r) bcs). elect_leader bc r' = Some (Some ld))"
    using stop by auto
  show ?case
  proof (cases stop)
    case True
    with rest ds ord stop' show ?thesis by (simp add: visiting_order_def scan_leaders_append)
  next
    case False
    with rest Cons.IH [of ls] obtain es where es: "scan_leaders ld (visiting_order rounds bcs) = Some es"
      and ord': "decide_in_order s es ls = Some leaders'" by auto
    from False ds es stop' have "scan_leaders ld (visiting_order (r # rounds) bcs) = Some (ds @ es)"
      by (simp add: visiting_order_def scan_leaders_append)
    with ord ord' show ?thesis by (auto simp: decide_in_order_append)
  qed
qed (simp add: visiting_order_def)

lemma elect_leader_round:
  "elect_leader bc r = Some (Some sl) \<Longrightarrow> sl_round sl = r \<and> leader_round bc (wave_number bc r) = r"
  by (auto simp: elect_leader_def Let_def split: if_splits Option.bind_splits)

lemma scan_leaders_sound:
  "scan_leaders ld ps = Some ds \<Longrightarrow> (bc, sl) \<in> set ds \<Longrightarrow>
     (sl_round sl, bc) \<in> set ps \<and> elect_leader bc (sl_round sl) = Some (Some sl) \<and> sl \<noteq> ld"
proof (induction ps arbitrary: ds)
  case (Cons p ps)
  obtain r bc' where p: "p = (r, bc')" by (cases p)
  from Cons.prems(1) obtain l where l: "elect_leader bc' r = Some l"
    by (auto simp: p split: Option.bind_splits)
  show ?case
  proof (cases l)
    case None
    with Cons l p show ?thesis by auto
  next
    case (Some sl')
    with Cons.prems l p consider "ds = []"
      | later where "scan_leaders ld ps = Some later" "ds = (bc', sl') # later" "sl' \<noteq> ld"
      by (auto split: if_splits Option.bind_splits)
    then show ?thesis
    proof cases
      case 2
      with Cons.prems(2) Cons.IH [of later] elect_leader_round [of bc' r sl'] l Some p
      show ?thesis by auto
    qed (use Cons.prems(2) in simp)
  qed
qed simp

end
