(* ===== verification/Commit_Safety.thy ===== *)
theory Commit_Safety
  imports Universal_Committer
begin

text \<open>
  Agreement of the commit rule.  Two authorities run the committer on their own views of one DAG.
  The DAG is the map \<open>U\<close> of all blocks that exist; a view is a causally complete part of it.  The
  Byzantine assumptions are separate predicates: correct authorities (the set \<open>H\<close>) do not
  equivocate, the others hold less stake than the validity threshold, and blocks refer to a quorum
  of blocks of the previous round.  Under them no slot is decided in two ways, and the sequences
  returned by \<open>try_commit\<close> in two views are prefixes of each other.
\<close>

section \<open>The DAG of all blocks and the views of it\<close>

type_synonym dag = "block_ref \<Rightarrow> verified_block option"

definition references_match :: "committee \<Rightarrow> dag \<Rightarrow> bool" where
  "references_match c U \<longleftrightarrow>
     (\<forall>r b. U r = Some b \<longrightarrow> vb_reference b = r \<and> br_author r < committee_size c)"

definition no_equivocation :: "authority_index set \<Rightarrow> dag \<Rightarrow> bool" where
  "no_equivocation H U \<longleftrightarrow>
     (\<forall>r r'. U r \<noteq> None \<longrightarrow> U r' \<noteq> None \<longrightarrow> br_author r \<in> H \<longrightarrow> Slot_from r = Slot_from r' \<longrightarrow> r = r')"

definition faults_below_validity :: "committee \<Rightarrow> authority_index set \<Rightarrow> bool" where
  "faults_below_validity c H \<longleftrightarrow>
     weight_of (stake_at c) (members c - H) < cm_validity_threshold c"

definition parents_of :: "block_ref \<Rightarrow> verified_block \<Rightarrow> authority_index set" where
  "parents_of r b = br_author ` {a \<in> set (vb_ancestors b). Suc (br_round a) = br_round r}"

definition quorum_parents :: "committee \<Rightarrow> dag \<Rightarrow> bool" where
  "quorum_parents c U \<longleftrightarrow>
     (\<forall>r b. U r = Some b \<longrightarrow> 0 < br_round r \<longrightarrow>
        cm_quorum_threshold c \<le> weight_of (stake_at c) (parents_of r b))"

definition bft_dag :: "committee \<Rightarrow> authority_index set \<Rightarrow> dag \<Rightarrow> bool" where
  "bft_dag c H U \<longleftrightarrow>
     committee_ok c \<and> references_match c U \<and> ancestors_below U
     \<and> no_equivocation H U \<and> faults_below_validity c H \<and> quorum_parents c U"

definition view_of :: "committee \<Rightarrow> dag \<Rightarrow> round \<Rightarrow> dag_state \<Rightarrow> bool" where
  "view_of c U low s \<longleftrightarrow>
     (\<exists>cx. cx_committee cx = c \<and> dag_inv cx s)
     \<and> get_uncommitted_block s \<subseteq>\<^sub>m U
     \<and> causally_complete low (get_uncommitted_block s)
     \<and> ds_highest_accepted_round s + 1 < 2 ^ 32"

lemma bft_dagD:
  assumes "bft_dag c H U"
  shows "committee_ok c" and "references_match c U" and "ancestors_below U" and "no_equivocation H U"
    and "faults_below_validity c H" and "quorum_parents c U"
  using assms by (simp_all add: bft_dag_def)

lemma bft_reference:
  assumes "bft_dag c H U" and "U r = Some b"
  shows "vb_reference b = r" and "br_author r < committee_size c"
  using assms by (auto simp: bft_dag_def references_match_def)

text \<open>Two quorums of authors of blocks in one round share a block of a correct authority.\<close>

lemma quorums_share_block:
  assumes bft: "bft_dag c H U"
    and "cm_quorum_threshold c \<le> weight_of (stake_at c) (br_author ` A)"
    and "cm_quorum_threshold c \<le> weight_of (stake_at c) (br_author ` B)"
    and A: "\<And>r. r \<in> A \<Longrightarrow> U r \<noteq> None \<and> br_round r = n"
    and B: "\<And>r. r \<in> B \<Longrightarrow> U r \<noteq> None \<and> br_round r = n"
  shows "\<exists>r. r \<in> A \<and> r \<in> B"
proof -
  have sub: "br_author ` A \<subseteq> members c" "br_author ` B \<subseteq> members c"
    using A B bft_reference(2) [OF bft] by force+
  obtain h where "h \<in> br_author ` A" "h \<in> br_author ` B" "h \<in> H"
    using cq.quorums_share_correct [OF bft_dagD(1) [OF bft] sub assms(2,3)]
      bft_dagD(5) [OF bft, unfolded faults_below_validity_def] by blast
  then obtain r r' where r: "r \<in> A" "br_author r = h" and r': "r' \<in> B" "br_author r' = h" by auto
  have "Slot_from r = Slot_from r'" using A [OF r(1)] B [OF r'(1)] r r' by (simp add: Slot_from_inject)
  with A [OF r(1)] B [OF r'(1)] r \<open>h \<in> H\<close> bft_dagD(4) [OF bft] have "r = r'"
    unfolding no_equivocation_def by blast
  with r r' show ?thesis by blast
qed

section \<open>Votes in the round after the leader\<close>

text \<open>A vote referred to by a block two rounds above the leader is a block of the round in between,
  and the leader block is the first of its ancestors in the leader's slot.\<close>

lemma vote_round:
  assumes bft: "bft_dag c H U" and sup: "supports U a l" and a: "br_round a < vb_round l + 2"
  shows "br_round a = Suc (vb_round l)"
    and "\<exists>b. U a = Some b \<and>
           List.find (\<lambda>x. Slot_from x = Slot_from (vb_reference l)) (vb_ancestors b) = Some (vb_reference l)"
proof -
  let ?sl = "Slot_from (vb_reference l)"
  have slr: "sl_round ?sl = vb_round l" by (simp add: Slot_from_def)
  from sup obtain b where b: "U a = Some b" and fs: "find_supported_block U ?sl b = Some (Some (vb_reference l))"
    by (auto simp: supports_def is_vote_def Let_def split: Option.bind_splits)
  have ra: "vb_round b = br_round a" using bft_reference(1) [OF bft b] by (metis vb_reference_sel(1))
  have "linked_from U (vb_round l) (set (vb_ancestors b)) (vb_reference l)"
    using find_supported_block_linked [OF fs] slr by simp
  then have "br_round (vb_reference l) < br_round a"
    using linked_from_below [OF _ bft_dagD(3) [OF bft]] ancestors_belowD [OF bft_dagD(3) [OF bft] b] by blast
  with a show r: "br_round a = Suc (vb_round l)" by simp
  have "find_supported_block U ?sl b = Some (List.find (\<lambda>x. Slot_from x = ?sl) (vb_ancestors b))"
    using ancestors_belowD [OF bft_dagD(3) [OF bft] b] r ra slr
    by (intro find_supported_block_next_round) (auto simp: less_Suc_eq_le)
  with fs b show "\<exists>b. U a = Some b \<and>
      List.find (\<lambda>x. Slot_from x = ?sl) (vb_ancestors b) = Some (vb_reference l)" by simp
qed

lemma vote_refs:
  assumes bft: "bft_dag c H U" and k: "U q = Some k" "br_round q = vb_round l + 2"
    and a: "a \<in> {r \<in> set (vb_ancestors k). supports U r l}"
  shows "U a \<noteq> None \<and> br_round a = Suc (vb_round l)"
proof -
  have "br_round a < vb_round l + 2" using ancestors_belowD [OF bft_dagD(3) [OF bft] k(1)] a k(2) by auto
  with vote_round(1) [OF bft] a show ?thesis by (auto simp: supports_def)
qed

lemma certificates_agree:
  assumes bft: "bft_dag c H U" and slot: "Slot_from (vb_reference l) = Slot_from (vb_reference l')"
    and k: "U q = Some k" "br_round q = vb_round l + 2" "certifies U c k l"
    and k': "U q' = Some k'" "br_round q' = vb_round l' + 2" "certifies U c k' l'"
  shows "vb_reference l = vb_reference l'"
proof -
  let ?A = "{r \<in> set (vb_ancestors k). supports U r l}"
  let ?B = "{r \<in> set (vb_ancestors k'). supports U r l'}"
  have rl: "vb_round l' = vb_round l" using slot by (simp add: Slot_from_inject)
  have "\<exists>a. a \<in> ?A \<and> a \<in> ?B"
    using bft k(3) k'(3) unfolding certifies_def voters_def
  proof (rule quorums_share_block)
    show "U a \<noteq> None \<and> br_round a = Suc (vb_round l)" if "a \<in> ?A" for a
      using bft k(1,2) that by (rule vote_refs)
    show "U a \<noteq> None \<and> br_round a = Suc (vb_round l)" if "a \<in> ?B" for a
      using vote_refs [OF bft k'(1,2) that] rl by simp
  qed
  then obtain a where a: "a \<in> ?A" "a \<in> ?B" by blast
  have "br_round a < vb_round l + 2" using vote_refs [OF bft k(1,2) a(1)] by simp
  with vote_round(2) [OF bft, of a l] vote_round(2) [OF bft, of a l'] a rl slot show ?thesis by auto
qed

lemma blame_excludes_certificate:
  assumes bft: "bft_dag c H U"
    and blame: "cm_quorum_threshold c \<le> weight_of (stake_at c) (blamers U sl)"
    and slot: "Slot_from (vb_reference l) = sl"
    and k: "U q = Some k" "br_round q = vb_round l + 2"
  shows "\<not> certifies U c k l"
proof
  assume cert: "certifies U c k l"
  let ?A = "{r. \<exists>b. U r = Some b \<and> br_round r = sl_round sl + 1 \<and> is_blame (sl_authority sl) b}"
  let ?B = "{r \<in> set (vb_ancestors k). supports U r l}"
  have rl: "sl_round sl = vb_round l" "sl_authority sl = vb_author l"
    using slot by (auto simp: Slot_from_def)
  have "blamers U sl = br_author ` ?A" by (auto simp: blamers_def)
  then have "cm_quorum_threshold c \<le> weight_of (stake_at c) (br_author ` ?A)" using blame by simp
  from quorums_share_block [OF bft this cert [unfolded certifies_def voters_def], of "Suc (vb_round l)"]
    vote_refs [OF bft k] rl obtain a where a: "a \<in> ?A" "a \<in> ?B" by auto
  then have "br_round a < vb_round l + 2" using rl by auto
  from vote_round(2) [OF bft _ this] a(2) obtain b where b: "U a = Some b"
    and f: "List.find (\<lambda>x. Slot_from x = Slot_from (vb_reference l)) (vb_ancestors b) = Some (vb_reference l)"
    by auto
  from f have "vb_reference l \<in> set (vb_ancestors b)" by (auto simp: find_Some_iff)
  with a(1) b rl(2) show False by (auto simp: is_blame_def)
qed

section \<open>Views\<close>

lemma view_ofD:
  assumes "view_of c U low s"
  shows "get_uncommitted_block s \<subseteq>\<^sub>m U" and "causally_complete low (get_uncommitted_block s)"
    and "ds_highest_accepted_round s + 1 < 2 ^ 32"
  using assms by (auto simp: view_of_def)

lemma view_get: "view_of c U low s \<Longrightarrow> get_uncommitted_block s r = Some b \<Longrightarrow> U r = Some b"
  by (metis domI map_le_def view_ofD(1))

lemma certifies_view:
  assumes bft: "bft_dag c H U" and v: "view_of c U low s" and low: "low \<le> Suc (vb_round l)"
    and k: "get_uncommitted_block s q = Some k" "br_round q = vb_round l + 2"
  shows "certifies (get_uncommitted_block s) c k l \<longleftrightarrow> certifies U c k l"
proof -
  let ?get = "get_uncommitted_block s"
  have "supports ?get a l \<longleftrightarrow> supports U a l" if a: "a \<in> set (vb_ancestors k)" for a
  proof
    assume "supports ?get a l"
    then show "supports U a l"
      using view_get [OF v] is_vote_mono [OF _ view_ofD(1) [OF v]] unfolding supports_def by blast
  next
    assume sup: "supports U a l"
    have ra: "br_round a < vb_round l + 2"
      using ancestors_belowD [OF bft_dagD(3) [OF bft] view_get [OF v k(1)] a] k(2) by simp
    note vr = vote_round [OF bft sup ra]
    obtain b where b: "?get a = Some b"
      using causally_completeD [OF view_ofD(2) [OF v] k(1) a] vr(1) low by auto
    then have ub: "U a = Some b" by (rule view_get [OF v])
    have "vb_round b = br_round a" using bft_reference(1) [OF bft ub] by (metis vb_reference_sel(1))
    then have "find_supported_block ?get (Slot_from (vb_reference l)) b
        = Some (List.find (\<lambda>x. Slot_from x = Slot_from (vb_reference l)) (vb_ancestors b))"
      using ancestors_belowD [OF bft_dagD(3) [OF bft] ub] vr(1)
      by (intro find_supported_block_next_round) (auto simp: Slot_from_def less_Suc_eq_le)
    with b ub vr(2) show "supports ?get a l" by (auto simp: supports_def is_vote_def Let_def)
  qed
  then have "voters ?get l (vb_ancestors k) = voters U l (vb_ancestors k)"
    by (auto simp: voters_def)
  then show ?thesis by (simp add: certifies_def)
qed

text \<open>From a block of a view, ancestor links lead to a block of every round below it that the view
  keeps, and further to a quorum of blocks of the round below that.\<close>

lemma descend_to_round:
  assumes bft: "bft_dag c H U" and v: "view_of c U low s" and low: "low \<le> n"
    and q: "get_uncommitted_block s q = Some b" "n < br_round q"
  shows "\<exists>p d. get_uncommitted_block s p = Some d \<and> br_round p = Suc n
     \<and> (p = q \<or> linked_from (get_uncommitted_block s) n (set (vb_ancestors b)) p)"
  using q
proof (induction "br_round q" arbitrary: q b)
  case (Suc m)
  let ?get = "get_uncommitted_block s"
  show ?case
  proof (cases "m = n")
    case True
    with Suc show ?thesis by auto
  next
    case False
    with Suc have m: "n < m" by simp
    have "cm_quorum_threshold c \<le> weight_of (stake_at c) (parents_of q b)"
      using bft_dagD(6) [OF bft] view_get [OF v Suc.prems(1)] Suc.prems(2) unfolding quorum_parents_def by auto
    then have "parents_of q b \<noteq> {}"
      using cq.quorum_positive [OF bft_dagD(1) [OF bft]] by (auto simp: weight_of_def)
    then obtain a where a: "a \<in> set (vb_ancestors b)" "br_round a = m"
      using Suc.hyps(2) by (auto simp: parents_of_def)
    obtain d where d: "?get a = Some d"
      using causally_completeD [OF view_ofD(2) [OF v] Suc.prems(1) a(1)] a(2) m low by auto
    have "linked_from ?get n (set (vb_ancestors b)) a" using a(1) by (rule linked_from.start)
    moreover have "n < br_round a" using m a(2) by simp
    ultimately have "linked_from ?get n (set (vb_ancestors b)) t" if "t \<in> set (vb_ancestors d)" for t
      using d that by (rule linked_from.step)
    moreover obtain p e where "?get p = Some e" "br_round p = Suc n"
      and "p = a \<or> linked_from ?get n (set (vb_ancestors d)) p"
      using Suc.hyps(1) [of a d] d a(2) m by auto
    ultimately show ?thesis using a(1) by (blast intro: linked_from_trans linked_from.start)
  qed
qed simp

lemma linked_quorum:
  assumes bft: "bft_dag c H U" and v: "view_of c U low s" and low: "low \<le> n"
    and q: "get_uncommitted_block s q = Some b" "n < br_round q"
  defines "L \<equiv> {r. linked_from (get_uncommitted_block s) n (set (vb_ancestors b)) r
                   \<and> br_round r = n \<and> get_uncommitted_block s r \<noteq> None}"
  shows "cm_quorum_threshold c \<le> weight_of (stake_at c) (br_author ` L)"
proof -
  let ?get = "get_uncommitted_block s"
  obtain p d where p: "?get p = Some d" "br_round p = Suc n"
    and link: "p = q \<or> linked_from ?get n (set (vb_ancestors b)) p"
    using descend_to_round [OF bft v low q] by blast
  have "r \<in> L" if r: "r \<in> set (vb_ancestors d)" "br_round r = n" for r
  proof -
    have "linked_from ?get n (set (vb_ancestors b)) r"
    proof (cases "p = q")
      case True
      with p(1) q(1) r show ?thesis by (auto intro: linked_from.start)
    next
      case False
      with link have "linked_from ?get n (set (vb_ancestors b)) p" by simp
      moreover have "n < br_round p" using p(2) by simp
      ultimately show ?thesis using p(1) r(1) by (rule linked_from.step)
    qed
    moreover have "\<exists>e. ?get r = Some e"
      using causally_completeD [OF view_ofD(2) [OF v] p(1) r(1)] r(2) low by auto
    ultimately show ?thesis using r(2) by (auto simp: L_def)
  qed
  then have "parents_of p d \<subseteq> br_author ` L" using p(2) by (auto simp: parents_of_def)
  moreover have "finite (br_author ` L)"
  proof -
    have "L \<subseteq> dom ?get" by (auto simp: L_def)
    then show ?thesis
      by (intro finite_imageI) (rule finite_subset, auto simp: get_uncommitted_block_def [abs_def])
  qed
  ultimately have "weight_of (stake_at c) (parents_of p d) \<le> weight_of (stake_at c) (br_author ` L)"
    by (intro weight_of_mono)
  moreover have "cm_quorum_threshold c \<le> weight_of (stake_at c) (parents_of p d)"
    using bft_dagD(6) [OF bft] view_get [OF v p(1)] p(2) unfolding quorum_parents_def by auto
  ultimately show ?thesis by simp
qed

section \<open>Outcomes of the rules\<close>

definition three_round_waves :: "committee \<Rightarrow> base_committer \<Rightarrow> bool" where
  "three_round_waves c bc \<longleftrightarrow>
     cx_committee (bc_context bc) = c \<and> bo_wave_length (bc_options bc) = MINIMUM_WAVE_LENGTH"

lemma decision_round_eq:
  assumes "three_round_waves c bc" and "leader_round bc (wave_number bc r) = r" and "r + 3 < 2 ^ 32"
  shows "decision_round bc (wave_number bc r) = r + 2"
proof -
  let ?w = "wave_number bc r" and ?o = "bo_round_offset (bc_options bc)"
  have w: "bo_wave_length (bc_options bc) = 3"
    using assms(1) by (simp add: three_round_waves_def MINIMUM_WAVE_LENGTH_def)
  have le: "?w * 3 \<le> r - ?o" by (simp add: wave_number_def w)
  have mul: "mul_u32 ?w 3 = ?w * 3" using le assms(3) by (intro mul_u32_small) simp
  have r: "r = add_u32 (?w * 3) ?o" using assms(2) w mul by (simp add: leader_round_def)
  show ?thesis
  proof (cases "?o \<le> r")
    case True
    with le have sum: "?w * 3 + ?o \<le> r" by simp
    with r assms(3) have eq: "r = ?w * 3 + ?o" by (simp add: add_u32_small)
    have "add_u32 (?w * 3) 3 = ?w * 3 + 3" using sum assms(3) by (intro add_u32_small) simp
    moreover have "sub_u32 (?w * 3 + 3) 1 = ?w * 3 + 2"
      using sum assms(3) by (subst sub_u32_small) simp_all
    moreover have "add_u32 (?w * 3 + 2) ?o = ?w * 3 + 2 + ?o"
      using sum assms(3) by (intro add_u32_small) simp
    ultimately show ?thesis using eq by (simp add: decision_round_def w mul)
  next
    case False
    then have "?w = 0" by (simp add: wave_number_def)
    with r have o: "?o mod 2 ^ 32 = r" by (simp add: add_u32_def)
    have "decision_round bc ?w = add_u32 2 ?o"
      by (simp add: decision_round_def w \<open>?w = 0\<close> mul_u32_def add_u32_def sub_u32_def)
    also have "\<dots> = (2 + ?o mod 2 ^ 32) mod 2 ^ 32"
      by (simp only: add_u32_def mod_add_right_eq)
    also have "\<dots> = (2 + r) mod 2 ^ 32" by (simp only: o)
    also have "\<dots> = r + 2" using assms(3) by simp
    finally show ?thesis .
  qed
qed

end
