(* ===== verification/Core_Proposals.thy ===== *)
theory Core_Proposals
  imports Consensus_Core Commit_Safety
begin

text \<open>
  What the core proposes.  Its blocks have strictly increasing rounds, lie above their ancestors,
  extend the author's own last block, and refer to every block seen of the previous round; if the
  parents of the processed blocks are stored, they refer to a quorum of the previous round.  These
  are the properties of a correct authority that the agreement of the commit rule assumes.
\<close>

section \<open>One proposal\<close>

definition hash_order_ok :: "(block_ref set \<Rightarrow> block_ref list) \<Rightarrow> bool" where
  "hash_order_ok ho \<longleftrightarrow> (\<forall>S. finite S \<longrightarrow> set (ho S) = S \<and> distinct (ho S))"

lemma create_block_sel:
  assumes "create_block cr core r now as payload = Some b"
  shows "vb_round b = r" and "vb_author b = cx_own_index (cr_context core)" and "vb_ancestors b = as"
    and "vb_timestamp_ms b = now"
proof -
  from assms have "sb_inner (vb_block b) = V1 (BlockV1_new (cm_epoch (cx_committee (cr_context core))) r
      (cx_own_index (cr_context core)) now as payload)"
    by (auto simp: create_block_def Let_def SignedBlock_new_def VerifiedBlock_new_verified_unserialized_def
        split: sum.splits option.splits Option.bind_splits dest!: VerifiedBlock_new_verified_sel(1))
  then show "vb_round b = r" and "vb_author b = cx_own_index (cr_context core)" and "vb_ancestors b = as"
    and "vb_timestamp_ms b = now"
    by (simp_all add: vb_round_def vb_author_def vb_ancestors_def vb_timestamp_ms_def BlockV1_new_def)
qed

definition collected :: "core \<Rightarrow> round \<Rightarrow> verified_block set" where
  "collected core n = {b. \<exists>r < n. b \<in> pending_at core r}"

definition proposed_refs :: "core \<Rightarrow> round \<Rightarrow> block_ref set" where
  "proposed_refs core n =
     insert (vb_reference (cr_last_proposed_block core))
       (vb_reference ` collected core n - (\<Union>b \<in> collected core n. set (vb_ancestors b)))"

lemma ancestors_to_propose_eq:
  assumes "ancestors_to_propose ho core n ts = Some (as, core')"
  shows "as = ho (proposed_refs core n)" and "\<forall>b \<in> collected core n. vb_timestamp_ms b \<le> ts"
    and "core' = core\<lparr>cr_pending_ancestors := bt_retain (\<lambda>r. n \<le> r) (cr_pending_ancestors core)\<rparr>"
    and "finite (proposed_refs core n)"
proof -
  let ?bs = "concat (map snd (bt_select (\<lambda>r. r < n) (cr_pending_ancestors core)))"
  have coll: "collected core n = set ?bs" by (auto simp only: collected_def collected_blocks)
  have refs: "proposed_refs core n = insert (vb_reference (cr_last_proposed_block core))
      (set (filter (\<lambda>r. r \<notin> set (concat (map vb_ancestors ?bs))) (map vb_reference ?bs)))"
    unfolding proposed_refs_def coll by auto
  from assms have ts: "list_all (\<lambda>b. vb_timestamp_ms b \<le> ts) ?bs"
    and as: "as = ho (proposed_refs core n)"
    and c': "core' = core\<lparr>cr_pending_ancestors := bt_retain (\<lambda>r. n \<le> r) (cr_pending_ancestors core)\<rparr>"
    unfolding ancestors_to_propose_def Let_def refs by (simp_all split: if_splits)
  show "as = ho (proposed_refs core n)" by (rule as)
  show "\<forall>b \<in> collected core n. vb_timestamp_ms b \<le> ts" using ts by (simp add: coll list_all_iff)
  show "core' = core\<lparr>cr_pending_ancestors := bt_retain (\<lambda>r. n \<le> r) (cr_pending_ancestors core)\<rparr>" by (rule c')
  show "finite (proposed_refs core n)" unfolding refs by simp
qed

text \<open>The two outcomes of an attempt: nothing happens, or a block for the clock's round is made.\<close>

lemma try_new_block_cases:
  assumes "try_new_block cr ho now ignore core = Some (res, core')"
  obtains (none) "res = None" and "core' = core"
  | (block) b clock where "res = Some b" and "last_proposed_round core < tc_round (cr_threshold_clock core)"
      and "vb_round b = tc_round (cr_threshold_clock core)" and "vb_author b = cx_own_index (cr_context core)"
      and "vb_timestamp_ms b = now" and "vb_ancestors b = ho (proposed_refs core (vb_round b))"
      and "finite (proposed_refs core (vb_round b))"
      and "\<forall>x \<in> collected core (vb_round b). vb_timestamp_ms x \<le> now"
      and "ThresholdClock_add_block (cr_threshold_clock core) (vb_reference b) = Some clock"
      and "cr_threshold_clock core' = clock" and "cr_context core' = cr_context core"
      and "cr_last_proposed_block core' = b"
      and "cr_pending_ancestors core' =
             push_pending b (bt_retain (\<lambda>r. vb_round b \<le> r) (cr_pending_ancestors core))"
      and "bm_accepted_blocks (cr_block_manager core') = insert (vb_reference b) (bm_accepted_blocks (cr_block_manager core))"
      and "cr_signals core' = cr_signals core @ [NewBlockReady (vb_reference b)]"
proof (cases "res")
  case None
  with assms show thesis
    by (intro none) (auto simp: try_new_block_def Let_def split: if_splits Option.bind_splits prod.splits)
next
  case (Some b)
  let ?r = "tc_round (cr_threshold_clock core)"
  from assms Some obtain as core1 payload consumer clock where
    lt: "last_proposed_round core < ?r"
    and anc: "ancestors_to_propose ho core ?r now = Some (as, core1)"
    and cb: "create_block cr core1 ?r now as payload = Some b"
    and ck: "ThresholdClock_add_block (cr_threshold_clock core1) (vb_reference b) = Some clock"
    and c': "core' = core1\<lparr>cr_threshold_clock := clock, cr_transactions_consumer := consumer,
        cr_pending_ancestors := push_pending b (cr_pending_ancestors core1),
        cr_block_manager := snd (BlockManager_add_blocks (cr_block_manager core1) [b]),
        cr_last_proposed_block := b, cr_signals := cr_signals core1 @ [NewBlockReady (vb_reference b)]\<rparr>"
    by (auto simp: try_new_block_def Let_def ThresholdClock_get_round_def
        split: if_splits Option.bind_splits prod.splits)
  note a = ancestors_to_propose_eq [OF anc] and s = create_block_sel [OF cb]
  obtain acc bm where bm: "BlockManager_add_blocks (cr_block_manager core1) [b] = (acc, bm)" by fastforce
  show thesis
    by (rule block [OF Some lt]) (use a s ck c' bm add_blocks_spec(1) [OF bm] in simp_all)
qed

lemma proposal_ancestors:
  assumes "hash_order_ok ho" and "try_new_block cr ho now ignore core = Some (Some b, core')"
  shows "set (vb_ancestors b) = proposed_refs core (vb_round b)" and "distinct (vb_ancestors b)"
  using assms(1) by (cases rule: try_new_block_cases [OF assms(2)]; simp add: hash_order_ok_def)+

section \<open>Invariant\<close>

text \<open>\<open>seen\<close> is the set of references given to the clock: the genesis blocks, the accepted blocks and
  the own proposals.\<close>

definition core_inv :: "block_ref set \<Rightarrow> core \<Rightarrow> bool" where
  "core_inv seen core \<longleftrightarrow>
     pending_keyed core
     \<and> clock_inv 0 seen (cr_threshold_clock core) \<and> tc_context (cr_threshold_clock core) = cr_context core
     \<and> (\<forall>r \<in> seen. last_proposed_round core \<le> br_round r \<longrightarrow> r \<in> vb_reference ` pending_at core (br_round r))"

definition blocks_below :: "core \<Rightarrow> bool" where
  "blocks_below core \<longleftrightarrow>
     (\<forall>r. \<forall>b \<in> pending_at core r. \<forall>a \<in> set (vb_ancestors b). br_round a < vb_round b)"

text \<open>A round is entered with the blocks of the round before it stored.\<close>

definition parents_stored :: "committee \<Rightarrow> block_ref set \<Rightarrow> bool" where
  "parents_stored c seen \<longleftrightarrow> (\<forall>r \<in> seen. 0 < br_round r \<longrightarrow> has_quorum c seen (br_round r - 1))"

lemma core_invD:
  assumes "core_inv seen core"
  shows "pending_keyed core" and "clock_inv 0 seen (cr_threshold_clock core)"
    and "tc_context (cr_threshold_clock core) = cr_context core"
    and "\<And>r. r \<in> seen \<Longrightarrow> last_proposed_round core \<le> br_round r \<Longrightarrow> r \<in> vb_reference ` pending_at core (br_round r)"
  using assms by (auto simp: core_inv_def)

text \<open>Every block seen of the round before the clock's is referred to.\<close>

lemma proposal_refers_to_previous:
  assumes inv: "core_inv seen core" and ho: "hash_order_ok ho" and below: "blocks_below core"
    and new: "try_new_block cr ho now ignore core = Some (Some b, core')"
    and r: "r \<in> seen" "Suc (br_round r) = vb_round b"
  shows "r \<in> set (vb_ancestors b)"
proof -
  have lt: "last_proposed_round core < vb_round b" by (cases rule: try_new_block_cases [OF new]) auto
  then have "r \<in> vb_reference ` pending_at core (br_round r)" using core_invD(4) [OF inv r(1)] r(2) by simp
  then obtain x where x: "x \<in> pending_at core (br_round r)" "r = vb_reference x" by auto
  then have "x \<in> collected core (vb_round b)"
    unfolding collected_def using r(2) by (intro CollectI exI [of _ "br_round r"]) simp
  moreover have "r \<notin> set (vb_ancestors y)" if y: "y \<in> collected core (vb_round b)" for y
  proof
    assume "r \<in> set (vb_ancestors y)"
    moreover obtain n where "n < vb_round b" "y \<in> pending_at core n" using y by (auto simp: collected_def)
    moreover have "vb_round y = n" using core_invD(1) [OF inv] calculation(3) by (auto simp: pending_keyed_def)
    ultimately show False using below r(2) unfolding blocks_below_def by fastforce
  qed
  ultimately show ?thesis using x(2) proposal_ancestors(1) [OF ho new] by (auto simp: proposed_refs_def)
qed

lemma proposal_quorum:
  assumes inv: "core_inv seen core" and ho: "hash_order_ok ho" and below: "blocks_below core"
    and stored: "parents_stored (cx_committee (cr_context core)) seen"
    and new: "try_new_block cr ho now ignore core = Some (Some b, core')"
  defines "c \<equiv> cx_committee (cr_context core)"
  shows "cm_quorum_threshold c \<le> weight_of (stake_at c) (parents_of (vb_reference b) b)"
proof -
  let ?r = "tc_round (cr_threshold_clock core)"
  have rb: "vb_round b = ?r" and pos: "0 < ?r" by (cases rule: try_new_block_cases [OF new]; simp)+
  have cc: "cx_committee (tc_context (cr_threshold_clock core)) = c" using core_invD(3) [OF inv] by (simp add: c_def)
  have "has_quorum c seen (?r - 1)"
    using clock_invD(7) [OF core_invD(2) [OF inv] cc] pos stored
    by (metis c_def diff_Suc_1 less_irrefl parents_stored_def)
  then have "cm_quorum_threshold c \<le> weight_of (stake_at c) (authors_in seen (?r - 1))" by (simp add: has_quorum_def)
  also have "\<dots> \<le> weight_of (stake_at c) (parents_of (vb_reference b) b)"
  proof (rule weight_of_mono)
    show "finite (parents_of (vb_reference b) b)" by (simp add: parents_of_def)
    have "r \<in> set (vb_ancestors b)" if "r \<in> seen" "br_round r = ?r - 1" for r
      using proposal_refers_to_previous [OF inv ho below new that(1)] that(2) rb pos by simp
    then show "authors_in seen (?r - 1) \<subseteq> parents_of (vb_reference b) b"
      using rb pos by (auto simp: authors_in_def parents_of_def)
  qed
  finally show ?thesis .
qed

lemma proposal_below:
  assumes inv: "core_inv seen core" and ho: "hash_order_ok ho"
    and new: "try_new_block cr ho now ignore core = Some (Some b, core')" and a: "a \<in> set (vb_ancestors b)"
  shows "br_round a < vb_round b"
proof -
  have lt: "last_proposed_round core < vb_round b" by (cases rule: try_new_block_cases [OF new]) auto
  from a proposal_ancestors(1) [OF ho new] consider "a = vb_reference (cr_last_proposed_block core)"
    | x where "x \<in> collected core (vb_round b)" "a = vb_reference x" by (auto simp: proposed_refs_def)
  then show ?thesis
  proof cases
    case 1
    with lt show ?thesis by (simp add: last_proposed_round_def)
  next
    case 2
    with core_invD(1) [OF inv] show ?thesis by (auto simp: collected_def pending_keyed_def)
  qed
qed

section \<open>Preservation\<close>

lemma pending_at_update:
  "cr_pending_ancestors core' = m \<Longrightarrow> pending_at core' = pending_at (core\<lparr>cr_pending_ancestors := m\<rparr>)"
  by (simp add: pending_at_def fun_eq_iff)

lemma pending_after_retain:
  "pending_at (core\<lparr>cr_pending_ancestors := bt_retain P (cr_pending_ancestors core)\<rparr>) r
     = (if P r then pending_at core r else {})"
  by (simp add: pending_at_def)

lemma pending_after_proposal:
  assumes "cr_pending_ancestors core' = push_pending b (bt_retain (\<lambda>r. n \<le> r) (cr_pending_ancestors core))"
  shows "pending_at core' r = (if n \<le> r then pending_at core r else {}) \<union> (if vb_round b = r then {b} else {})"
  using pending_after_push [of "[b]" "bt_retain (\<lambda>r. n \<le> r) (cr_pending_ancestors core)" core r]
    pending_at_update [OF assms, of core] by (auto simp: pending_after_retain)

lemma try_new_block_inv:
  assumes ok: "committee_ok (cx_committee (cr_context core))" and nd: "no_dictator (cx_committee (cr_context core))"
    and inv: "core_inv seen core" and own: "cx_own_index (cr_context core) < committee_size (cx_committee (cr_context core))"
    and hi: "tc_round (cr_threshold_clock core) + 1 < 2 ^ 32"
    and new: "try_new_block cr ho now ignore core = Some (res, core')"
  shows "core_inv (seen \<union> vb_reference ` set_option res) core' \<and> cr_context core' = cr_context core"
  using new
proof (cases rule: try_new_block_cases)
  case none
  with inv show ?thesis by simp
next
  case (block b clock)
  note p = pending_after_proposal [OF block(13)]
  have cc: "cx_committee (tc_context (cr_threshold_clock core)) = cx_committee (cr_context core)"
    using core_invD(3) [OF inv] by simp
  have "ref_ok (cx_committee (cr_context core)) (vb_reference b)"
    using own hi block(3,4) by (simp add: ref_ok_def)
  from clock_step [OF ok nd core_invD(2) [OF inv] cc this] block(9)
  have clock: "clock_inv 0 (insert (vb_reference b) seen) clock" by simp
  have "pending_keyed core'"
    using core_invD(1) [OF inv] by (auto simp: pending_keyed_def p split: if_splits)
  moreover have "tc_context clock = cr_context core"
    using add_block_context [OF block(9)] core_invD(3) [OF inv] by simp
  moreover have "r \<in> vb_reference ` pending_at core' (br_round r)"
    if "r \<in> insert (vb_reference b) seen" "vb_round b \<le> br_round r" for r
    using that core_invD(4) [OF inv, of r] block(2,3) by (auto simp: p)
  ultimately show ?thesis
    using clock block(1,10,11,12) by (simp add: core_inv_def last_proposed_round_def)
qed

lemma add_blocks_inv:
  assumes ok: "committee_ok (cx_committee (cr_context core))" and nd: "no_dictator (cx_committee (cr_context core))"
    and inv: "core_inv seen core" and bs: "\<forall>b \<in> set bs. ref_ok (cx_committee (cr_context core)) (vb_reference b)"
    and add: "ThresholdClock_add_blocks (cr_threshold_clock core) (map vb_reference bs) = Some (nr, clock)"
    and core1: "cr_threshold_clock core1 = clock" "cr_context core1 = cr_context core"
      "cr_last_proposed_block core1 = cr_last_proposed_block core"
      "cr_pending_ancestors core1 = fold push_pending bs (cr_pending_ancestors core)"
  shows "core_inv (seen \<union> vb_reference ` set bs) core1"
proof -
  have p: "pending_at core1 r = pending_at core r \<union> {b \<in> set bs. vb_round b = r}" for r
    using pending_after_push [of bs "cr_pending_ancestors core" core r] pending_at_update [OF core1(4), of core] by simp
  have cc: "cx_committee (tc_context (cr_threshold_clock core)) = cx_committee (cr_context core)"
    using core_invD(3) [OF inv] by simp
  have loop: "clock_loop (cr_threshold_clock core) (map vb_reference bs) = Some clock"
    using add by (auto simp: ThresholdClock_add_blocks_def Let_def split: Option.bind_splits)
  have ck: "clock_inv 0 (seen \<union> vb_reference ` set bs) clock" "tc_context clock = cr_context core"
    using clock_loop_inv [OF ok nd core_invD(2) [OF inv] cc, of "map vb_reference bs"] bs loop core_invD(3) [OF inv]
    by auto
  have "pending_keyed core1" using core_invD(1) [OF inv] by (auto simp: pending_keyed_def p)
  moreover have "r \<in> vb_reference ` pending_at core1 (br_round r)"
    if "r \<in> seen \<union> vb_reference ` set bs" "last_proposed_round core1 \<le> br_round r" for r
    using that core_invD(4) [OF inv, of r] core1(3) by (auto simp: p last_proposed_round_def)
  ultimately show ?thesis using ck core1(1,2) by (simp add: core_inv_def)
qed

section \<open>Runs\<close>

definition proposals :: "core_signal list \<Rightarrow> block_ref list" where
  "proposals sigs = concat (map (\<lambda>s. case s of NewBlockReady r \<Rightarrow> [r] | NewRound _ \<Rightarrow> []) sigs)"

lemma proposals_append [simp]: "proposals (xs @ ys) = proposals xs @ proposals ys"
  by (simp add: proposals_def)

lemma proposals_simps [simp]:
  "proposals [] = []" "proposals (NewRound r # xs) = proposals xs"
  "proposals (NewBlockReady b # xs) = b # proposals xs"
  by (simp_all add: proposals_def)

text \<open>The own proposals so far: rounds strictly increase up to the last proposed block.\<close>

definition proposals_inv :: "core \<Rightarrow> bool" where
  "proposals_inv core \<longleftrightarrow>
     sorted_wrt (<) (map br_round (proposals (cr_signals core)))
     \<and> (\<forall>r \<in> set (proposals (cr_signals core)). br_author r = cx_own_index (cr_context core)
          \<and> br_round r \<le> last_proposed_round core)"

lemma try_new_block_proposals:
  assumes "proposals_inv core" and "try_new_block cr ho now ignore core = Some (res, core')"
  shows "proposals_inv core'"
  using assms(2)
proof (cases rule: try_new_block_cases)
  case (block b clock)
  with assms(1) show ?thesis
    by (fastforce simp: proposals_inv_def sorted_wrt_append last_proposed_round_def)
qed (use assms(1) in simp)

lemma handle_command_proposals:
  assumes "proposals_inv core" and "handle_command cr ho cmd core = Some core'"
  shows "proposals_inv core'"
proof -
  obtain now c where cmd: "cmd = (now, c)" by fastforce
  show ?thesis
  proof (cases c)
    case (AddBlocks blocks)
    with assms(2) cmd obtain core1 res where
      new: "try_new_block cr ho now False core1 = Some (res, core')"
      and sig: "proposals (cr_signals core1) = proposals (cr_signals core)"
      and same: "cr_context core1 = cr_context core" "cr_last_proposed_block core1 = cr_last_proposed_block core"
      by (auto simp: Core_add_blocks_def Let_def split: prod.splits Option.bind_splits option.splits)
    have "proposals_inv core1" using assms(1) sig same by (simp add: proposals_inv_def last_proposed_round_def)
    then show ?thesis using new by (rule try_new_block_proposals)
  next
    case (ForceNewBlock round)
    with assms cmd show ?thesis
      by (auto simp: force_new_block_def split: if_splits dest: try_new_block_proposals)
  next
    case GetMissing
    with assms cmd show ?thesis by simp
  qed
qed

lemma run_proposals:
  "proposals_inv core \<Longrightarrow> CoreThread_run cr ho cmds core = Some core' \<Longrightarrow> proposals_inv core'"
  by (induction cmds arbitrary: core) (auto split: Option.bind_splits dest: handle_command_proposals)

section \<open>The initial state\<close>

lemma Block_genesis_sel:
  assumes "Block_genesis cr own c = Some (my, others)" and "committee_size c < 2 ^ 32"
  shows "vb_author my = own" and "br_author ` vb_reference ` set (others @ [my]) = {0..<committee_size c}"
    and "\<forall>b \<in> set (others @ [my]). vb_round b = 0 \<and> vb_ancestors b = []"
    and "own < committee_size c"
proof -
  from assms(1) obtain bs where bs: "genesis_blocks cr (cm_epoch c) (committee_authorities c) = Some bs"
    and others: "others = filter (\<lambda>b. vb_author b \<noteq> own) bs"
    and my: "\<exists>rest. filter (\<lambda>b. vb_author b = own) bs = my # rest"
    by (auto simp: Block_genesis_def split: Option.bind_splits list.splits)
  note g = genesis_blocks_sel [OF bs]
  have len: "length (cm_authorities c) = committee_size c" by (simp add: committee_size_def)
  have "map fst (committee_authorities c) = [0..<committee_size c]"
  proof (rule nth_equalityI)
    show "length (map fst (committee_authorities c)) = length [0..<committee_size c]"
      by (simp add: committee_authorities_def len)
    fix i assume "i < length (map fst (committee_authorities c))"
    then show "map fst (committee_authorities c) ! i = [0..<committee_size c] ! i"
      using assms(2) by (simp add: committee_authorities_def len case_prod_beta)
  qed
  then have authors: "map vb_author bs = [0..<committee_size c]" using g by simp
  have mem: "my \<in> set bs" "vb_author my = own"
  proof -
    obtain rest where "filter (\<lambda>b. vb_author b = own) bs = my # rest" using my by blast
    then have "my \<in> set (filter (\<lambda>b. vb_author b = own) bs)" by simp
    then show "my \<in> set bs" "vb_author my = own" by auto
  qed
  have eq: "x = my" if "x \<in> set bs" "vb_author x = own" for x
    using authors that mem by (metis distinct_map distinct_upt inj_onD)
  have "x \<in> set (others @ [my]) \<longleftrightarrow> x \<in> set bs" for x
    using eq [of x] mem by (cases "vb_author x = own") (auto simp: others)
  then have all: "set (others @ [my]) = set bs" by blast
  show "vb_author my = own" by (rule mem(2))
  have "br_author ` vb_reference ` set bs = set (map vb_author bs)" by (simp add: image_image)
  then show "br_author ` vb_reference ` set (others @ [my]) = {0..<committee_size c}"
    unfolding all authors by simp
  show "\<forall>b \<in> set (others @ [my]). vb_round b = 0 \<and> vb_ancestors b = []"
    unfolding all using g by (simp add: GENESIS_ROUND_def)
  have "own \<in> set (map vb_author bs)" using mem by auto
  then show "own < committee_size c" unfolding authors by simp
qed

lemma Core_new_inv:
  assumes ok: "committee_ok (cx_committee cx)" and nd: "no_dictator (cx_committee cx)"
    and new: "Core_new cr cx consumer bm [] = Some core"
  shows "\<exists>seen. core_inv seen core \<and> blocks_below core \<and> parents_stored (cx_committee cx) seen
    \<and> (\<forall>r \<in> seen. br_round r = 0) \<and> br_author ` seen = members (cx_committee cx)
    \<and> last_proposed_round core = 0 \<and> cr_context core = cx \<and> proposals_inv core"
proof -
  let ?c = "cx_committee cx"
  have size: "committee_size ?c < 2 ^ 32"
    using ok by (auto simp: committee_ok_def Committee_new_def committee_size_def split: if_splits)
  from new obtain my others clock where
    g: "Block_genesis cr (cx_own_index cx) ?c = Some (my, others)"
    and loop: "clock_loop (ThresholdClock_new 0 cx) (map vb_reference (others @ [my])) = Some clock"
    and core: "core = \<lparr>cr_context = cx, cr_threshold_clock = clock, cr_last_proposed_block = my,
        cr_transactions_consumer = consumer, cr_pending_ancestors = fold push_pending (others @ [my]) bt_empty,
        cr_block_manager = bm, cr_signals = [NewRound (ThresholdClock_get_round clock)]\<rparr>"
    by (auto simp: Core_new_def Let_def split: Option.bind_splits prod.splits)
  note gs = Block_genesis_sel [OF g size]
  define seen where "seen = vb_reference ` set (others @ [my])"
  have "\<forall>r \<in> set (map vb_reference (others @ [my])). ref_ok ?c r"
  proof
    fix r assume "r \<in> set (map vb_reference (others @ [my]))"
    then have r: "r \<in> vb_reference ` set (others @ [my])" by (simp only: set_map)
    then have "br_author r \<in> br_author ` vb_reference ` set (others @ [my])" by (rule imageI)
    then have "br_author r < committee_size ?c" unfolding gs(2) by simp
    moreover have "br_round r = 0" using r gs(3) by auto
    ultimately show "ref_ok ?c r" by (simp add: ref_ok_def)
  qed
  moreover have "cx_committee (tc_context (ThresholdClock_new 0 cx)) = ?c" by (simp add: ThresholdClock_new_def)
  ultimately obtain clock' where clock': "clock_loop (ThresholdClock_new 0 cx) (map vb_reference (others @ [my])) = Some clock'"
    "clock_inv 0 ({} \<union> set (map vb_reference (others @ [my]))) clock'"
    "tc_context clock' = tc_context (ThresholdClock_new 0 cx)"
    using clock_loop_inv [OF ok nd clock_inv_new [of 0 cx]] by blast
  have "clock' = clock" using clock'(1) loop by simp
  with clock'(2,3) have ck: "clock_inv 0 seen clock" "tc_context clock = cx"
    by (simp_all only: seen_def set_map Un_empty_left) (simp add: ThresholdClock_new_def)
  have empty: "pending_at (core\<lparr>cr_pending_ancestors := bt_empty\<rparr>) r = {}" for r by (simp add: pending_at_def)
  have p: "pending_at core r = {b \<in> set (others @ [my]). vb_round b = r}" for r
    using pending_after_push [of "others @ [my]" bt_empty core r] empty
    by (simp add: core pending_at_def)
  have zero: "\<forall>r \<in> seen. br_round r = 0" using gs(3) by (auto simp: seen_def)
  have "core_inv seen core"
    using ck zero gs(3) p by (auto simp: core_inv_def core seen_def pending_keyed_def)
  moreover have "blocks_below core" using gs(3) p by (auto simp: blocks_below_def)
  moreover have "last_proposed_round core = 0" using gs(3) by (simp add: core last_proposed_round_def)
  ultimately show ?thesis
    using zero gs(2) by (intro exI [of _ seen])
      (auto simp: parents_stored_def core proposals_inv_def seen_def members_def)
qed

end
