(* ===== verification/Commit_Agreement.thy ===== *)
theory Commit_Agreement
  imports Commit_Safety
begin

text \<open>
  From single slots to sequences: the outcomes of the direct and the indirect rule in two views of
  one DAG agree, hence so do the lists of leaders the universal committer builds.
\<close>

section \<open>Outcomes in one view\<close>

definition certified :: "dag \<Rightarrow> committee \<Rightarrow> verified_block \<Rightarrow> bool" where
  "certified U c l \<longleftrightarrow> (\<exists>q k. U q = Some k \<and> br_round q = vb_round l + 2 \<and> certifies U c k l)"

definition slot_block :: "dag_state \<Rightarrow> slot \<Rightarrow> verified_block \<Rightarrow> bool" where
  "slot_block s sl l \<longleftrightarrow> (\<exists>q. get_uncommitted_block s q = Some l \<and> Slot_from q = sl)"

lemma slot_block_facts:
  assumes "bft_dag c H U" and "view_of c U low s" and "slot_block s sl l"
  shows "U (vb_reference l) = Some l" and "Slot_from (vb_reference l) = sl" and "vb_round l = sl_round sl"
    and "get_uncommitted_block s (vb_reference l) = Some l"
proof -
  from assms(3) obtain q where q: "get_uncommitted_block s q = Some l" "Slot_from q = sl"
    by (auto simp: slot_block_def)
  have ref: "vb_reference l = q" using bft_reference(1) [OF assms(1) view_get [OF assms(2) q(1)]] .
  show "U (vb_reference l) = Some l" using view_get [OF assms(2) q(1)] ref by simp
  show "Slot_from (vb_reference l) = sl" using q(2) ref by simp
  then show "vb_round l = sl_round sl" by (auto simp: Slot_from_def)
  show "get_uncommitted_block s (vb_reference l) = Some l" using q ref by simp
qed

lemma certifiers_mono:
  assumes "view_of c U low s" and "bft_dag c H U" and "dr = vb_round l + 2" and "low \<le> Suc (vb_round l)"
  shows "certifiers (get_uncommitted_block s) c dr l \<subseteq> certifiers U c dr l"
proof
  fix x assume "x \<in> certifiers (get_uncommitted_block s) c dr l"
  then obtain r b where r: "x = br_author r" "get_uncommitted_block s r = Some b" "br_round r = dr"
    "certifies (get_uncommitted_block s) c b l" by (auto simp: certifiers_def)
  with certifies_view [OF assms(2,1,4) r(2)] view_get [OF assms(1) r(2)] assms(3)
  show "x \<in> certifiers U c dr l" by (auto simp: certifiers_def)
qed

lemma members_finite_subset: "A \<subseteq> members c \<Longrightarrow> finite A"
  by (rule finite_subset) auto

lemma certifiers_members:
  "bft_dag c H U \<Longrightarrow> certifiers U c dr l \<subseteq> members c"
  by (auto simp: certifiers_def dest: bft_reference(2))

lemma blamers_members: "bft_dag c H U \<Longrightarrow> blamers U sl \<subseteq> members c"
  by (auto simp: blamers_def dest: bft_reference(2))

lemma blamers_mono:
  "view_of c U low s \<Longrightarrow> blamers (get_uncommitted_block s) sl \<subseteq> blamers U sl"
  by (auto simp: blamers_def dest: view_get)

lemma direct_outcome:
  assumes bft: "bft_dag c H U" and v: "view_of c U low s" and w: "three_round_waves c bc"
    and sl: "leader_round bc (wave_number bc (sl_round sl)) = sl_round sl" "sl_round sl + 3 < 2 ^ 32"
      "low \<le> sl_round sl"
    and res: "try_direct_decide bc s sl = Some st"
  obtains (skip) "st = Skip sl" and "cm_quorum_threshold c \<le> weight_of (stake_at c) (blamers U sl)"
  | (commit) l where "st = Commit l" and "slot_block s sl l"
      and "cm_quorum_threshold c \<le> weight_of (stake_at c) (certifiers U c (sl_round sl + 2) l)"
  | (undecided) "st = Undecided sl"
proof -
  let ?get = "get_uncommitted_block s" and ?q = "cm_quorum_threshold c" and ?w = "weight_of (stake_at c)"
  note ok = bft_dagD(1) [OF bft]
  have c: "cx_committee (bc_context bc) = c" using w by (simp add: three_round_waves_def)
  obtain cx where inv: "dag_inv cx s" using v by (auto simp: view_of_def)
  have vr: "add_u32 (sl_round sl) 1 = sl_round sl + 1" using sl(2) by (intro add_u32_small) simp
  note dr = decision_round_eq [OF w sl(1,2)]
  from res c vr obtain blame where
    blame: "enough_leader_blame c s (sl_round sl + 1) (sl_authority sl) = Some blame"
    by (auto simp: try_direct_decide_def Let_def split: Option.bind_splits)
  show thesis
  proof (cases blame)
    case True
    have "?q \<le> ?w (blamers ?get sl)"
      using enough_leader_blame_eq [OF ok inv _ blame] sl(2) True by simp
    also have "\<dots> \<le> ?w (blamers U sl)"
      by (intro weight_of_mono blamers_mono [OF v] members_finite_subset [OF blamers_members [OF bft]])
    finally show thesis using res True blame c vr by (intro skip) (auto simp: try_direct_decide_def Let_def)
  next
    case False
    with res blame c vr dr obtain ls where
      ls: "filter_opt (enough_leader_support c s (sl_round sl + 2)) (get_uncommitted_blocks_at_slot s sl) = Some ls"
      and st: "(if length ls > 1 then None else (case ls of [] \<Rightarrow> Some (Undecided sl) | l # _ \<Rightarrow> Some (Commit l))) = Some st"
      by (auto simp: try_direct_decide_def Let_def split: Option.bind_splits)
    show thesis
    proof (cases ls)
      case Nil
      with st show thesis by (intro undecided) simp
    next
      case (Cons l rest)
      have "l \<in> set ls" using Cons by simp
      then have sup: "enough_leader_support c s (sl_round sl + 2) l = Some True"
        and l: "l \<in> set (get_uncommitted_blocks_at_slot s sl)"
        using filter_opt_eq [OF ls] by auto
      have sb: "slot_block s sl l" using l by (simp add: blocks_at_slot_set slot_block_def)
      have "?q \<le> ?w (certifiers ?get c (sl_round sl + 2) l)"
        using enough_leader_support_imp [OF ok inv _ sup] sl(2) by simp
      also have "\<dots> \<le> ?w (certifiers U c (sl_round sl + 2) l)"
        using slot_block_facts(3) [OF bft v sb] sl(3)
        by (intro weight_of_mono certifiers_mono [OF v bft]
            members_finite_subset [OF certifiers_members [OF bft]]) simp_all
      finally show thesis using st Cons sb by (intro commit) (auto split: if_splits)
    qed
  qed
qed

lemma anchor_outcome:
  assumes bft: "bft_dag c H U" and v: "view_of c U low s" and w: "three_round_waves c bc"
    and sl: "leader_round bc (wave_number bc (sl_round sl)) = sl_round sl" "sl_round sl + 3 < 2 ^ 32"
      "low \<le> sl_round sl"
    and res: "decide_leader_from_anchor bc s anchor sl = Some st"
  defines "linked \<equiv> \<lambda>q. linked_from (get_uncommitted_block s) (sl_round sl + 2) (set (vb_ancestors anchor)) q
                        \<and> br_round q = sl_round sl + 2"
  obtains (commit) l q k where "st = Commit l" and "slot_block s sl l" and "linked q"
      and "get_uncommitted_block s q = Some k" and "certifies U c k l"
  | (skip) "st = Skip sl" and "\<And>l q k. slot_block s sl l \<Longrightarrow> linked q \<Longrightarrow>
      get_uncommitted_block s q = Some k \<Longrightarrow> \<not> certifies U c k l"
proof -
  let ?get = "get_uncommitted_block s"
  note ok = bft_dagD(1) [OF bft]
  have c: "cx_committee (bc_context bc) = c" using w by (simp add: three_round_waves_def)
  note dr = decision_round_eq [OF w sl(1,2)]
  from res c dr obtain ks ls where
    ks: "ancestors_at_uncommitted_round s anchor (sl_round sl + 2) = Some ks"
    and ls: "filter_opt (\<lambda>l. any_certificate ?get c l Map.empty ks) (get_uncommitted_blocks_at_slot s sl) = Some ls"
    and st: "(if length ls > 1 then None else (case ls of [] \<Rightarrow> Some (Skip sl) | l # _ \<Rightarrow> Some (Commit l))) = Some st"
    by (auto simp: decide_leader_from_anchor_def Let_def split: Option.bind_splits)
  note f = filter_opt_eq [OF ls]
  have any: "any_certificate ?get c l Map.empty ks = Some True \<longleftrightarrow>
      (\<exists>q k. linked q \<and> ?get q = Some k \<and> certifies U c k l)" if l: "slot_block s sl l" for l
  proof -
    have "l \<in> set (get_uncommitted_blocks_at_slot s sl)"
      using l by (simp add: blocks_at_slot_set slot_block_def)
    with f obtain res where res: "any_certificate ?get c l Map.empty ks = Some res" by blast
    have "res \<longleftrightarrow> (\<exists>k \<in> set ks. certifies ?get c k l)"
      using any_certificate_eq [OF ok cache_ok_empty res] .
    also have "\<dots> \<longleftrightarrow> (\<exists>q k. linked q \<and> ?get q = Some k \<and> certifies ?get c k l)"
      using ancestors_at_round_set [OF ks] unfolding linked_def by blast
    also have "\<dots> \<longleftrightarrow> (\<exists>q k. linked q \<and> ?get q = Some k \<and> certifies U c k l)"
      using certifies_view [OF bft v, of l] slot_block_facts(3) [OF bft v l] sl(3)
      by (auto simp: linked_def)
    finally show ?thesis using res by simp
  qed
  show thesis
  proof (cases ls)
    case Nil
    have "\<not> certifies U c k l" if "slot_block s sl l" "linked q" "?get q = Some k" for l q k
    proof
      assume "certifies U c k l"
      then have "any_certificate ?get c l Map.empty ks = Some True" using any [OF that(1)] that(2,3) by blast
      moreover have "l \<in> set (get_uncommitted_blocks_at_slot s sl)"
        using that(1) by (simp add: blocks_at_slot_set slot_block_def)
      ultimately have "l \<in> set ls" using f by simp
      with Nil show False by simp
    qed
    with Nil st show thesis by (intro skip) auto
  next
    case (Cons l rest)
    have "l \<in> set ls" using Cons by simp
    then have t: "any_certificate ?get c l Map.empty ks = Some True"
      and l: "l \<in> set (get_uncommitted_blocks_at_slot s sl)" using f by auto
    have sb: "slot_block s sl l" using l by (simp add: blocks_at_slot_set slot_block_def)
    from any [OF sb] t obtain q k where "linked q" "?get q = Some k" "certifies U c k l" by blast
    with st Cons sb show thesis by (intro commit) (auto split: if_splits)
  qed
qed

section \<open>One slot in two views\<close>

lemma quorum_certifiers_certified:
  assumes "bft_dag c H U"
    and "cm_quorum_threshold c \<le> weight_of (stake_at c) (certifiers U c (vb_round l + 2) l)"
  shows "certified U c l"
proof -
  have "certifiers U c (vb_round l + 2) l \<noteq> {}"
    using assms(2) cq.quorum_positive [OF bft_dagD(1) [OF assms(1)]] by (auto simp: weight_of_def)
  then show ?thesis by (auto simp: certifiers_def certified_def)
qed

lemma certified_unique:
  assumes bft: "bft_dag c H U" and "certified U c l" and "certified U c l'"
    and "U (vb_reference l) = Some l" and "U (vb_reference l') = Some l'"
    and "Slot_from (vb_reference l) = Slot_from (vb_reference l')"
  shows "l = l'"
proof -
  obtain q k where k: "U q = Some k" "br_round q = vb_round l + 2" "certifies U c k l"
    using assms(2) by (auto simp: certified_def)
  obtain q' k' where k': "U q' = Some k'" "br_round q' = vb_round l' + 2" "certifies U c k' l'"
    using assms(3) by (auto simp: certified_def)
  have "vb_reference l = vb_reference l'"
    using certificates_agree [of c H U l l' q k q' k'] bft assms(6) k k' by blast
  then have "Some l = Some l'" using assms(4,5) by metis
  then show ?thesis by simp
qed

text \<open>A view that holds a certificate for a block holds the block.\<close>

lemma certificate_brings_leader:
  assumes bft: "bft_dag c H U" and v: "view_of c U low s" and low: "low \<le> vb_round l"
    and l: "U (vb_reference l) = Some l"
    and k: "get_uncommitted_block s q = Some k" "br_round q = vb_round l + 2" "certifies U c k l"
  shows "get_uncommitted_block s (vb_reference l) = Some l"
proof -
  let ?get = "get_uncommitted_block s"
  note below = bft_dagD(3) [OF bft]
  have "voters U l (vb_ancestors k) \<noteq> {}"
    using k(3) cq.quorum_positive [OF bft_dagD(1) [OF bft]] by (auto simp: certifies_def weight_of_def)
  then obtain a where a: "a \<in> set (vb_ancestors k)" "supports U a l" by (auto simp: voters_def)
  have ra: "br_round a < vb_round l + 2"
    using ancestors_belowD [OF below view_get [OF v k(1)] a(1)] k(2) by simp
  note vr = vote_round [OF bft a(2) ra]
  obtain b where b: "?get a = Some b"
    using causally_completeD [OF view_ofD(2) [OF v] k(1) a(1)] vr(1) low by auto
  with vr(2) view_get [OF v b] have "vb_reference l \<in> set (vb_ancestors b)"
    by (auto simp: find_Some_iff)
  then obtain l' where "?get (vb_reference l) = Some l'"
    using causally_completeD [OF view_ofD(2) [OF v] b, of "vb_reference l"] low by auto
  with view_get [OF v this] l show ?thesis by simp
qed

text \<open>What is linked to a block in one view is linked to it in any other view that has the block.\<close>

lemma linked_transfer:
  assumes v1: "view_of c U low s1" and v2: "view_of c U low s2" and low: "low \<le> n"
    and a: "get_uncommitted_block s2 p = Some anchor"
    and "linked_from (get_uncommitted_block s1) n (set (vb_ancestors anchor)) q" and "n \<le> br_round q"
  shows "linked_from (get_uncommitted_block s2) n (set (vb_ancestors anchor)) q
    \<and> get_uncommitted_block s2 q \<noteq> None"
  using assms(5,6)
proof induction
  case (start q)
  then show ?case
    using causally_completeD [OF view_ofD(2) [OF v2] a start(1)] low by (auto intro: linked_from.start)
next
  case (step r b a')
  then have IH: "linked_from (get_uncommitted_block s2) n (set (vb_ancestors anchor)) r"
    and "get_uncommitted_block s2 r \<noteq> None" by auto
  then obtain b' where b': "get_uncommitted_block s2 r = Some b'" by blast
  have "b' = b" using view_get [OF v1 step.hyps(3)] view_get [OF v2 b'] by simp
  with step.hyps(4) have a': "a' \<in> set (vb_ancestors b')" by simp
  show ?case
  proof
    show "linked_from (get_uncommitted_block s2) n (set (vb_ancestors anchor)) a'"
      using IH step.hyps(2) b' a' by (rule linked_from.step)
    show "get_uncommitted_block s2 a' \<noteq> None"
      using causally_completeD [OF view_ofD(2) [OF v2] b' a'] step.prems low by auto
  qed
qed

text \<open>The hypotheses under which two views decide a slot.\<close>

definition decidable_slot :: "committee \<Rightarrow> round \<Rightarrow> base_committer \<Rightarrow> slot \<Rightarrow> bool" where
  "decidable_slot c low bc sl \<longleftrightarrow>
     three_round_waves c bc \<and> leader_round bc (wave_number bc (sl_round sl)) = sl_round sl
     \<and> sl_round sl + 3 < 2 ^ 32 \<and> low \<le> sl_round sl"

lemma decidable_slotD:
  assumes "decidable_slot c low bc sl"
  shows "three_round_waves c bc" and "leader_round bc (wave_number bc (sl_round sl)) = sl_round sl"
    and "sl_round sl + 3 < 2 ^ 32" and "low \<le> sl_round sl"
  using assms by (auto simp: decidable_slot_def)

lemma direct_direct:
  assumes bft: "bft_dag c H U" and v1: "view_of c U low s1" and v2: "view_of c U low s2"
    and d: "decidable_slot c low bc sl"
    and r1: "try_direct_decide bc s1 sl = Some st1" "is_decided st1"
    and r2: "try_direct_decide bc s2 sl = Some st2" "is_decided st2"
  shows "st1 = st2"
proof -
  note dD = decidable_slotD [OF d]
  have no: False
    if "cm_quorum_threshold c \<le> weight_of (stake_at c) (blamers U sl)"
      and sb: "slot_block s sl l" and v: "view_of c U low s"
      and "cm_quorum_threshold c \<le> weight_of (stake_at c) (certifiers U c (sl_round sl + 2) l)" for s l
  proof -
    note f = slot_block_facts [OF bft v sb]
    have "certified U c l" using that(4) f(3) by (intro quorum_certifiers_certified [OF bft]) simp
    then show False using blame_excludes_certificate [OF bft that(1) f(2)] by (auto simp: certified_def)
  qed
  show ?thesis
  proof (rule direct_outcome [OF bft v1 dD r1(1)])
    assume s1: "st1 = Skip sl" "cm_quorum_threshold c \<le> weight_of (stake_at c) (blamers U sl)"
    show ?thesis
      by (rule direct_outcome [OF bft v2 dD r2(1)]) (use s1 r2(2) no [OF s1(2) _ v2] in auto)
  next
    fix l1 assume c1: "st1 = Commit l1" "slot_block s1 sl l1"
      "cm_quorum_threshold c \<le> weight_of (stake_at c) (certifiers U c (sl_round sl + 2) l1)"
    note f1 = slot_block_facts [OF bft v1 c1(2)]
    have cert1: "certified U c l1" using c1(3) f1(3) by (intro quorum_certifiers_certified [OF bft]) simp
    show ?thesis
    proof (rule direct_outcome [OF bft v2 dD r2(1)])
      assume "cm_quorum_threshold c \<le> weight_of (stake_at c) (blamers U sl)"
      from no [OF this c1(2) v1 c1(3)] show ?thesis ..
    next
      fix l2 assume c2: "st2 = Commit l2" "slot_block s2 sl l2"
        "cm_quorum_threshold c \<le> weight_of (stake_at c) (certifiers U c (sl_round sl + 2) l2)"
      note f2 = slot_block_facts [OF bft v2 c2(2)]
      have "certified U c l2" using c2(3) f2(3) by (intro quorum_certifiers_certified [OF bft]) simp
      with certified_unique [OF bft cert1 _ f1(1) f2(1)] f1(2) f2(2) have "l1 = l2" by simp
      with c1 c2 show ?thesis by simp
    qed (use r2(2) in simp)
  qed (use r1(2) in simp)
qed

lemma direct_anchor:
  assumes bft: "bft_dag c H U" and v1: "view_of c U low s1" and v2: "view_of c U low s2"
    and d: "decidable_slot c low bc sl"
    and r1: "try_direct_decide bc s1 sl = Some st1" "is_decided st1"
    and anchor: "get_uncommitted_block s2 p = Some anchor" "sl_round sl + 3 \<le> br_round p"
    and r2: "decide_leader_from_anchor bc s2 anchor sl = Some st2"
  shows "st1 = st2"
proof -
  note dD = decidable_slotD [OF d]
  let ?get = "get_uncommitted_block s2" and ?n = "sl_round sl + 2"
  show ?thesis
  proof (rule direct_outcome [OF bft v1 dD r1(1)])
    assume s1: "st1 = Skip sl" and bl: "cm_quorum_threshold c \<le> weight_of (stake_at c) (blamers U sl)"
    show ?thesis
    proof (rule anchor_outcome [OF bft v2 dD r2])
      fix l q k assume sb: "slot_block s2 sl l" and q: "?get q = Some k" "certifies U c k l"
        "linked_from ?get ?n (set (vb_ancestors anchor)) q \<and> br_round q = ?n"
      note f = slot_block_facts [OF bft v2 sb]
      have "\<not> certifies U c k l"
        using blame_excludes_certificate [OF bft bl f(2) view_get [OF v2 q(1)]] q(3) f(3) by simp
      with q show ?thesis by simp
    qed (simp add: s1)
  next
    fix l1 assume c1: "st1 = Commit l1" and sb1: "slot_block s1 sl l1"
      and quo: "cm_quorum_threshold c \<le> weight_of (stake_at c) (certifiers U c ?n l1)"
    note f1 = slot_block_facts [OF bft v1 sb1]
    have cert1: "certified U c l1" using quo f1(3) by (intro quorum_certifiers_certified [OF bft]) simp
    let ?L = "{r. linked_from ?get ?n (set (vb_ancestors anchor)) r \<and> br_round r = ?n \<and> ?get r \<noteq> None}"
    let ?C = "{r. \<exists>b. U r = Some b \<and> br_round r = ?n \<and> certifies U c b l1}"
    have "cm_quorum_threshold c \<le> weight_of (stake_at c) (br_author ` ?L)"
      using linked_quorum [OF bft v2 _ anchor(1), of ?n] anchor(2) dD(4) by simp
    moreover have "certifiers U c ?n l1 = br_author ` ?C" by (auto simp: certifiers_def)
    then have "cm_quorum_threshold c \<le> weight_of (stake_at c) (br_author ` ?C)" using quo by simp
    ultimately have "\<exists>r. r \<in> ?L \<and> r \<in> ?C"
      using view_get [OF v2] by (intro quorums_share_block [OF bft, where n = ?n]) auto
    then obtain r k where link: "linked_from ?get ?n (set (vb_ancestors anchor)) r \<and> br_round r = ?n"
      and k: "?get r = Some k" and cert: "certifies U c k l1"
      using view_get [OF v2] by fastforce
    have here: "?get (vb_reference l1) = Some l1"
      using certificate_brings_leader [OF bft v2 _ f1(1) k _ cert] link f1(3) dD(4) by simp
    then have sb: "slot_block s2 sl l1" using f1(2) by (auto simp: slot_block_def)
    show ?thesis
    proof (rule anchor_outcome [OF bft v2 dD r2])
      fix l q k' assume st2: "st2 = Commit l" and sb2: "slot_block s2 sl l" and q: "?get q = Some k'"
        "certifies U c k' l" "linked_from ?get ?n (set (vb_ancestors anchor)) q \<and> br_round q = ?n"
      note f2 = slot_block_facts [OF bft v2 sb2]
      have "certified U c l" using q view_get [OF v2 q(1)] f2(3) by (auto simp: certified_def)
      with certified_unique [OF bft cert1 _ f1(1) f2(1)] f1(2) f2(2) have "l1 = l" by simp
      with c1 st2 show ?thesis by simp
    next
      assume "\<And>l q k. slot_block s2 sl l \<Longrightarrow>
        linked_from ?get ?n (set (vb_ancestors anchor)) q \<and> br_round q = ?n \<Longrightarrow>
        ?get q = Some k \<Longrightarrow> \<not> certifies U c k l"
      with sb link k cert show ?thesis by blast
    qed
  qed (use r1(2) in simp)
qed

lemma anchor_anchor:
  assumes bft: "bft_dag c H U" and v1: "view_of c U low s1" and v2: "view_of c U low s2"
    and d: "decidable_slot c low bc sl"
    and a1: "get_uncommitted_block s1 p = Some anchor" and a2: "get_uncommitted_block s2 p = Some anchor"
    and r1: "decide_leader_from_anchor bc s1 anchor sl = Some st1"
    and r2: "decide_leader_from_anchor bc s2 anchor sl = Some st2"
  shows "st1 = st2"
proof -
  note dD = decidable_slotD [OF d]
  let ?n = "sl_round sl + 2"
  have commit: "st2 = Commit l"
    if v1: "view_of c U low s1" and v2: "view_of c U low s2" and a2: "get_uncommitted_block s2 p = Some anchor"
      and r2: "decide_leader_from_anchor bc s2 anchor sl = Some st2"
      and sb1: "slot_block s1 sl l"
      and link: "linked_from (get_uncommitted_block s1) ?n (set (vb_ancestors anchor)) q \<and> br_round q = ?n"
      and k: "get_uncommitted_block s1 q = Some k" and cert: "certifies U c k l" for s1 s2 st2 l q k
  proof -
    note f1 = slot_block_facts [OF bft v1 sb1]
    have link2: "linked_from (get_uncommitted_block s2) ?n (set (vb_ancestors anchor)) q"
      and "get_uncommitted_block s2 q \<noteq> None"
      using linked_transfer [OF v1 v2 _ a2 conjunct1 [OF link]] link dD(4) by auto
    then obtain k2 where "get_uncommitted_block s2 q = Some k2" by blast
    with view_get [OF v1 k] view_get [OF v2 this] have k2: "get_uncommitted_block s2 q = Some k" by simp
    have here: "get_uncommitted_block s2 (vb_reference l) = Some l"
      using certificate_brings_leader [OF bft v2 _ f1(1) k2 _ cert] link f1(3) dD(4) by simp
    then have sb: "slot_block s2 sl l" using f1(2) by (auto simp: slot_block_def)
    have cert1: "certified U c l" using cert view_get [OF v1 k] link f1(3) by (auto simp: certified_def)
    show ?thesis
    proof (rule anchor_outcome [OF bft v2 dD r2])
      fix l2 q2 k' assume st2: "st2 = Commit l2" and sb2: "slot_block s2 sl l2"
        and q: "get_uncommitted_block s2 q2 = Some k'" "certifies U c k' l2"
        "linked_from (get_uncommitted_block s2) ?n (set (vb_ancestors anchor)) q2 \<and> br_round q2 = ?n"
      note f2 = slot_block_facts [OF bft v2 sb2]
      have "certified U c l2" using q view_get [OF v2 q(1)] f2(3) by (auto simp: certified_def)
      with certified_unique [OF bft cert1 _ f1(1) f2(1)] f1(2) f2(2) have "l = l2" by simp
      with st2 show ?thesis by simp
    next
      assume "\<And>l q k. slot_block s2 sl l \<Longrightarrow>
        linked_from (get_uncommitted_block s2) ?n (set (vb_ancestors anchor)) q \<and> br_round q = ?n \<Longrightarrow>
        get_uncommitted_block s2 q = Some k \<Longrightarrow> \<not> certifies U c k l"
      with sb link2 link k2 cert show ?thesis by blast
    qed
  qed
  show ?thesis
  proof (rule anchor_outcome [OF bft v1 dD r1])
    fix l q k assume "st1 = Commit l" "slot_block s1 sl l" "get_uncommitted_block s1 q = Some k"
      "certifies U c k l"
      "linked_from (get_uncommitted_block s1) ?n (set (vb_ancestors anchor)) q \<and> br_round q = ?n"
    with commit [OF v1 v2 a2 r2] show ?thesis by blast
  next
    assume s1: "st1 = Skip sl"
    show ?thesis
    proof (rule anchor_outcome [OF bft v2 dD r2])
      fix l q k assume "slot_block s2 sl l" "get_uncommitted_block s2 q = Some k" "certifies U c k l"
        "linked_from (get_uncommitted_block s2) ?n (set (vb_ancestors anchor)) q \<and> br_round q = ?n"
      with commit [OF v2 v1 a1 r1] s1 show ?thesis by blast
    qed (simp add: s1)
  qed
qed

end
