(* ===== verification/Commit_Sequence.thy ===== *)
theory Commit_Sequence
  imports Commit_Agreement "HOL-Library.Sublist"
begin

text \<open>
  Agreement on the sequence of leaders.  The list of leaders an authority with the lower horizon
  builds corresponds, entry by entry, to the lower part of the list of the other authority; where
  both entries are decided they are equal, because the anchors of the indirect rule are equal.
\<close>

section \<open>Anchors\<close>

fun first_anchor :: "leader_status list \<Rightarrow> verified_block option" where
  "first_anchor [] = None"
| "first_anchor (Commit anchor # xs) = Some anchor"
| "first_anchor (Skip _ # xs) = first_anchor xs"
| "first_anchor (Undecided _ # xs) = None"

lemma anchor_loop_eq:
  "anchor_loop bc s sl xs =
     (case first_anchor xs of None \<Rightarrow> Some (Undecided sl) | Some a \<Rightarrow> decide_leader_from_anchor bc s a sl)"
  by (induction xs rule: first_anchor.induct) auto

lemma first_anchor_in: "first_anchor xs = Some a \<Longrightarrow> Commit a \<in> set xs"
  by (induction xs rule: first_anchor.induct) auto

definition agree :: "leader_status \<Rightarrow> leader_status \<Rightarrow> bool" where
  "agree x y \<longleftrightarrow> ls_round x = ls_round y \<and> (is_decided x \<longrightarrow> is_decided y \<longrightarrow> x = y)"

lemma first_anchor_agree:
  assumes "list_all2 agree xs ys" and "first_anchor xs = Some a" and "first_anchor (ys @ es) = Some b"
  shows "a = b"
  using assms
proof (induction xs ys rule: list_all2_induct)
  case (Cons x xs y ys)
  then show ?case by (cases x; cases y) (auto simp: agree_def)
qed simp

lemma agree_filter_round:
  assumes "list_all2 agree xs ys"
  shows "list_all2 agree (filter (\<lambda>x. n \<le> ls_round x) xs) (filter (\<lambda>x. n \<le> ls_round x) ys)"
  using assms by (induction xs ys rule: list_all2_induct) (auto simp: agree_def)

section \<open>Statuses of a view\<close>

definition status_of_view :: "dag_state \<Rightarrow> leader_status \<Rightarrow> bool" where
  "status_of_view s st \<longleftrightarrow> (\<forall>b. st = Commit b \<longrightarrow> get_uncommitted_block s (vb_reference b) = Some b)"

lemma decide_leader_cases:
  assumes "decide_leader bc s sl leaders = Some st"
  obtains (direct) "try_direct_decide bc s sl = Some (fst st)" and "is_decided (fst st)"
  | (undecided) "fst st = Undecided sl"
  | (anchor) a where "first_anchor (filter (\<lambda>x. add_u32 (sl_round sl) (bo_wave_length (bc_options bc)) \<le> ls_round x)
                                 (map fst leaders)) = Some a"
      and "decide_leader_from_anchor bc s a sl = Some (fst st)"
  using assms
  by (auto simp: decide_leader_def try_indirect_decide_def anchor_loop_eq
      split: Option.bind_splits if_splits option.splits)

lemma decide_leader_status:
  assumes bft: "bft_dag c H U" and v: "view_of c U low s" and d: "decidable_slot c low bc sl"
    and res: "decide_leader bc s sl leaders = Some st"
  shows "ls_round (fst st) = sl_round sl" and "status_of_view s (fst st)"
proof -
  note dD = decidable_slotD [OF d]
  have commit: "ls_round (Commit l) = sl_round sl \<and> status_of_view s (Commit l)" if "slot_block s sl l" for l
    using slot_block_facts [OF bft v that] by (simp add: status_of_view_def)
  have "ls_round (fst st) = sl_round sl \<and> status_of_view s (fst st)"
    using res
  proof (cases rule: decide_leader_cases)
    case direct
    show ?thesis
      by (rule direct_outcome [OF bft v dD direct(1)]) (use commit in \<open>auto simp: status_of_view_def\<close>)
  next
    case undecided
    then show ?thesis by (simp add: status_of_view_def)
  next
    case (anchor a)
    show ?thesis
      by (rule anchor_outcome [OF bft v dD anchor(2)]) (use commit in \<open>auto simp: status_of_view_def\<close>)
  qed
  then show "ls_round (fst st) = sl_round sl" and "status_of_view s (fst st)" by auto
qed

lemma anchor_in_view:
  assumes bft: "bft_dag c H U" and v: "view_of c U low s" and d: "decidable_slot c low bc sl"
    and ok: "\<forall>x \<in> set leaders. status_of_view s (fst x)"
    and a: "first_anchor (filter (\<lambda>x. add_u32 (sl_round sl) (bo_wave_length (bc_options bc)) \<le> ls_round x)
              (map fst leaders)) = Some a"
  shows "get_uncommitted_block s (vb_reference a) = Some a" and "sl_round sl + 3 \<le> vb_round a"
proof -
  note dD = decidable_slotD [OF d]
  have "bo_wave_length (bc_options bc) = 3"
    using dD(1) by (simp add: three_round_waves_def MINIMUM_WAVE_LENGTH_def)
  then have "add_u32 (sl_round sl) (bo_wave_length (bc_options bc)) = sl_round sl + 3"
    using dD(3) by (simp add: add_u32_small)
  with first_anchor_in [OF a] have "Commit a \<in> set (map fst leaders)" and "sl_round sl + 3 \<le> vb_round a"
    by auto
  with ok show "get_uncommitted_block s (vb_reference a) = Some a" and "sl_round sl + 3 \<le> vb_round a"
    by (force simp: status_of_view_def)+
qed

lemma decide_leader_agree:
  assumes bft: "bft_dag c H U" and v1: "view_of c U low s1" and v2: "view_of c U low s2"
    and d: "decidable_slot c low bc sl"
    and r1: "decide_leader bc s1 sl ls1 = Some st1" and r2: "decide_leader bc s2 sl (ls2 @ es) = Some st2"
    and ok1: "\<forall>x \<in> set ls1. status_of_view s1 (fst x)"
    and ok2: "\<forall>x \<in> set (ls2 @ es). status_of_view s2 (fst x)"
    and ag: "list_all2 agree (map fst ls1) (map fst ls2)"
  shows "agree (fst st1) (fst st2)"
proof -
  let ?P = "\<lambda>x. add_u32 (sl_round sl) (bo_wave_length (bc_options bc)) \<le> ls_round x"
  have "fst st1 = fst st2" if dec: "is_decided (fst st1)" "is_decided (fst st2)"
    using r1
  proof (cases rule: decide_leader_cases)
    case direct1: direct
    show ?thesis using r2
    proof (cases rule: decide_leader_cases)
      case direct
      then show ?thesis using direct_direct [OF bft v1 v2 d direct1] by simp
    next
      case (anchor a)
      note av = anchor_in_view [OF bft v2 d ok2 anchor(1)]
      show ?thesis using direct_anchor [OF bft v1 v2 d direct1 av(1) _ anchor(2)] av(2) by simp
    qed (use dec in simp)
  next
    case (anchor a1)
    note av1 = anchor_in_view [OF bft v1 d ok1 anchor(1)]
    show ?thesis using r2
    proof (cases rule: decide_leader_cases)
      case direct
      then show ?thesis using direct_anchor [OF bft v2 v1 d direct av1(1) _ anchor(2)] av1(2) by simp
    next
      case anchor2: (anchor a2)
      note av2 = anchor_in_view [OF bft v2 d ok2 anchor2(1)]
      have "list_all2 agree (filter ?P (map fst ls1)) (filter ?P (map fst ls2))"
        using ag by (rule agree_filter_round)
      moreover have "first_anchor (filter ?P (map fst ls2) @ filter ?P (map fst es)) = Some a2"
        using anchor2(1) by simp
      ultimately have "a1 = a2" using anchor(1) first_anchor_agree by blast
      with anchor_anchor [OF bft v1 v2 d av1(1) _ anchor(2)] av2(1) anchor2(2) show ?thesis by simp
    qed (use dec in simp)
  qed (use dec in simp)
  with decide_leader_status(1) [OF bft v1 d r1] decide_leader_status(1) [OF bft v2 d r2]
  show ?thesis by (simp add: agree_def)
qed

lemma decide_in_order_agree:
  assumes bft: "bft_dag c H U" and v1: "view_of c U low s1" and v2: "view_of c U low s2"
    and d: "\<And>bc sl. (bc, sl) \<in> set ds \<Longrightarrow> decidable_slot c low bc sl"
    and "decide_in_order s1 ds ls1 = Some res1" and "decide_in_order s2 ds (ls2 @ es) = Some res2"
    and "\<forall>x \<in> set ls1. status_of_view s1 (fst x)" and "\<forall>x \<in> set (ls2 @ es). status_of_view s2 (fst x)"
    and "list_all2 agree (map fst ls1) (map fst ls2)"
  shows "\<exists>ys. res2 = ys @ es \<and> list_all2 agree (map fst res1) (map fst ys)"
  using assms(4-)
proof (induction ds arbitrary: ls1 ls2)
  case (Cons x ds)
  obtain bc sl where x: "x = (bc, sl)" by (cases x)
  have dx: "decidable_slot c low bc sl" using Cons.prems(1) x by simp
  from Cons.prems(2) x obtain st1 where st1: "decide_leader bc s1 sl ls1 = Some st1"
    and rest1: "decide_in_order s1 ds (st1 # ls1) = Some res1" by (auto split: Option.bind_splits)
  from Cons.prems(3) x obtain st2 where st2: "decide_leader bc s2 sl (ls2 @ es) = Some st2"
    and rest2: "decide_in_order s2 ds ((st2 # ls2) @ es) = Some res2" by (auto split: Option.bind_splits)
  have "agree (fst st1) (fst st2)"
    using bft v1 v2 dx st1 st2 Cons.prems(4-6) by (rule decide_leader_agree)
  moreover have "status_of_view s1 (fst st1)" "status_of_view s2 (fst st2)"
    using decide_leader_status(2) [OF bft v1 dx st1] decide_leader_status(2) [OF bft v2 dx st2] by auto
  ultimately show ?case
    using Cons.prems by (intro Cons.IH [OF _ rest1 rest2]) auto
qed auto

lemma decide_in_order_status:
  assumes "bft_dag c H U" and "view_of c U low s"
    and "\<And>bc sl. (bc, sl) \<in> set ds \<Longrightarrow> decidable_slot c low bc sl"
    and "decide_in_order s ds ls = Some res" and "\<forall>x \<in> set ls. status_of_view s (fst x)"
  shows "\<forall>x \<in> set res. status_of_view s (fst x)"
  using assms(3-)
proof (induction ds arbitrary: ls)
  case (Cons x ds)
  obtain bc sl where x: "x = (bc, sl)" by (cases x)
  from Cons.prems(2) x obtain st where st: "decide_leader bc s sl ls = Some st"
    and rest: "decide_in_order s ds (st # ls) = Some res" by (auto split: Option.bind_splits)
  have "status_of_view s (fst st)"
    using decide_leader_status(2) [OF assms(1,2) _ st] Cons.prems(1) x by auto
  with Cons.prems show ?case by (intro Cons.IH [OF _ rest]) auto
qed simp

section \<open>The decided prefix\<close>

definition decided_prefix :: "leader_status list \<Rightarrow> leader_status list" where
  "decided_prefix xs = takeWhile is_decided (filter (\<lambda>x. ls_round x > 0) xs)"

lemma try_commit_decided_prefix:
  "map fst (takeWhile (\<lambda>(x, _). is_decided x) (filter (\<lambda>(x, _). ls_round x > 0) leaders))
     = decided_prefix (map fst leaders)"
  by (simp add: decided_prefix_def takeWhile_map filter_map comp_def split_def)

lemma decided_prefix_agree:
  assumes "list_all2 agree xs ys"
  shows "(\<exists>zs. decided_prefix (ys @ es) = decided_prefix xs @ zs)
       \<or> (\<exists>zs. decided_prefix xs = decided_prefix (ys @ es) @ zs)"
  using assms
proof (induction xs ys rule: list_all2_induct)
  case Nil
  show ?case by (simp add: decided_prefix_def)
next
  case (Cons x xs y ys)
  then show ?case
    by (auto simp: decided_prefix_def agree_def)
qed

section \<open>Two runs of the universal committer\<close>

lemma visiting_order_append:
  "visiting_order (rs @ rs') bcs = visiting_order rs bcs @ visiting_order rs' bcs"
  by (simp add: visiting_order_def)

lemma try_commit_leaders:
  assumes "try_commit uc s ld = Some out"
  obtains ds leaders where
    "scan_leaders ld (visiting_order (rev [sl_round ld..<Suc (ds_highest_accepted_round s - 2)])
       (rev (uc_committers uc))) = Some ds"
    and "decide_in_order s ds [] = Some leaders" and "out = decided_prefix (map fst leaders)"
proof -
  from assms obtain leaders where
    "decide_rounds s ld (rev (uc_committers uc))
       (rev [sl_round ld..<Suc (ds_highest_accepted_round s - 2)]) [] = Some leaders"
    and "out = decided_prefix (map fst leaders)"
    by (auto simp: try_commit_def Let_def try_commit_decided_prefix split: Option.bind_splits)
  with decide_rounds_scan that show thesis by blast
qed

lemma scanned_decidable:
  assumes "view_of c U low s" and "low \<le> sl_round ld"
    and "\<forall>bc \<in> set (uc_committers uc). three_round_waves c bc"
    and "scan_leaders ld (visiting_order (rev [sl_round ld..<Suc (ds_highest_accepted_round s - 2)])
       (rev (uc_committers uc))) = Some ds"
    and "(bc, sl) \<in> set ds"
  shows "decidable_slot c low bc sl"
proof -
  from scan_leaders_sound [OF assms(4,5)] have el: "elect_leader bc (sl_round sl) = Some (Some sl)"
    and inn: "sl_round ld \<le> sl_round sl" "sl_round sl \<le> ds_highest_accepted_round s - 2"
      "bc \<in> set (uc_committers uc)"
    by (auto simp: visiting_order_def)
  have "sl_round sl + 3 < 2 ^ 32" using inn(2) view_ofD(3) [OF assms(1)] by simp
  with elect_leader_round [OF el] inn assms(2,3) show ?thesis by (simp add: decidable_slot_def)
qed

text \<open>The leaders above a horizon come first in the scan, and the last decided slot is not among
  them.\<close>

lemma scan_split:
  assumes "sl_round ld \<le> n" and "n \<le> m"
    and "scan_leaders ld (visiting_order (rev [sl_round ld..<Suc m]) bcs) = Some ds2"
    and "scan_leaders ld (visiting_order (rev [sl_round ld..<Suc n]) bcs) = Some ds1"
  shows "\<exists>above. scan_leaders ld (visiting_order (rev [Suc n..<Suc m]) bcs) = Some above \<and> ds2 = above @ ds1"
proof -
  let ?above = "visiting_order (rev [Suc n..<Suc m]) bcs"
  have "[sl_round ld..<Suc m] = [sl_round ld..<Suc n] @ [Suc n..<Suc m]"
    using assms(1,2) upt_add_eq_append [of "sl_round ld" "Suc n" "m - n"] by simp
  then have "visiting_order (rev [sl_round ld..<Suc m]) bcs
      = ?above @ visiting_order (rev [sl_round ld..<Suc n]) bcs"
    by (simp only: rev_append visiting_order_append)
  moreover have "\<not> (\<exists>(r, bc) \<in> set ?above. elect_leader bc r = Some (Some ld))"
    using assms(1) elect_leader_round by (fastforce simp: visiting_order_def)
  ultimately show ?thesis
    using assms(3,4) by (auto simp: scan_leaders_append split: Option.bind_splits)
qed

lemma try_commit_agree_le:
  assumes bft: "bft_dag c H U" and v1: "view_of c U low s1" and v2: "view_of c U low s2"
    and low: "low \<le> sl_round ld"
    and uc: "\<forall>bc \<in> set (uc_committers uc). three_round_waves c bc"
    and le: "ds_highest_accepted_round s1 \<le> ds_highest_accepted_round s2"
    and r1: "try_commit uc s1 ld = Some out1" and r2: "try_commit uc s2 ld = Some out2"
  shows "prefix out1 out2 \<or> prefix out2 out1"
proof -
  let ?h1 = "ds_highest_accepted_round s1 - 2" and ?h2 = "ds_highest_accepted_round s2 - 2"
  obtain ds1 ls1 where
    d1: "scan_leaders ld (visiting_order (rev [sl_round ld..<Suc ?h1]) (rev (uc_committers uc))) = Some ds1"
    and l1: "decide_in_order s1 ds1 [] = Some ls1" "out1 = decided_prefix (map fst ls1)"
    by (rule try_commit_leaders [OF r1])
  obtain ds2 ls2 where
    d2: "scan_leaders ld (visiting_order (rev [sl_round ld..<Suc ?h2]) (rev (uc_committers uc))) = Some ds2"
    and l2: "decide_in_order s2 ds2 [] = Some ls2" "out2 = decided_prefix (map fst ls2)"
    by (rule try_commit_leaders [OF r2])
  show ?thesis
  proof (cases "sl_round ld \<le> ?h1")
    case False
    with d1 l1 have "out1 = []" by (simp add: visiting_order_def decided_prefix_def)
    then show ?thesis by simp
  next
    case True
    have "?h1 \<le> ?h2" using le by simp
    from scan_split [OF True this d2 d1] obtain above where above: "ds2 = above @ ds1" by blast
    with l2(1) obtain es where es: "decide_in_order s2 above [] = Some es"
      and rest: "decide_in_order s2 ds1 ([] @ es) = Some ls2"
      by (auto simp: decide_in_order_append split: Option.bind_splits)
    have dec2: "decidable_slot c low bc sl" if "(bc, sl) \<in> set ds2" for bc sl
      using v2 low uc d2 that by (rule scanned_decidable)
    have "\<forall>x \<in> set es. status_of_view s2 (fst x)"
      using bft v2 _ es by (rule decide_in_order_status) (use dec2 above in auto)
    with decide_in_order_agree [OF bft v1 v2 _ l1(1) rest] dec2 above
    obtain ys where "ls2 = ys @ es" "list_all2 agree (map fst ls1) (map fst ys)" by auto
    then show ?thesis
      using decided_prefix_agree [of "map fst ls1" "map fst ys" "map fst es"] l1(2) l2(2)
      by (auto simp: prefix_def)
  qed
qed

section \<open>Committers of different authorities\<close>

text \<open>Of its context a committer uses the committee only, so the committers of two authorities that
  are built with the same parameters decide alike on equal states.\<close>

definition same_rules :: "base_committer \<Rightarrow> base_committer \<Rightarrow> bool" where
  "same_rules bc bc' \<longleftrightarrow>
     cx_committee (bc_context bc) = cx_committee (bc_context bc')
     \<and> bc_leader_schedule bc = bc_leader_schedule bc' \<and> bc_options bc = bc_options bc'"

lemma same_rules_rounds:
  assumes "same_rules bc bc'"
  shows "wave_number bc = wave_number bc'" and "leader_round bc = leader_round bc'"
    and "decision_round bc = decision_round bc'"
  using assms
  by (auto simp: same_rules_def wave_number_def leader_round_def decision_round_def fun_eq_iff)

lemma same_rules_elect: "same_rules bc bc' \<Longrightarrow> elect_leader bc r = elect_leader bc' r"
  using same_rules_rounds [of bc bc'] by (simp add: elect_leader_def same_rules_def)

lemma same_rules_decide:
  assumes "same_rules bc bc'"
  shows "decide_leader bc s sl ls = decide_leader bc' s sl ls"
proof -
  note r = same_rules_rounds [OF assms]
  have c: "cx_committee (bc_context bc) = cx_committee (bc_context bc')" "bc_options bc = bc_options bc'"
    using assms by (simp_all add: same_rules_def)
  have "try_direct_decide bc s sl = try_direct_decide bc' s sl" by (simp add: try_direct_decide_def r c cong: if_cong)
  moreover have "decide_leader_from_anchor bc s a sl = decide_leader_from_anchor bc' s a sl" for a
    by (simp add: decide_leader_from_anchor_def r c)
  then have "try_indirect_decide bc s sl xs = try_indirect_decide bc' s sl xs" for xs
    by (simp add: try_indirect_decide_def anchor_loop_eq c split: option.split)
  ultimately show ?thesis by (simp add: decide_leader_def cong: if_cong)
qed

lemma same_rules_decide_round:
  "list_all2 same_rules bcs bcs' \<Longrightarrow> decide_round s ld r bcs ls = decide_round s ld r bcs' ls"
  by (induction bcs bcs' arbitrary: ls rule: list_all2_induct)
    (simp_all add: same_rules_elect same_rules_decide cong: if_cong)

lemma same_rules_try_commit:
  assumes "list_all2 same_rules (uc_committers uc) (uc_committers uc')"
  shows "try_commit uc s ld = try_commit uc' s ld"
proof -
  have "decide_round s ld r (rev (uc_committers uc)) ls = decide_round s ld r (rev (uc_committers uc')) ls"
    for r ls using assms by (intro same_rules_decide_round) simp
  then have "decide_rounds s ld (rev (uc_committers uc)) rounds ls
      = decide_rounds s ld (rev (uc_committers uc')) rounds ls" for rounds ls
    by (induction rounds arbitrary: ls) (simp_all cong: if_cong)
  then show ?thesis by (simp add: try_commit_def)
qed

definition same_parameters :: "universal_committer_builder \<Rightarrow> universal_committer_builder \<Rightarrow> bool" where
  "same_parameters ub ub' \<longleftrightarrow>
     cx_committee (ub_context ub) = cx_committee (ub_context ub')
     \<and> ub_leader_schedule ub = ub_leader_schedule ub' \<and> ub_wave_length ub = ub_wave_length ub'
     \<and> ub_number_of_leaders ub = ub_number_of_leaders ub' \<and> ub_pipeline ub = ub_pipeline ub'"

lemma build_committers_same:
  assumes "same_parameters ub ub'" and "build_committers ub os = Some bcs"
    and "build_committers ub' os = Some bcs'"
  shows "list_all2 same_rules bcs bcs'"
  using assms(2,3)
proof (induction os arbitrary: bcs bcs')
  case (Cons x os)
  then show ?case
    using assms(1)
    by (cases x) (auto simp: BaseCommitter_new_def same_parameters_def same_rules_def
        split: Option.bind_splits if_splits)
qed simp

lemma build_committers_waves:
  assumes "build_committers ub os = Some bcs" and "ub_wave_length ub = MINIMUM_WAVE_LENGTH"
    and "bc \<in> set bcs"
  shows "three_round_waves (cx_committee (ub_context ub)) bc"
  using assms
proof (induction os arbitrary: bcs)
  case (Cons x os)
  then show ?case
    by (cases x) (auto simp: BaseCommitter_new_def three_round_waves_def split: Option.bind_splits if_splits)
qed simp

lemma built_committers_same:
  assumes "same_parameters ub ub'" and "UniversalCommitterBuilder_build ub = Some uc"
    and "UniversalCommitterBuilder_build ub' = Some uc'"
  shows "list_all2 same_rules (uc_committers uc) (uc_committers uc')"
  using assms build_committers_same [OF assms(1)]
  by (auto simp: UniversalCommitterBuilder_build_def Let_def same_parameters_def
      split: Option.bind_splits)

lemma built_committers_waves:
  assumes "UniversalCommitterBuilder_build ub = Some uc" and "ub_wave_length ub = MINIMUM_WAVE_LENGTH"
  shows "\<forall>bc \<in> set (uc_committers uc). three_round_waves (cx_committee (ub_context ub)) bc"
  using assms build_committers_waves
  by (auto simp: UniversalCommitterBuilder_build_def Let_def split: Option.bind_splits)

lemma try_commit_agree:
  assumes bft: "bft_dag c H U" and v: "view_of c U low s1" "view_of c U low s2"
    and low: "low \<le> sl_round ld" and par: "same_parameters ub1 ub2"
    and ub: "cx_committee (ub_context ub1) = c" "ub_wave_length ub1 = MINIMUM_WAVE_LENGTH"
    and b: "UniversalCommitterBuilder_build ub1 = Some uc1" "UniversalCommitterBuilder_build ub2 = Some uc2"
    and r: "try_commit uc1 s1 ld = Some out1" "try_commit uc2 s2 ld = Some out2"
  shows "prefix out1 out2 \<or> prefix out2 out1"
proof -
  have w: "\<forall>bc \<in> set (uc_committers uc1). three_round_waves c bc"
    using built_committers_waves [OF b(1) ub(2)] ub(1) by simp
  have r2: "try_commit uc1 s2 ld = Some out2"
    using same_rules_try_commit [OF built_committers_same [OF par b]] r(2) by simp
  show ?thesis
  proof (cases "ds_highest_accepted_round s1 \<le> ds_highest_accepted_round s2")
    case True
    show ?thesis using bft v low w True r(1) r2 by (rule try_commit_agree_le)
  next
    case False
    then have "prefix out2 out1 \<or> prefix out1 out2"
      by (intro try_commit_agree_le [OF bft v(2,1) low w _ r2 r(1)]) simp
    then show ?thesis by blast
  qed
qed

end
