(* ===== verification/Commit_Progress.thy ===== *)
theory Commit_Progress
  imports Commit_Sequence
begin

text \<open>
  The committer does not panic, and a leader with enough support is committed.  A view that holds
  the ancestors of all its blocks gives every unwrap of the commit rule a value, and no slot has two
  certified leaders in a DAG with less faulty stake than the validity threshold.
\<close>

section \<open>The pieces return\<close>

lemma blocks_at_round_defined:
  assumes "last_commit_round s < r" and "r + 1 < 2 ^ 32"
  shows "\<exists>bs. get_uncommitted_blocks_at_round s r = Some bs
    \<and> (\<forall>b. b \<in> set bs \<longleftrightarrow> (\<exists>q. get_uncommitted_block s q = Some b \<and> br_round q = r))"
  using blocks_at_round_eq [OF assms] blocks_at_round_set [OF _ assms(2)] by blast

lemma view_author:
  assumes "bft_dag c H U" and "view_of c U low s" and "get_uncommitted_block s q = Some b"
  shows "vb_reference b = q" and "vb_author b < committee_size c" and "vb_round b = br_round q"
proof -
  note r = bft_reference [OF assms(1) view_get [OF assms(2,3)]]
  show "vb_reference b = q" using r(1) .
  then show "vb_author b < committee_size c" "vb_round b = br_round q" using r(2) by auto
qed

lemma enough_leader_blame_defined:
  assumes bft: "bft_dag c H U" and v: "view_of c U low s"
    and r: "last_commit_round s < r" "r + 1 < 2 ^ 32"
  shows "enough_leader_blame c s r leader \<noteq> None"
proof -
  obtain bs where bs: "get_uncommitted_blocks_at_round s r = Some bs"
    and mem: "\<forall>b. b \<in> set bs \<longleftrightarrow> (\<exists>q. get_uncommitted_block s q = Some b \<and> br_round q = r)"
    using blocks_at_round_defined [OF r] by blast
  have "\<forall>a \<in> set (map vb_author (filter (is_blame leader) bs)). a < committee_size c"
    using mem view_author(2) [OF bft v] by auto
  from votes_reach_eq [OF bft_dagD(1) [OF bft] this] bs show ?thesis
    by (simp add: enough_leader_blame_def blame_loop_votes)
qed

lemma is_certificate_defined:
  assumes bft: "bft_dag c H U" and v: "view_of c U 0 s" and cache: "cache_ok (get_uncommitted_block s) l av"
    and k: "get_uncommitted_block s q = Some k"
  shows "is_certificate (get_uncommitted_block s) c k l av \<noteq> None"
proof -
  let ?get = "get_uncommitted_block s"
  have below: "ancestors_below ?get"
    unfolding ancestors_below_def
  proof (intro allI impI ballI)
    fix r b a assume "?get r = Some b" "a \<in> set (vb_ancestors b)"
    then show "br_round a < br_round r" using ancestors_belowD [OF bft_dagD(3) [OF bft] view_get [OF v]] by blast
  qed
  have comp: "causally_complete n ?get" for n
    using view_ofD(2) [OF v] by (auto simp: causally_complete_def)
  have "br_author r < committee_size c \<and> (\<exists>b. ?get r = Some b \<and> is_vote ?get b l \<noteq> None)"
    if r: "r \<in> set (vb_ancestors k)" for r
  proof -
    obtain b where b: "?get r = Some b" using causally_completeD [OF comp k r, of 0] by auto
    have "find_supported_block ?get (Slot_from (vb_reference l)) b \<noteq> None"
      using below comp b view_author(1) [OF bft v] by (rule find_supported_block_defined)
    then have "is_vote ?get b l \<noteq> None" by (auto simp: is_vote_def Let_def)
    with b bft_reference(2) [OF bft view_get [OF v b]] show ?thesis by auto
  qed
  then show ?thesis
    using certificate_loop_defined [OF bft_dagD(1) [OF bft] agg_inv_new cache] by (simp add: is_certificate_def)
qed

lemma support_loop_defined:
  assumes bft: "bft_dag c H U" and v: "view_of c U 0 s"
    and "\<forall>b \<in> set bs. \<exists>q. get_uncommitted_block s q = Some b"
    and "agg_inv c agg" and "cache_ok (get_uncommitted_block s) l av"
  shows "support_loop (get_uncommitted_block s) c l agg av bs \<noteq> None"
  using assms(3-)
proof (induction bs arbitrary: agg av)
  case (Cons b bs)
  let ?get = "get_uncommitted_block s"
  note ok = bft_dagD(1) [OF bft]
  obtain q where q: "?get q = Some b" using Cons.prems(1) by auto
  obtain res av' where ic: "is_certificate ?get c b l av = Some (res, av')"
    using is_certificate_defined [OF bft v Cons.prems(3) q] by auto
  note cache' = is_certificate_eq(1) [OF ok Cons.prems(3) ic]
  obtain reached agg' where add:
    "StakeAggregator_add QuorumThreshold agg (vb_author b) c = Some (reached, agg')" and inv': "agg_inv c agg'"
    using StakeAggregator_add_eq [OF ok Cons.prems(2) view_author(2) [OF bft v q], of QuorumThreshold] by auto
  show ?case
    using ic add Cons.IH [OF _ inv' cache'] Cons.IH [OF _ Cons.prems(2) cache'] Cons.prems(1) by auto
qed simp

lemma any_certificate_defined:
  assumes bft: "bft_dag c H U" and v: "view_of c U 0 s"
    and "\<forall>b \<in> set ks. \<exists>q. get_uncommitted_block s q = Some b"
    and "cache_ok (get_uncommitted_block s) l av"
  shows "any_certificate (get_uncommitted_block s) c l av ks \<noteq> None"
  using assms(3-)
proof (induction ks arbitrary: av)
  case (Cons k ks)
  let ?get = "get_uncommitted_block s"
  obtain q where q: "?get q = Some k" using Cons.prems(1) by auto
  obtain res av' where ic: "is_certificate ?get c k l av = Some (res, av')"
    using is_certificate_defined [OF bft v Cons.prems(2) q] by auto
  show ?case
    using ic Cons.IH [OF _ is_certificate_eq(1) [OF bft_dagD(1) [OF bft] Cons.prems(2) ic]] Cons.prems(1)
    by auto
qed simp

lemma stakes_of_eq:
  "\<forall>b \<in> set bs. vb_author b < committee_size c \<Longrightarrow> stakes_of c bs = Some (map (stake_at c \<circ> vb_author) bs)"
  by (induction bs) (simp_all add: committee_stake_eq)

lemma enough_leader_support_defined:
  assumes bft: "bft_dag c H U" and v: "view_of c U 0 s"
    and r: "last_commit_round s < dr" "dr + 1 < 2 ^ 32"
  shows "enough_leader_support c s dr l \<noteq> None"
proof -
  obtain bs where bs: "get_uncommitted_blocks_at_round s dr = Some bs"
    and mem: "\<forall>b. b \<in> set bs \<longleftrightarrow> (\<exists>q. get_uncommitted_block s q = Some b \<and> br_round q = dr)"
    using blocks_at_round_defined [OF r] by blast
  have "\<forall>b \<in> set bs. vb_author b < committee_size c" using mem view_author(2) [OF bft v] by auto
  then have "stakes_of c bs = Some (map (stake_at c \<circ> vb_author) bs)" by (rule stakes_of_eq)
  moreover have "support_loop (get_uncommitted_block s) c l StakeAggregator_new Map.empty bs \<noteq> None"
    using mem by (intro support_loop_defined [OF bft v _ agg_inv_new cache_ok_empty]) blast
  ultimately show ?thesis using bs by (auto simp: enough_leader_support_def)
qed

section \<open>At most one certified leader\<close>

lemma distinct_singleton:
  assumes "distinct xs" and "\<And>x y. x \<in> set xs \<Longrightarrow> y \<in> set xs \<Longrightarrow> x = y"
  shows "length xs \<le> 1"
proof -
  have "card (set xs) \<le> 1" using assms(2) by (simp add: card_le_Suc0_iff_eq)
  then show ?thesis using distinct_card [OF assms(1)] by simp
qed

lemma slot_filter_single:
  assumes bft: "bft_dag c H U" and v: "view_of c U low s"
    and res: "filter_opt P (get_uncommitted_blocks_at_slot s sl) = Some ls"
    and cert: "\<And>l. slot_block s sl l \<Longrightarrow> P l = Some True \<Longrightarrow> certified U c l"
  shows "length ls \<le> 1"
proof (rule distinct_singleton)
  note f = filter_opt_eq [OF res]
  obtain cx where inv: "dag_inv cx s" using v by (auto simp: view_of_def)
  have "distinct (get_uncommitted_blocks_at_slot s sl)"
    using blocks_at_slot_distinct [OF inv] by (simp add: distinct_map)
  then show "distinct ls" using f by simp
  fix x y assume "x \<in> set ls" "y \<in> set ls"
  then have x: "slot_block s sl x" "P x = Some True" and y: "slot_block s sl y" "P y = Some True"
    using f by (auto simp: blocks_at_slot_set slot_block_def)
  show "x = y"
    using certified_unique [OF bft cert [OF x] cert [OF y]]
      slot_block_facts [OF bft v x(1)] slot_block_facts [OF bft v y(1)] by simp
qed

lemma try_direct_decide_defined:
  assumes bft: "bft_dag c H U" and v: "view_of c U 0 s" and d: "decidable_slot c 0 bc sl"
    and r: "last_commit_round s \<le> sl_round sl"
  shows "try_direct_decide bc s sl \<noteq> None"
proof -
  note dD = decidable_slotD [OF d]
  let ?P = "enough_leader_support c s (sl_round sl + 2)"
  have c: "cx_committee (bc_context bc) = c" using dD(1) by (simp add: three_round_waves_def)
  obtain cx where inv: "dag_inv cx s" using v by (auto simp: view_of_def)
  have vr: "add_u32 (sl_round sl) 1 = sl_round sl + 1" using dD(3) by (intro add_u32_small) simp
  note dr = decision_round_eq [OF dD(1-3)]
  obtain blame where bl: "enough_leader_blame c s (sl_round sl + 1) (sl_authority sl) = Some blame"
    using enough_leader_blame_defined [OF bft v, of "sl_round sl + 1"] r dD(3) by auto
  have "filter_opt ?P (get_uncommitted_blocks_at_slot s sl) \<noteq> None"
    using r dD(3) by (intro filter_opt_defined enough_leader_support_defined [OF bft v]) simp_all
  then obtain ls where ls: "filter_opt ?P (get_uncommitted_blocks_at_slot s sl) = Some ls" by blast
  have "length ls \<le> 1"
  proof (rule slot_filter_single [OF bft v ls])
    fix l assume sb: "slot_block s sl l" and p: "?P l = Some True"
    note f = slot_block_facts [OF bft v sb]
    have "cm_quorum_threshold c \<le> weight_of (stake_at c) (certifiers (get_uncommitted_block s) c (vb_round l + 2) l)"
      using enough_leader_support_imp [OF bft_dagD(1) [OF bft] inv _ p] dD(3) f(3) by simp
    also have "\<dots> \<le> weight_of (stake_at c) (certifiers U c (vb_round l + 2) l)"
      by (intro weight_of_mono certifiers_mono [OF v bft] members_finite_subset [OF certifiers_members [OF bft]]) auto
    finally show "certified U c l" by (rule quorum_certifiers_certified [OF bft])
  qed
  then show ?thesis using bl ls by (auto simp: try_direct_decide_def Let_def c vr [simplified] dr split: list.split)
qed

lemma decide_leader_from_anchor_defined:
  assumes bft: "bft_dag c H U" and v: "view_of c U 0 s" and d: "decidable_slot c 0 bc sl"
    and r: "last_commit_round s \<le> sl_round sl"
    and a: "get_uncommitted_block s p = Some anchor" "sl_round sl + 3 \<le> br_round p"
  shows "decide_leader_from_anchor bc s anchor sl \<noteq> None"
proof -
  note dD = decidable_slotD [OF d]
  let ?get = "get_uncommitted_block s"
  have c: "cx_committee (bc_context bc) = c" using dD(1) by (simp add: three_round_waves_def)
  note dr = decision_round_eq [OF dD(1-3)]
  have below: "ancestors_below ?get"
    using bft_dagD(3) [OF bft] view_get [OF v] by (fastforce simp: ancestors_below_def)
  have comp: "causally_complete (sl_round sl + 2) ?get"
    using view_ofD(2) [OF v] by (auto simp: causally_complete_def)
  have ra: "sl_round sl + 2 < vb_round anchor" using view_author(3) [OF bft v a(1)] a(2) by simp
  obtain ks where ks: "ancestors_at_uncommitted_round s anchor (sl_round sl + 2) = Some ks"
    using ancestors_at_round_defined [OF below comp a(1) ra] r by auto
  have km: "\<exists>q. ?get q = Some k \<and> br_round q = sl_round sl + 2" if "k \<in> set ks" for k
    using ancestors_at_round_set [OF ks, of k] that by blast
  let ?P = "\<lambda>l. any_certificate ?get c l Map.empty ks"
  have "filter_opt ?P (get_uncommitted_blocks_at_slot s sl) \<noteq> None"
    using km by (intro filter_opt_defined any_certificate_defined [OF bft v _ cache_ok_empty]) blast
  then obtain ls where ls: "filter_opt ?P (get_uncommitted_blocks_at_slot s sl) = Some ls" by blast
  have "length ls \<le> 1"
  proof (rule slot_filter_single [OF bft v ls])
    fix l assume sb: "slot_block s sl l" and p: "?P l = Some True"
    note f = slot_block_facts [OF bft v sb]
    obtain k where k: "k \<in> set ks" "certifies ?get c k l"
      using any_certificate_eq [OF bft_dagD(1) [OF bft] cache_ok_empty p] by auto
    obtain q where q: "?get q = Some k" "br_round q = vb_round l + 2" using km [OF k(1)] f(3) by auto
    have "certifies U c k l" using certifies_view [OF bft v _ q] k(2) by simp
    with q view_get [OF v q(1)] show "certified U c l" by (auto simp: certified_def)
  qed
  then show ?thesis
    using ks ls by (auto simp: decide_leader_from_anchor_def Let_def c dr split: list.split)
qed

lemma decide_leader_defined:
  assumes bft: "bft_dag c H U" and v: "view_of c U 0 s" and d: "decidable_slot c 0 bc sl"
    and r: "last_commit_round s \<le> sl_round sl"
    and ok: "\<forall>x \<in> set leaders. status_of_view s (fst x)"
  shows "\<exists>st. decide_leader bc s sl leaders = Some st \<and> status_of_view s (fst st)"
proof -
  let ?xs = "filter (\<lambda>x. add_u32 (sl_round sl) (bo_wave_length (bc_options bc)) \<le> ls_round x) (map fst leaders)"
  have "try_indirect_decide bc s sl (map fst leaders) \<noteq> None"
  proof (cases "first_anchor ?xs")
    case (Some a)
    have "decide_leader_from_anchor bc s a sl \<noteq> None"
      using anchor_in_view [OF bft v d ok Some]
      by (intro decide_leader_from_anchor_defined [OF bft v d r]) auto
    with Some show ?thesis by (simp add: try_indirect_decide_def anchor_loop_eq)
  qed (simp add: try_indirect_decide_def anchor_loop_eq)
  with try_direct_decide_defined [OF bft v d r] obtain st where "decide_leader bc s sl leaders = Some st"
    by (fastforce simp: decide_leader_def)
  with decide_leader_status(2) [OF bft v d] show ?thesis by blast
qed

section \<open>The universal committer returns\<close>

text \<open>The schedule gives every committer a leader for each of its rounds.\<close>

definition schedule_total :: "universal_committer \<Rightarrow> bool" where
  "schedule_total uc \<longleftrightarrow>
     (\<forall>bc \<in> set (uc_committers uc). \<forall>r. bc_leader_schedule bc r (bo_leader_offset (bc_options bc)) \<noteq> None)"

lemma elect_leader_defined:
  assumes "schedule_total uc" and "bc \<in> set (uc_committers uc)"
  shows "elect_leader bc r \<noteq> None"
proof -
  obtain a where "bc_leader_schedule bc r (bo_leader_offset (bc_options bc)) = Some a"
    using assms unfolding schedule_total_def by blast
  then show ?thesis by (simp add: elect_leader_def Let_def)
qed

lemma decide_round_defined:
  assumes bft: "bft_dag c H U" and v: "view_of c U 0 s" and sched: "schedule_total uc"
    and lc: "last_commit_round s \<le> r" and hi: "r + 3 < 2 ^ 32"
    and w: "\<forall>bc \<in> set (uc_committers uc). three_round_waves c bc"
    and "set bcs \<subseteq> set (uc_committers uc)" and "\<forall>x \<in> set leaders. status_of_view s (fst x)"
  shows "\<exists>stop leaders'. decide_round s ld r bcs leaders = Some (stop, leaders')
           \<and> (\<forall>x \<in> set leaders'. status_of_view s (fst x))"
  using assms(7,8)
proof (induction bcs arbitrary: leaders)
  case (Cons bc bcs)
  then have bc: "bc \<in> set (uc_committers uc)" and sub: "set bcs \<subseteq> set (uc_committers uc)" by auto
  obtain el where el: "elect_leader bc r = Some el" using elect_leader_defined [OF sched bc] by auto
  show ?case
  proof (cases el)
    case None
    with el Cons.IH [OF sub Cons.prems(2)] show ?thesis by simp
  next
    case (Some sl)
    with elect_leader_round [of bc r sl] el w bc hi have "decidable_slot c 0 bc sl" "sl_round sl = r"
      by (auto simp: decidable_slot_def)
    with decide_leader_defined [OF bft v _ _ Cons.prems(2)] lc obtain st where
      st: "decide_leader bc s sl leaders = Some st" "status_of_view s (fst st)" by blast
    then have "\<forall>x \<in> set (st # leaders). status_of_view s (fst x)" using Cons.prems(2) by simp
    from Cons.IH [OF sub this] st(1) el Some Cons.prems(2) show ?thesis by auto
  qed
qed auto

lemma try_commit_defined_gen:
  assumes bft: "bft_dag c H U" and v: "view_of c U 0 s" and sched: "schedule_total uc"
    and w: "\<forall>bc \<in> set (uc_committers uc). three_round_waves c bc"
    and lc: "last_commit_round s \<le> sl_round ld"
  shows "\<exists>out. try_commit uc s ld = Some out"
proof -
  have "\<exists>ls. decide_rounds s ld (rev (uc_committers uc)) rounds leaders = Some ls"
    if "\<forall>r \<in> set rounds. last_commit_round s \<le> r \<and> r + 3 < 2 ^ 32"
      and "\<forall>x \<in> set leaders. status_of_view s (fst x)" for rounds leaders
    using that
  proof (induction rounds arbitrary: leaders)
    case (Cons r rounds)
    from Cons.prems(1) have lr: "last_commit_round s \<le> r" and hr: "r + 3 < 2 ^ 32" by auto
    obtain stop leaders' where "decide_round s ld r (rev (uc_committers uc)) leaders = Some (stop, leaders')"
      and "\<forall>x \<in> set leaders'. status_of_view s (fst x)"
      using decide_round_defined [OF bft v sched lr hr w _ Cons.prems(2), of "rev (uc_committers uc)" ld] by auto
    then show ?case using Cons.IH [of leaders'] Cons.prems(1) by auto
  qed simp
  moreover have "\<forall>r \<in> set (rev [sl_round ld..<Suc (ds_highest_accepted_round s - 2)]).
      last_commit_round s \<le> r \<and> r + 3 < 2 ^ 32"
    using lc view_ofD(3) [OF v] by auto
  ultimately have "\<exists>ls. decide_rounds s ld (rev (uc_committers uc))
      (rev [sl_round ld..<Suc (ds_highest_accepted_round s - 2)]) [] = Some ls" by simp
  then obtain ls where "decide_rounds s ld (rev (uc_committers uc))
      (rev [sl_round ld..<Suc (ds_highest_accepted_round s - 2)]) [] = Some ls" ..
  then show ?thesis by (simp only: try_commit_def Let_def bind.bind_lunit) blast
qed

section \<open>A supported leader is committed\<close>

lemma support_loop_eq:
  assumes bft: "bft_dag c H U" and v: "view_of c U 0 s"
    and bs: "\<forall>b \<in> set bs. \<exists>q. get_uncommitted_block s q = Some b"
  shows "support_loop (get_uncommitted_block s) c l StakeAggregator_new Map.empty bs
    = Some (cm_quorum_threshold c
        \<le> weight_of (stake_at c) (vb_author ` {b \<in> set bs. certifies (get_uncommitted_block s) c b l}))"
proof -
  note ok = bft_dagD(1) [OF bft]
  obtain res where res: "support_loop (get_uncommitted_block s) c l StakeAggregator_new Map.empty bs = Some res"
    using support_loop_defined [OF bft v bs agg_inv_new cache_ok_empty] by blast
  from votes_reach_new_result [OF ok support_loop_votes [OF ok cache_ok_empty res]] res
  show ?thesis by simp
qed

lemma weight_le_sum_list:
  "weight_of f (set xs) \<le> sum_list (map f xs)"
proof (induction xs)
  case (Cons x xs)
  have "weight_of f (insert x (set xs)) \<le> f x + weight_of f (set xs)"
    by (cases "x \<in> set xs") (auto simp: weight_of_def insert_absorb)
  with Cons show ?case by simp
qed (simp add: weight_of_def)

lemma direct_commit_gen:
  assumes bft: "bft_dag c H U" and v: "view_of c U 0 s" and d: "decidable_slot c 0 bc sl"
    and r: "last_commit_round s \<le> sl_round sl" and sb: "slot_block s sl l"
    and quo: "cm_quorum_threshold c
        \<le> weight_of (stake_at c) (certifiers (get_uncommitted_block s) c (sl_round sl + 2) l)"
    and fits: "\<And>bs. get_uncommitted_blocks_at_round s (sl_round sl + 2) = Some bs \<Longrightarrow>
        sum_list (map (stake_at c \<circ> vb_author) bs) < 2 ^ 64"
  shows "try_direct_decide bc s sl = Some (Commit l)"
proof -
  note dD = decidable_slotD [OF d] and f = slot_block_facts [OF bft v sb]
  let ?get = "get_uncommitted_block s" and ?dr = "sl_round sl + 2"
  obtain cx where inv: "dag_inv cx s" using v by (auto simp: view_of_def)
  have c: "cx_committee (bc_context bc) = c" using dD(1) by (simp add: three_round_waves_def)
  have vr: "add_u32 (sl_round sl) 1 = sl_round sl + 1" using dD(3) by (intro add_u32_small) simp
  note dr = decision_round_eq [OF dD(1-3)]
  have "last_commit_round s < ?dr" "?dr + 1 < 2 ^ 32" using r dD(3) by auto
  then obtain bs where bs: "get_uncommitted_blocks_at_round s ?dr = Some bs"
    and mem: "\<forall>b. b \<in> set bs \<longleftrightarrow> (\<exists>q. ?get q = Some b \<and> br_round q = ?dr)"
    using blocks_at_round_defined by blast
  have au: "vb_author ` {b \<in> set bs. certifies ?get c b l} = certifiers ?get c ?dr l"
    using authors_at_round [OF inv bs, of "\<lambda>b. certifies ?get c b l"] dD(3) by (simp add: certifiers_def)
  have "stakes_of c bs = Some (map (stake_at c \<circ> vb_author) bs)"
    using mem view_author(2) [OF bft v] by (intro stakes_of_eq) auto
  moreover have "reached_quorum c (sum_u64 (map (stake_at c \<circ> vb_author) bs))"
  proof -
    have "cm_quorum_threshold c \<le> weight_of (stake_at c) (set (map vb_author bs))"
      using quo unfolding au [symmetric] by (rule order_trans) (auto intro: weight_of_mono)
    also have "\<dots> \<le> sum_list (map (stake_at c \<circ> vb_author) bs)"
      using weight_le_sum_list [of "stake_at c" "map vb_author bs"] by simp
    finally show ?thesis using fits [OF bs] by (simp add: reached_quorum_def sum_u64_small)
  qed
  moreover have "support_loop ?get c l StakeAggregator_new Map.empty bs = Some True"
  proof -
    have "\<forall>b \<in> set bs. \<exists>q. ?get q = Some b" using mem by blast
    from support_loop_eq [OF bft v this, of l] quo show ?thesis by (simp only: au)
  qed
  ultimately have sup: "enough_leader_support c s ?dr l = Some True"
    using bs by (simp add: enough_leader_support_def)
  obtain st where st: "try_direct_decide bc s sl = Some st"
    using try_direct_decide_defined [OF bft v d r] by blast
  have "cm_quorum_threshold c \<le> weight_of (stake_at c) (certifiers U c ?dr l)"
    using quo certifiers_mono [OF v bft, of ?dr l] f(3)
    by (intro order_trans [OF quo] weight_of_mono members_finite_subset [OF certifiers_members [OF bft]]) auto
  then have cert: "certified U c l" using f(3) by (intro quorum_certifiers_certified [OF bft]) simp
  show ?thesis
  proof (rule direct_outcome [OF bft v dD st])
    assume "cm_quorum_threshold c \<le> weight_of (stake_at c) (blamers U sl)"
    then show ?thesis using blame_excludes_certificate [OF bft _ f(2)] cert by (auto simp: certified_def)
  next
    fix l' assume l': "st = Commit l'" "slot_block s sl l'"
      "cm_quorum_threshold c \<le> weight_of (stake_at c) (certifiers U c ?dr l')"
    note f' = slot_block_facts [OF bft v l'(2)]
    have "certified U c l'" using l'(3) f'(3) by (intro quorum_certifiers_certified [OF bft]) simp
    with certified_unique [OF bft cert _ f(1) f'(1)] f(2) f'(2) st l'(1) show ?thesis by simp
  next
    assume und: "st = Undecided sl"
    obtain ls where ls: "filter_opt (enough_leader_support c s ?dr) (get_uncommitted_blocks_at_slot s sl) = Some ls"
      "ls = []"
      using st und
      by (auto simp: try_direct_decide_def Let_def c vr dr split: Option.bind_splits if_splits list.splits)
    moreover have "l \<in> set (get_uncommitted_blocks_at_slot s sl)"
      using sb by (simp add: blocks_at_slot_set slot_block_def)
    ultimately show ?thesis using filter_opt_eq [OF ls(1)] sup by (auto simp: filter_empty_conv)
  qed
qed

end
