(* ===== verification/Example_Dag.thy ===== *)
theory Example_Dag
  imports Commit_Progress
begin

text \<open>
  A concrete run for the witnesses: a committee of four authorities with one unit of stake each, in
  which every block refers to the four blocks of the previous round.  The state is what
  \<open>accept_blocks\<close> makes of the blocks of the rounds up to \<open>n\<close>, for an arbitrary \<open>n\<close>.
\<close>

section \<open>Committee, blocks and state\<close>

definition ex_authority :: authority where
  "ex_authority = \<lparr>au_stake = 1, au_address = [], au_hostname = [], au_network_key = [], au_protocol_key = []\<rparr>"

definition ex_committee :: committee where
  "ex_committee = \<lparr>cm_epoch = 0, cm_total_stake = 4, cm_quorum_threshold = 3, cm_validity_threshold = 2,
      cm_authorities = replicate 4 ex_authority\<rparr>"

definition ex_context :: "authority_index \<Rightarrow> consensus_context" where
  "ex_context i = \<lparr>cx_own_index = i, cx_committee = ex_committee\<rparr>"

definition ex_ref :: "round \<Rightarrow> authority_index \<Rightarrow> block_ref" where
  "ex_ref r a = BlockRef r a 0"

definition ex_parents :: "round \<Rightarrow> block_ref list" where
  "ex_parents r = (if r = 0 then [] else map (ex_ref (r - 1)) [0, 1, 2, 3])"

definition ex_block :: "round \<Rightarrow> authority_index \<Rightarrow> verified_block" where
  "ex_block r a =
     \<lparr>vb_block = \<lparr>sb_inner = V1 (BlockV1_new 0 r a r (ex_parents r) []), sb_signature = []\<rparr>,
      vb_digest = 0, vb_serialized = []\<rparr>"

primrec ex_blocks :: "round \<Rightarrow> verified_block list" where
  "ex_blocks 0 = map (ex_block 0) [0, 1, 2, 3]"
| "ex_blocks (Suc n) = ex_blocks n @ map (ex_block (Suc n)) [0, 1, 2, 3]"

definition ex_empty :: dag_state where
  "ex_empty = \<lparr>ds_recent_blocks = bt_empty, ds_cached_refs = replicate 4 {}, ds_last_commit = None,
      ds_highest_accepted_round = 0\<rparr>"

definition ex_state :: "authority_index \<Rightarrow> round \<Rightarrow> dag_state" where
  "ex_state i n = (case accept_blocks (ex_context i) ex_empty (ex_blocks n) of Some s \<Rightarrow> s | None \<Rightarrow> ex_empty)"

definition ex_dag :: dag where
  "ex_dag r = (if br_author r < 4 \<and> br_digest r = 0 then Some (ex_block (br_round r) (br_author r)) else None)"

lemma ex_block_sel [simp]:
  "vb_round (ex_block r a) = r" "vb_author (ex_block r a) = a" "vb_digest (ex_block r a) = 0"
  "vb_ancestors (ex_block r a) = ex_parents r" "vb_reference (ex_block r a) = ex_ref r a"
  by (simp_all add: ex_block_def vb_round_def vb_author_def vb_ancestors_def vb_reference_def ex_ref_def
      BlockV1_new_def)

lemma ex_ref_sel [simp]: "br_round (ex_ref r a) = r" "br_author (ex_ref r a) = a" "br_digest (ex_ref r a) = 0"
  by (simp_all add: ex_ref_def)

lemma ex_committee_sel [simp]:
  "cm_quorum_threshold ex_committee = 3" "cm_validity_threshold ex_committee = 2"
  "committee_size ex_committee = 4" "cx_committee (ex_context i) = ex_committee"
  "cx_own_index (ex_context i) = i"
  by (simp_all add: ex_committee_def committee_size_def ex_context_def)

lemma ex_committee_ok: "committee_ok ex_committee"
proof -
  have "sum_u64 (map au_stake (cm_authorities ex_committee)) = 4"
    by (simp add: ex_committee_def ex_authority_def sum_u64_mod sum_list_replicate)
  then show ?thesis
    by (simp add: committee_ok_def Committee_new_def Let_def ex_committee_def ex_authority_def
        sum_list_replicate add_u64_def mul_u64_def)
qed

lemma ex_stake: "a < 4 \<Longrightarrow> stake_at ex_committee a = 1"
  by (simp add: stake_at_def ex_committee_def ex_authority_def)

lemma ex_weight:
  assumes "A \<subseteq> {0..<4}"
  shows "weight_of (stake_at ex_committee) A = card A"
proof -
  have "weight_of (stake_at ex_committee) A = (\<Sum>a \<in> A. 1)"
    unfolding weight_of_def using assms ex_stake by (intro sum.cong) auto
  then show ?thesis by simp
qed

lemma ex_blocks_set: "b \<in> set (ex_blocks n) \<longleftrightarrow> (\<exists>r a. b = ex_block r a \<and> r \<le> n \<and> a < 4)"
proof (induction n)
  case 0
  have "a < 4 \<longleftrightarrow> a = 0 \<or> a = 1 \<or> a = 2 \<or> a = 3" for a :: nat by linarith
  then show ?case by auto
next
  case (Suc n)
  have "a < 4 \<longleftrightarrow> a = 0 \<or> a = 1 \<or> a = 2 \<or> a = 3" for a :: nat by linarith
  with Suc show ?case by (auto simp: le_Suc_eq)
qed

section \<open>The state of the example\<close>

lemma ex_blocks_distinct: "distinct (map (Slot_from \<circ> vb_reference) (ex_blocks n))"
proof (induction n)
  case (Suc n)
  then show ?case by (auto simp: Slot_from_inject ex_blocks_set)
qed (simp add: Slot_from_inject)

lemma ex_blocks_highest: "fold max (map vb_round (ex_blocks n)) 0 = n"
  by (induction n) simp_all

lemma ex_empty_sel [simp]:
  "get_uncommitted_block ex_empty r = None" "ds_cached_refs ex_empty = replicate 4 {}"
  "ds_last_commit ex_empty = None" "ds_highest_accepted_round ex_empty = 0"
  by (simp_all add: get_uncommitted_block_def ex_empty_def)

lemma ex_blocks_fresh: "fresh_blocks i ex_empty (ex_blocks n)"
proof -
  have "distinct (map (Slot_from \<circ> vb_reference) (ex_blocks n))" by (rule ex_blocks_distinct)
  then have "distinct (map Slot_from (map vb_reference (ex_blocks n)))" by simp
  then have "distinct (map vb_reference (ex_blocks n))" by (simp only: distinct_map)
  with ex_blocks_distinct [of n] show ?thesis
    by (auto simp: fresh_blocks_def ex_blocks_set intro: distinct_map_filter)
qed

lemma ex_state_accept:
  "accept_blocks (ex_context i) ex_empty (ex_blocks n) = Some (ex_state i n)"
  and ex_state_get: "get_uncommitted_block (ex_state i n) r = (if br_round r \<le> n then ex_dag r else None)"
  and ex_state_highest [simp]: "ds_highest_accepted_round (ex_state i n) = n"
  and ex_state_last_commit [simp]: "ds_last_commit (ex_state i n) = None"
proof -
  from ex_blocks_fresh [of i n] have "\<exists>s'. accept_blocks (ex_context i) ex_empty (ex_blocks n) = Some s'
    \<and> (\<forall>r b. get_uncommitted_block s' r = Some b \<longleftrightarrow>
          get_uncommitted_block ex_empty r = Some b \<or> b \<in> set (ex_blocks n) \<and> vb_reference b = r)
    \<and> length (ds_cached_refs s') = length (ds_cached_refs ex_empty)
    \<and> ds_highest_accepted_round s' = fold max (map vb_round (ex_blocks n)) (ds_highest_accepted_round ex_empty)
    \<and> ds_last_commit s' = ds_last_commit ex_empty"
    by (intro accept_blocks_fresh) simp
  then show acc: "accept_blocks (ex_context i) ex_empty (ex_blocks n) = Some (ex_state i n)"
    and "ds_highest_accepted_round (ex_state i n) = n" and "ds_last_commit (ex_state i n) = None"
    by (auto simp: ex_state_def ex_blocks_highest)
  have iff: "get_uncommitted_block (ex_state i n) r = Some b \<longleftrightarrow> b \<in> set (ex_blocks n) \<and> vb_reference b = r" for b
    using \<open>\<exists>s'. _\<close> acc by auto
  show "get_uncommitted_block (ex_state i n) r = (if br_round r \<le> n then ex_dag r else None)"
  proof (cases "get_uncommitted_block (ex_state i n) r")
    case None
    have "r \<noteq> ex_ref r' a" if "r' \<le> n" "a < 4" for r' a
      using None iff [of "ex_block r' a"] that by (auto simp: ex_blocks_set)
    then have "\<not> (br_round r \<le> n \<and> br_author r < 4 \<and> br_digest r = 0)"
      by (metis block_ref.collapse ex_ref_def)
    with None show ?thesis by (auto simp: ex_dag_def)
  next
    case (Some b)
    then have "b \<in> set (ex_blocks n)" "vb_reference b = r" using iff by auto
    with Some show ?thesis by (auto simp: ex_blocks_set ex_dag_def)
  qed
qed

section \<open>The hypotheses of the agreement theorems hold\<close>

lemma ex_parents_set: "a \<in> set (ex_parents r) \<longleftrightarrow> 0 < r \<and> (\<exists>i < 4. a = ex_ref (r - 1) i)"
proof -
  have "i < 4 \<longleftrightarrow> i = 0 \<or> i = 1 \<or> i = 2 \<or> i = 3" for i :: nat by linarith
  then show ?thesis by (auto simp: ex_parents_def)
qed

lemma ex_dag_ref [simp]: "ex_dag (ex_ref r a) = (if a < 4 then Some (ex_block r a) else None)"
  by (simp add: ex_dag_def)

lemma ex_dag_Some: "ex_dag r = Some b \<longleftrightarrow> (\<exists>n a. r = ex_ref n a \<and> a < 4 \<and> b = ex_block n a)"
proof -
  have "\<exists>n a. r = BlockRef n a (br_digest r)" by (metis block_ref.collapse)
  then show ?thesis by (auto simp: ex_dag_def ex_ref_def)
qed

lemma ex_all_parents:
  assumes "0 < n"
  shows "parents_of (ex_ref n a) (ex_block n a) = {0..<4}"
proof -
  have "{p \<in> set (ex_parents n). Suc (br_round p) = n} = ex_ref (n - 1) ` {0..<4}"
    using assms by (auto simp: ex_parents_set)
  then show ?thesis by (simp add: parents_of_def image_image)
qed

lemma ex_bft: "bft_dag ex_committee {0, 1, 2} ex_dag"
  unfolding bft_dag_def
proof (intro conjI)
  show "committee_ok ex_committee" by (rule ex_committee_ok)
  show "references_match ex_committee ex_dag" by (auto simp: references_match_def ex_dag_Some)
  show "ancestors_below ex_dag" by (auto simp: ancestors_below_def ex_dag_Some ex_parents_set)
  show "no_equivocation {0, 1, 2} ex_dag"
    unfolding no_equivocation_def Slot_from_inject by (auto simp: ex_dag_Some)
  have "members ex_committee - {0, 1, 2} \<subseteq> {3}" by auto
  then have "weight_of (stake_at ex_committee) (members ex_committee - {0, 1, 2})
      \<le> weight_of (stake_at ex_committee) {3}" by (intro weight_of_mono) auto
  also have "\<dots> = 1" by (simp add: ex_weight)
  finally show "faults_below_validity ex_committee {0, 1, 2}" by (simp add: faults_below_validity_def)
  show "quorum_parents ex_committee ex_dag"
    by (auto simp: quorum_parents_def ex_dag_Some ex_all_parents ex_weight)
qed

lemma ex_empty_inv: "dag_inv (ex_context i) ex_empty"
  by (simp add: dag_inv_def stored_under_reference_def refs_cached_def highest_round_attained_def
      own_slots_unique_def ex_empty_def get_uncommitted_block_def)

lemma ex_view:
  assumes "n + 1 < 2 ^ 32"
  shows "view_of ex_committee ex_dag 0 (ex_state i n)"
  unfolding view_of_def
proof (intro conjI)
  show "\<exists>cx. cx_committee cx = ex_committee \<and> dag_inv cx (ex_state i n)"
    using accept_blocks_inv [OF ex_empty_inv ex_state_accept] by (intro exI [of _ "ex_context i"]) simp
  show "get_uncommitted_block (ex_state i n) \<subseteq>\<^sub>m ex_dag"
    by (auto simp: map_le_def ex_state_get split: if_splits)
  show "causally_complete 0 (get_uncommitted_block (ex_state i n))"
    unfolding causally_complete_def ex_state_get
  proof (intro allI impI)
    fix r b a assume "(if br_round r \<le> n then ex_dag r else None) = Some b" and "a \<in> set (vb_ancestors b)"
    then obtain m k i where "m \<le> n" "b = ex_block m k" "a = ex_ref (m - 1) i" "i < 4"
      by (auto simp: ex_dag_Some ex_parents_set split: if_splits)
    then show "(if br_round a \<le> n then ex_dag a else None) \<noteq> None" by simp
  qed
  show "ds_highest_accepted_round (ex_state i n) + 1 < 2 ^ 32" using assms by simp
qed

section \<open>The committer on the example\<close>

definition ex_schedule :: leader_schedule where
  "ex_schedule round offset = Some ((round + offset) mod 4)"

definition ex_builder :: "authority_index \<Rightarrow> universal_committer_builder" where
  "ex_builder i = UniversalCommitterBuilder_new (ex_context i) ex_schedule"

definition ex_base :: "authority_index \<Rightarrow> base_committer" where
  "ex_base i = \<lparr>bc_context = ex_context i, bc_leader_schedule = ex_schedule,
      bc_options = BaseCommitterOptions_default\<rparr>"

definition ex_committer :: "authority_index \<Rightarrow> universal_committer" where
  "ex_committer i = \<lparr>uc_committers = [ex_base i]\<rparr>"

lemma ex_build: "UniversalCommitterBuilder_build (ex_builder i) = Some (ex_committer i)"
  by (simp add: UniversalCommitterBuilder_build_def ex_builder_def UniversalCommitterBuilder_new_def
      BaseCommitter_new_def DEFAULT_WAVE_LENGTH_def MINIMUM_WAVE_LENGTH_def ex_committer_def ex_base_def
      BaseCommitterOptions_default_def)

lemma ex_waves: "three_round_waves ex_committee (ex_base i)"
  by (simp add: three_round_waves_def ex_base_def BaseCommitterOptions_default_def DEFAULT_WAVE_LENGTH_def)

lemma ex_elect:
  assumes "r < 2 ^ 32"
  shows "elect_leader (ex_base i) r = Some (if r mod 3 = 0 then Some (Slot_new r (r mod 4)) else None)"
proof -
  have "r div 3 * 3 = r \<longleftrightarrow> r mod 3 = 0" by presburger
  moreover have "r div 3 * 3 < 2 ^ 32" using assms by (meson div_times_less_eq_dividend le_less_trans)
  ultimately show ?thesis
    by (auto simp: elect_leader_def wave_number_def leader_round_def ex_base_def ex_schedule_def
        BaseCommitterOptions_default_def DEFAULT_WAVE_LENGTH_def MINIMUM_WAVE_LENGTH_def
        mul_u32_def add_u32_def)
qed

lemma ex_find_leader:
  assumes "l < 4"
  shows "List.find (\<lambda>x. Slot_from x = Slot_from (ex_ref r l)) (ex_parents (Suc r)) = Some (ex_ref r l)"
proof -
  have "l = 0 \<or> l = 1 \<or> l = 2 \<or> l = 3" using assms by linarith
  then show ?thesis by (auto simp: ex_parents_def Slot_from_inject)
qed

lemma ex_supports:
  assumes "l < 4" and "a < 4" and "Suc r \<le> n"
  shows "supports (get_uncommitted_block (ex_state i n)) (ex_ref (Suc r) a) (ex_block r l)"
proof -
  have "find_supported_block get (Slot_from (ex_ref r l)) (ex_block (Suc r) a) = Some (Some (ex_ref r l))" for get
    using ex_find_leader [OF assms(1), of r]
    by (subst find_supported_block_next_round) (auto simp: Slot_from_def ex_parents_set)
  with assms show ?thesis
    by (auto simp: supports_def is_vote_def Let_def ex_state_get)
qed

lemma ex_certifies:
  assumes "l < 4" and "Suc r \<le> n"
  shows "certifies (get_uncommitted_block (ex_state i n)) ex_committee (ex_block (r + 2) a) (ex_block r l)"
proof -
  have "voters (get_uncommitted_block (ex_state i n)) (ex_block r l) (ex_parents (r + 2)) = {0..<4}"
    using ex_supports [OF assms(1) _ assms(2)]
    by (force simp: voters_def ex_parents_set image_iff)
  then show ?thesis by (simp add: certifies_def ex_weight)
qed

lemma ex_decidable:
  assumes "elect_leader (ex_base i) r = Some (Some (Slot_new r l))" and "r + 2 \<le> n" and "n + 1 < 2 ^ 32"
  shows "decidable_slot ex_committee 0 (ex_base i) (Slot_new r l)"
  using ex_waves elect_leader_round [OF assms(1)] assms(2,3) by (simp add: decidable_slot_def)

lemma ex_slot_block: "l < 4 \<Longrightarrow> r \<le> n \<Longrightarrow> slot_block (ex_state j n) (Slot_new r l) (ex_block r l)"
  unfolding slot_block_def by (intro exI [of _ "ex_ref r l"]) (simp add: ex_state_get Slot_from_def)

lemma ex_certifier_quorum:
  assumes l: "l < 4" and n: "r + 2 \<le> n"
  shows "cm_quorum_threshold ex_committee \<le> weight_of (stake_at ex_committee)
      (certifiers (get_uncommitted_block (ex_state j n)) ex_committee (sl_round (Slot_new r l) + 2) (ex_block r l))"
proof -
  let ?s = "ex_state j n"
  have "{0..<4} \<subseteq> certifiers (get_uncommitted_block ?s) ex_committee (r + 2) (ex_block r l)"
  proof
    fix a :: nat assume "a \<in> {0..<4}"
    then have "get_uncommitted_block ?s (ex_ref (r + 2) a) = Some (ex_block (r + 2) a)"
      using n by (simp add: ex_state_get)
    with ex_certifies [OF l, of r n j a] n
    show "a \<in> certifiers (get_uncommitted_block ?s) ex_committee (r + 2) (ex_block r l)"
      unfolding certifiers_def by (intro CollectI exI [of _ "ex_ref (r + 2) a"]) auto
  qed
  moreover have "certifiers (get_uncommitted_block ?s) ex_committee (r + 2) (ex_block r l) \<subseteq> {0..<4}"
    by (auto simp: certifiers_def ex_state_get ex_dag_Some split: if_splits)
  ultimately show ?thesis by (simp add: ex_weight card_mono subset_antisym)
qed

lemma ex_stake_sum:
  assumes bs: "get_uncommitted_blocks_at_round (ex_state j n) r = Some bs" and r: "0 < r" "r + 1 < 2 ^ 32"
  shows "sum_list (map (stake_at ex_committee \<circ> vb_author) bs) < 2 ^ 64"
proof -
  let ?m = "ds_recent_blocks (ex_state j n)" and ?P = "\<lambda>k. br_round k = r"
  have eq: "bs = map snd (bt_select ?P ?m)"
    using bs r blocks_at_round_eq [of "ex_state j n" r] by (simp add: last_commit_round_def)
  have "set (map fst (bt_select ?P ?m)) \<subseteq> ex_ref r ` {0..<4}"
  proof
    fix k assume "k \<in> set (map fst (bt_select ?P ?m))"
    then obtain v where "(k, v) \<in> set (bt_select ?P ?m)" by force
    then have "get_uncommitted_block (ex_state j n) k = Some v" and "br_round k = r"
      by (simp_all add: bt_select_set get_uncommitted_block_def)
    then show "k \<in> ex_ref r ` {0..<4}" by (auto simp: ex_state_get ex_dag_Some split: if_splits)
  qed
  then have "card (set (map fst (bt_select ?P ?m))) \<le> card (ex_ref r ` {0..<4})"
    by (intro card_mono) auto
  also have "\<dots> \<le> 4" using card_image_le [of "{0..<4}" "ex_ref r"] by simp
  finally have len: "length bs \<le> 4" using distinct_card [OF bt_select_distinct [of ?P ?m]] eq by simp
  have "\<forall>b \<in> set bs. stake_at ex_committee (vb_author b) = 1"
    using blocks_at_round_set [OF bs] r
    by (auto simp: ex_state_get ex_dag_Some ex_stake split: if_splits)
  then have "sum_list (map (stake_at ex_committee \<circ> vb_author) bs) = length bs"
    by (induction bs) auto
  with len show ?thesis by simp
qed

lemma ex_direct:
  assumes l: "l < 4" and r: "elect_leader (ex_base i) r = Some (Some (Slot_new r l))" and n: "r + 2 \<le> n" "n + 1 < 2 ^ 32"
  shows "try_direct_decide (ex_base i) (ex_state j n) (Slot_new r l) = Some (Commit (ex_block r l))"
proof (rule direct_commit_gen [OF ex_bft ex_view [OF n(2)] ex_decidable [OF r n] _ ex_slot_block [OF l]
        ex_certifier_quorum [OF l n(1)]])
  fix bs assume bs: "get_uncommitted_blocks_at_round (ex_state j n) (sl_round (Slot_new r l) + 2) = Some bs"
  show "sum_list (map (stake_at ex_committee \<circ> vb_author) bs) < 2 ^ 64"
    by (rule ex_stake_sum [OF bs]) (use n in simp_all)
qed (use n in \<open>simp_all add: last_commit_round_def\<close>)

text \<open>With the rounds up to 5 the leader of round 3 is committed; with fewer rounds nothing is.\<close>

lemma ex_try_commit_5: "try_commit (ex_committer i) (ex_state j 5) (Slot_new 0 0) = Some [Commit (ex_block 3 3)]"
proof -
  have e: "elect_leader (ex_base i) 3 = Some (Some (Slot_new 3 3))" "elect_leader (ex_base i) 2 = Some None"
    "elect_leader (ex_base i) 1 = Some None" "elect_leader (ex_base i) 0 = Some (Some (Slot_new 0 0))"
    by (simp_all add: ex_elect)
  have d: "try_direct_decide (ex_base i) (ex_state j 5) (Slot_new 3 3) = Some (Commit (ex_block 3 3))"
    by (rule ex_direct [OF _ e(1)]) simp_all
  have r: "rev [0..<4] = [3, 2, 1, 0::nat]" by (simp add: upt_rec)
  have ne: "Slot_new 3 3 \<noteq> Slot_new 0 0" by (simp add: Slot_new_def)
  show ?thesis
    using ne by (simp add: try_commit_def ex_committer_def r e [simplified] d decide_leader_def del: upt_Suc)
qed

lemma ex_try_commit_4: "try_commit (ex_committer i) (ex_state j 4) (Slot_new 0 0) = Some []"
proof -
  have e: "elect_leader (ex_base i) 2 = Some None" "elect_leader (ex_base i) 1 = Some None"
    "elect_leader (ex_base i) 0 = Some (Some (Slot_new 0 0))" by (simp_all add: ex_elect)
  have r: "rev [0..<3] = [2, 1, 0::nat]" by (simp add: upt_rec)
  show ?thesis by (simp add: try_commit_def ex_committer_def r e [simplified] del: upt_Suc)
qed

lemma ex_base_schedule [simp]: "bc_leader_schedule (ex_base i) r o' = Some ((r + o') mod 4)"
  by (simp add: ex_base_def ex_schedule_def)

lemma ex_dag_certifiers:
  assumes "l < 4" and "r + 3 < 2 ^ 32"
  shows "3 \<le> weight_of (stake_at ex_committee) (certifiers ex_dag ex_committee (r + 2) (ex_block r l))"
proof -
  have "3 \<le> weight_of (stake_at ex_committee)
      (certifiers (get_uncommitted_block (ex_state 0 (r + 2))) ex_committee (r + 2) (ex_block r l))"
    using ex_certifier_quorum [OF assms(1), of r "r + 2" 0] by simp
  also have "\<dots> \<le> weight_of (stake_at ex_committee) (certifiers ex_dag ex_committee (r + 2) (ex_block r l))"
    using assms(2)
    by (intro weight_of_mono certifiers_mono [OF ex_view ex_bft] members_finite_subset [OF certifiers_members [OF ex_bft]])
      simp_all
  finally show ?thesis .
qed

end
