(* ===== verification/Mem_Store.thy ===== *)
theory Mem_Store
  imports Dag_State "HOL-Library.Product_Lexorder"
begin

text \<open>
  The consensus storage interface (\<open>consensus/core/src/storage/mod.rs\<close>) and its in-memory
  implementation (\<open>consensus/core/src/storage/mem_store.rs\<close>).  The contract of the trait \<open>Store\<close> is
  the locale \<open>block_store\<close>; its client is \<open>DagState_new\<close>, which reloads the recent blocks.  A
  \<open>BTreeSet\<close> is an ordered map to unit.  The results of the source are in \<open>ConsensusResult\<close> and
  always \<open>Ok\<close> here; \<open>None\<close> is a panic.
\<close>

section \<open>State and operations\<close>

record mem_store =
  ms_blocks :: "(round \<times> authority_index \<times> block_digest, verified_block) btree_map"
  ms_digests_by_authorities :: "(authority_index \<times> round \<times> block_digest, unit) btree_map"
  ms_commits :: "(commit_index, commit) btree_map"

definition MemStore_new :: mem_store where
  "MemStore_new = \<lparr>ms_blocks = bt_empty, ms_digests_by_authorities = bt_empty, ms_commits = bt_empty\<rparr>"

definition write_block :: "verified_block \<Rightarrow> mem_store \<Rightarrow> mem_store" where
  "write_block block st =
     (let r = vb_reference block
      in st\<lparr>ms_blocks := bt_insert (br_round r, br_author r, br_digest r) block (ms_blocks st),
            ms_digests_by_authorities :=
              bt_insert (br_author r, br_round r, br_digest r) () (ms_digests_by_authorities st)\<rparr>)"

definition write_commit :: "commit \<Rightarrow> mem_store \<Rightarrow> mem_store" where
  "write_commit commit st = st\<lparr>ms_commits := bt_insert (co_index commit) commit (ms_commits st)\<rparr>"

definition MemStore_write :: "mem_store \<Rightarrow> verified_block list \<Rightarrow> commit list \<Rightarrow> mem_store" where
  "MemStore_write st blocks commits = fold write_commit commits (fold write_block blocks st)"

definition read_block :: "mem_store \<Rightarrow> block_ref \<Rightarrow> verified_block option" where
  "read_block st r = bt_get (ms_blocks st) (br_round r, br_author r, br_digest r)"

definition MemStore_read_blocks :: "mem_store \<Rightarrow> block_ref list \<Rightarrow> verified_block option list" where
  "MemStore_read_blocks st refs = map (read_block st) refs"

definition MemStore_contains_blocks :: "mem_store \<Rightarrow> block_ref list \<Rightarrow> bool list" where
  "MemStore_contains_blocks st refs = map (\<lambda>r. read_block st r \<noteq> None) refs"

text \<open>The loop over the references and their blocks; a missing block is a panic.\<close>

fun unwrap_blocks :: "verified_block option list \<Rightarrow> verified_block list option" where
  "unwrap_blocks [] = Some []"
| "unwrap_blocks (None # _) = None"
| "unwrap_blocks (Some b # bs) = do { rest \<leftarrow> unwrap_blocks bs; Some (b # rest) }"

definition MemStore_scan_blocks_by_author ::
  "mem_store \<Rightarrow> authority_index \<Rightarrow> round \<Rightarrow> verified_block list option" where
  "MemStore_scan_blocks_by_author st author start_round =
     (let lo = (author, start_round, digest_MIN); hi = (author, 2 ^ 32 - 1, digest_MAX)
      in if hi < lo then None
         else
           let refs = map (\<lambda>((a, r, d), _). BlockRef r a d)
                        (bt_select (\<lambda>k. lo \<le> k \<and> k \<le> hi) (ms_digests_by_authorities st))
           in unwrap_blocks (MemStore_read_blocks st refs))"

definition MemStore_read_last_commit :: "mem_store \<Rightarrow> commit option" where
  "MemStore_read_last_commit st = map_option snd (bt_last (ms_commits st))"

definition MemStore_scan_commits :: "mem_store \<Rightarrow> commit_index \<Rightarrow> commit list" where
  "MemStore_scan_commits st start_commit_index =
     map snd (bt_select (\<lambda>i. start_commit_index \<le> i) (ms_commits st))"

section \<open>Invariant\<close>

text \<open>Blocks are stored under their reference, and the index by author has the same references.\<close>

definition store_inv :: "mem_store \<Rightarrow> bool" where
  "store_inv st \<longleftrightarrow>
     (\<forall>r b. read_block st r = Some b \<longrightarrow> vb_reference b = r \<and> br_round r < 2 ^ 32)
     \<and> (\<forall>r. bt_get (ms_digests_by_authorities st) (br_author r, br_round r, br_digest r) \<noteq> None
            \<longleftrightarrow> read_block st r \<noteq> None)"

lemma store_inv_new: "store_inv MemStore_new"
  by (simp add: store_inv_def MemStore_new_def read_block_def)

lemma read_write_block: "read_block (write_block b st) = (read_block st)(vb_reference b \<mapsto> b)"
proof
  fix r show "read_block (write_block b st) r = ((read_block st)(vb_reference b \<mapsto> b)) r"
    by (cases r) (auto simp: read_block_def write_block_def Let_def vb_reference_def)
qed

lemma read_write_commit [simp]: "read_block (write_commit c st) = read_block st"
  by (simp add: fun_eq_iff read_block_def write_commit_def)

lemma index_write_block:
  "bt_get (ms_digests_by_authorities (write_block b st)) (br_author r, br_round r, br_digest r) \<noteq> None \<longleftrightarrow>
     r = vb_reference b \<or> bt_get (ms_digests_by_authorities st) (br_author r, br_round r, br_digest r) \<noteq> None"
  by (cases r) (auto simp: write_block_def Let_def vb_reference_def)

lemma store_inv_write_block:
  "store_inv st \<Longrightarrow> vb_round b < 2 ^ 32 \<Longrightarrow> store_inv (write_block b st)"
  unfolding store_inv_def index_write_block read_write_block by auto

lemma store_inv_write_commit: "store_inv st \<Longrightarrow> store_inv (write_commit c st)"
  by (simp add: store_inv_def) (simp add: write_commit_def)

lemma store_inv_write:
  assumes "store_inv st" and "\<forall>b \<in> set bs. vb_round b < 2 ^ 32"
  shows "store_inv (MemStore_write st bs cs)"
proof -
  have "store_inv (fold write_block bs st)"
    using assms by (induction bs arbitrary: st) (simp_all add: store_inv_write_block)
  then have "store_inv (fold write_commit cs s)" if "s = fold write_block bs st" for s
    using that by (induction cs arbitrary: s rule: rev_induct) (simp_all add: store_inv_write_commit)
  then show ?thesis by (simp add: MemStore_write_def)
qed

lemma read_after_write:
  "read_block (MemStore_write st bs cs) r =
     (case List.find (\<lambda>b. vb_reference b = r) (rev bs) of Some b \<Rightarrow> Some b | None \<Rightarrow> read_block st r)"
proof -
  have "read_block (fold write_block bs st) r =
     (case List.find (\<lambda>b. vb_reference b = r) (rev bs) of Some b \<Rightarrow> Some b | None \<Rightarrow> read_block st r)"
    by (induction bs rule: rev_induct) (simp_all add: read_write_block)
  moreover have "read_block (fold write_commit cs s) = read_block s" for s
    by (induction cs arbitrary: s) simp_all
  ultimately show ?thesis by (simp add: MemStore_write_def)
qed

lemma unwrap_blocks_Some:
  "\<forall>r \<in> set rs. f r \<noteq> None \<Longrightarrow> \<exists>bs. unwrap_blocks (map f rs) = Some bs \<and> map Some bs = map f rs"
proof (induction rs)
  case (Cons r rs)
  then obtain b bs where "f r = Some b" "unwrap_blocks (map f rs) = Some bs" "map Some bs = map f rs" by auto
  then show ?case by (intro exI [of _ "b # bs"]) simp
qed simp

lemma scan_by_author:
  assumes inv: "store_inv st" and start: "start < 2 ^ 32"
  shows "\<exists>bs. MemStore_scan_blocks_by_author st a start = Some bs
    \<and> set bs = {b. \<exists>r. read_block st r = Some b \<and> br_author r = a \<and> start \<le> br_round r}
    \<and> distinct (map vb_reference bs)"
proof -
  let ?lo = "(a, start, digest_MIN)" and ?hi = "(a, 2 ^ 32 - 1, digest_MAX)"
  let ?P = "\<lambda>k. ?lo \<le> k \<and> k \<le> ?hi" and ?f = "\<lambda>((a, r, d), _). BlockRef r a d"
  define sel where "sel = bt_select ?P (ms_digests_by_authorities st)"
  define refs where "refs = map ?f sel"
  have ok: "\<not> ?hi < ?lo" using start by (auto simp: less_prod_def)
  have refs: "r \<in> set refs \<longleftrightarrow> read_block st r \<noteq> None \<and> br_author r = a \<and> start \<le> br_round r" for r
  proof -
    have "r \<in> set refs \<longleftrightarrow> ((br_author r, br_round r, br_digest r), ()) \<in> set sel"
      by (cases r) (force simp: refs_def)
    also have "\<dots> \<longleftrightarrow> ?P (br_author r, br_round r, br_digest r)
        \<and> bt_get (ms_digests_by_authorities st) (br_author r, br_round r, br_digest r) \<noteq> None"
      by (auto simp: sel_def bt_select_set)
    also have "\<dots> \<longleftrightarrow> read_block st r \<noteq> None \<and> br_author r = a \<and> start \<le> br_round r"
      using inv by (fastforce simp: store_inv_def less_eq_prod_def)
    finally show ?thesis .
  qed
  then obtain bs where un: "unwrap_blocks (map (read_block st) refs) = Some bs"
    and bs: "map Some bs = map (read_block st) refs"
    using unwrap_blocks_Some [of refs "read_block st"] by blast
  have len: "length bs = length refs" using bs by (metis length_map)
  have "map vb_reference bs = refs"
  proof (rule nth_equalityI)
    fix i assume i: "i < length (map vb_reference bs)"
    then have "Some (bs ! i) = read_block st (refs ! i)" using bs len by (metis length_map nth_map)
    then have "vb_reference (bs ! i) = refs ! i" using inv unfolding store_inv_def by metis
    with i show "map vb_reference bs ! i = refs ! i" by simp
  qed (simp add: len)
  moreover have "distinct refs"
  proof -
    have "refs = map (\<lambda>(a, r, d). BlockRef r a d) (map fst sel)" by (simp add: refs_def comp_def split_def)
    moreover have "distinct (map fst sel)" unfolding sel_def by (rule bt_select_distinct)
    ultimately show ?thesis by (auto simp: distinct_map inj_on_def)
  qed
  moreover have "b \<in> set bs \<longleftrightarrow> (\<exists>r. read_block st r = Some b \<and> br_author r = a \<and> start \<le> br_round r)" for b
  proof -
    have "b \<in> set bs \<longleftrightarrow> Some b \<in> set (map Some bs)" by auto
    also have "\<dots> \<longleftrightarrow> (\<exists>r \<in> set refs. read_block st r = Some b)" unfolding bs by (metis (no_types) image_iff set_map)
    finally show ?thesis using refs by blast
  qed
  moreover have "MemStore_scan_blocks_by_author st a start = Some bs"
    unfolding MemStore_scan_blocks_by_author_def Let_def MemStore_read_blocks_def
    by (simp only: if_not_P [OF ok] sel_def [symmetric] refs_def [symmetric] un)
  ultimately show ?thesis by (intro exI [of _ bs]) auto
qed

section \<open>The contract of a store and its client\<close>

locale block_store =
  fixes inv :: "'s \<Rightarrow> bool"
    and stored :: "'s \<Rightarrow> block_ref \<Rightarrow> verified_block option"
    and scan :: "'s \<Rightarrow> authority_index \<Rightarrow> round \<Rightarrow> verified_block list option"
  assumes stored_reference: "inv st \<Longrightarrow> stored st r = Some b \<Longrightarrow> vb_reference b = r"
    and scan_blocks: "inv st \<Longrightarrow> start < 2 ^ 32 \<Longrightarrow>
      \<exists>bs. scan st a start = Some bs
        \<and> set bs = {b. \<exists>r. stored st r = Some b \<and> br_author r = a \<and> start \<le> br_round r}
        \<and> distinct (map vb_reference bs)"
begin

text \<open>Reloading the blocks of the authorities from \<open>i\<close> on: everything stored by them from the cached
  rounds on is in the state, in addition to what was there.\<close>

lemma load_authorities_blocks:
  assumes st: "inv st" and own: "own_slots_unique (cx_own_index cx) s"
    and uniq: "\<And>r r'. stored st r \<noteq> None \<Longrightarrow> stored st r' \<noteq> None \<Longrightarrow> br_author r = cx_own_index cx
        \<Longrightarrow> Slot_from r = Slot_from r' \<Longrightarrow> r = r'"
    and len: "i + length rounds \<le> committee_size (cx_committee cx)" "committee_size (cx_committee cx) < 2 ^ 32"
      "length (ds_cached_refs s) = committee_size (cx_committee cx)"
    and old: "\<And>r. get_uncommitted_block s r \<noteq> None \<Longrightarrow> br_author r < i"
    and bound: "\<forall>r \<in> set rounds. r < 2 ^ 32"
  shows "\<exists>s'. load_authorities cx (scan st) i rounds s = Some s' \<and> ds_last_commit s' = ds_last_commit s
    \<and> (\<forall>r b. get_uncommitted_block s' r = Some b \<longleftrightarrow> get_uncommitted_block s r = Some b
        \<or> (stored st r = Some b \<and> i \<le> br_author r \<and> br_author r < i + length rounds
           \<and> rounds ! (br_author r - i) - CACHED_ROUNDS \<le> br_round r))"
  using own len old bound
proof (induction rounds arbitrary: i s)
  case Nil
  then show ?case by auto
next
  case (Cons round rounds)
  have i: "i < committee_size (cx_committee cx)" using Cons.prems(2) by simp
  then have idx: "to_authority_index (cx_committee cx) i = Some i"
    using Cons.prems(3) by (simp add: to_authority_index_def committee_size_def)
  have start: "round - CACHED_ROUNDS < 2 ^ 32" using Cons.prems(6) by auto
  from scan_blocks [OF st start, of i] obtain bs where scan: "scan st i (round - CACHED_ROUNDS) = Some bs"
    and set_bs: "set bs = {b. \<exists>r. stored st r = Some b \<and> br_author r = i \<and> round - CACHED_ROUNDS \<le> br_round r}"
    and dist: "distinct (map vb_reference bs)" by blast
  have bs: "stored st (vb_reference b) = Some b" "vb_author b = i" if "b \<in> set bs" for b
  proof -
    from that set_bs obtain r where r: "stored st r = Some b" "br_author r = i" by blast
    moreover have "vb_reference b = r" using stored_reference [OF st r(1)] .
    ultimately show "stored st (vb_reference b) = Some b" "vb_author b = i" by auto
  qed
  have none: "get_uncommitted_block s r = None" if "br_author r = i" for r
    using Cons.prems(5) [of r] that by (cases "get_uncommitted_block s r") auto
  have "fresh_blocks (cx_own_index cx) s bs"
    unfolding fresh_blocks_def
  proof (intro conjI ballI impI allI)
    fix b r assume b: "b \<in> set bs" and "Slot_from r = Slot_from (vb_reference b)"
    then show "get_uncommitted_block s r = None" using bs(2) none by (simp add: Slot_from_inject)
  next
    have "inj_on Slot_from (vb_reference ` set (filter (\<lambda>b. vb_author b = cx_own_index cx) bs))"
      by (rule inj_onI, rule uniq) (use bs in auto)
    moreover have "distinct (map vb_reference (filter (\<lambda>b. vb_author b = cx_own_index cx) bs))"
      using dist by (rule distinct_map_filter)
    ultimately show "distinct (map (Slot_from \<circ> vb_reference) (filter (\<lambda>b. vb_author b = cx_own_index cx) bs))"
      by (simp add: distinct_map comp_inj_on)
  qed (use bs none dist i Cons.prems(4) in auto)
  from accept_blocks_fresh [OF this] obtain s1 where acc: "accept_blocks cx s bs = Some s1"
    and get1: "\<And>r b. get_uncommitted_block s1 r = Some b \<longleftrightarrow>
        get_uncommitted_block s r = Some b \<or> b \<in> set bs \<and> vb_reference b = r"
    and len1: "length (ds_cached_refs s1) = length (ds_cached_refs s)"
    and lc1: "ds_last_commit s1 = ds_last_commit s" by blast
  have own1: "own_slots_unique (cx_own_index cx) s1"
    unfolding own_slots_unique_def
  proof (intro allI impI)
    fix r r' assume r: "get_uncommitted_block s1 r \<noteq> None" "get_uncommitted_block s1 r' \<noteq> None"
      and o: "br_author r = cx_own_index cx" and eq: "Slot_from r = Slot_from r'"
    then have same: "br_author r = br_author r'" by (simp add: Slot_from_inject)
    show "r = r'"
    proof (cases "br_author r = i")
      case True
      then have "stored st r \<noteq> None" "stored st r' \<noteq> None" using r get1 none same bs(1) by fastforce+
      with o eq show ?thesis by (intro uniq)
    next
      case False
      then have "get_uncommitted_block s r \<noteq> None" "get_uncommitted_block s r' \<noteq> None"
        using r get1 same bs(2) by fastforce+
      with Cons.prems(1) o eq show ?thesis unfolding own_slots_unique_def by blast
    qed
  qed
  have old1: "br_author r < Suc i" if "get_uncommitted_block s1 r \<noteq> None" for r
    using that get1 Cons.prems(5) bs(2) by fastforce
  from Cons.IH [OF own1, of "Suc i"] Cons.prems(2-4,6) len1 old1 obtain s' where
    s': "load_authorities cx (scan st) (Suc i) rounds s1 = Some s'" "ds_last_commit s' = ds_last_commit s1"
    and get': "\<And>r b. get_uncommitted_block s' r = Some b \<longleftrightarrow> get_uncommitted_block s1 r = Some b
        \<or> (stored st r = Some b \<and> Suc i \<le> br_author r \<and> br_author r < Suc i + length rounds
           \<and> rounds ! (br_author r - Suc i) - CACHED_ROUNDS \<le> br_round r)" by auto
  have "get_uncommitted_block s1 r = Some b \<longleftrightarrow> get_uncommitted_block s r = Some b
      \<or> (stored st r = Some b \<and> br_author r = i \<and> round - CACHED_ROUNDS \<le> br_round r)" for r b
    using get1 set_bs stored_reference [OF st] by auto
  then have "get_uncommitted_block s' r = Some b \<longleftrightarrow> get_uncommitted_block s r = Some b
        \<or> (stored st r = Some b \<and> i \<le> br_author r \<and> br_author r < i + length (round # rounds)
           \<and> (round # rounds) ! (br_author r - i) - CACHED_ROUNDS \<le> br_round r)" for r b
    unfolding get' by (cases "br_author r = i") (auto simp: nth_Cons' Suc_le_eq)
  then show ?case using idx scan acc s' lc1 by simp
qed

end

interpretation ms: block_store store_inv read_block MemStore_scan_blocks_by_author
  by unfold_locales (simp_all add: store_inv_def [THEN iffD1] scan_by_author)

section \<open>Recovery\<close>

definition last_rounds :: "consensus_context \<Rightarrow> commit option \<Rightarrow> round list" where
  "last_rounds cx lc = (case lc of Some c \<Rightarrow> co_last_committed_rounds c
                                 | None \<Rightarrow> replicate (committee_size (cx_committee cx)) 0)"

definition own_slots_stored_once :: "consensus_context \<Rightarrow> mem_store \<Rightarrow> bool" where
  "own_slots_stored_once cx st \<longleftrightarrow>
     (\<forall>r r'. read_block st r \<noteq> None \<longrightarrow> read_block st r' \<noteq> None \<longrightarrow> br_author r = cx_own_index cx \<longrightarrow>
        Slot_from r = Slot_from r' \<longrightarrow> r = r')"

lemma DagState_new_recovers:
  assumes st: "store_inv st" and own: "own_slots_stored_once cx st"
    and size: "committee_size (cx_committee cx) < 2 ^ 32"
    and lr: "length (last_rounds cx lc) = committee_size (cx_committee cx)"
      "\<forall>r \<in> set (last_rounds cx lc). r < 2 ^ 32"
  shows "\<exists>s. DagState_new cx lc (MemStore_scan_blocks_by_author st) = Some s \<and> dag_inv cx s
    \<and> ds_last_commit s = lc
    \<and> (\<forall>r b. get_uncommitted_block s r = Some b \<longleftrightarrow>
          read_block st r = Some b \<and> br_author r < committee_size (cx_committee cx)
          \<and> last_rounds cx lc ! br_author r - CACHED_ROUNDS \<le> br_round r)"
proof -
  define s0 where "s0 = \<lparr>ds_recent_blocks = (bt_empty :: (block_ref, verified_block) btree_map),
      ds_cached_refs = replicate (committee_size (cx_committee cx)) {}, ds_last_commit = lc,
      ds_highest_accepted_round = 0\<rparr>"
  have none: "get_uncommitted_block s0 r = None" for r by (simp add: s0_def get_uncommitted_block_def)
  have inv0: "dag_inv cx s0"
    by (simp add: dag_inv_def stored_under_reference_def refs_cached_def highest_round_attained_def
        own_slots_unique_def none) (simp add: s0_def)
  have eq: "DagState_new cx lc (MemStore_scan_blocks_by_author st)
      = load_authorities cx (MemStore_scan_blocks_by_author st) 0 (last_rounds cx lc) s0"
    by (simp add: DagState_new_def Let_def last_rounds_def s0_def)
  have "\<exists>s'. load_authorities cx (MemStore_scan_blocks_by_author st) 0 (last_rounds cx lc) s0 = Some s'
    \<and> ds_last_commit s' = ds_last_commit s0
    \<and> (\<forall>r b. get_uncommitted_block s' r = Some b \<longleftrightarrow> get_uncommitted_block s0 r = Some b
        \<or> (read_block st r = Some b \<and> 0 \<le> br_author r \<and> br_author r < 0 + length (last_rounds cx lc)
           \<and> last_rounds cx lc ! (br_author r - 0) - CACHED_ROUNDS \<le> br_round r))"
  proof (rule ms.load_authorities_blocks [OF st])
    show "own_slots_unique (cx_own_index cx) s0" by (simp add: own_slots_unique_def none)
    show "r = r'" if "read_block st r \<noteq> None" "read_block st r' \<noteq> None" "br_author r = cx_own_index cx"
      "Slot_from r = Slot_from r'" for r r'
      using own that unfolding own_slots_stored_once_def by blast
    show "br_author r < 0" if "get_uncommitted_block s0 r \<noteq> None" for r using that none by simp
  qed (use size lr in \<open>simp_all add: s0_def\<close>)
  then obtain s' where s': "load_authorities cx (MemStore_scan_blocks_by_author st) 0 (last_rounds cx lc) s0 = Some s'"
    "ds_last_commit s' = ds_last_commit s0"
    and get: "\<And>r b. get_uncommitted_block s' r = Some b \<longleftrightarrow> get_uncommitted_block s0 r = Some b
        \<or> (read_block st r = Some b \<and> 0 \<le> br_author r \<and> br_author r < 0 + length (last_rounds cx lc)
           \<and> last_rounds cx lc ! (br_author r - 0) - CACHED_ROUNDS \<le> br_round r)" by blast
  have "ds_last_commit s' = lc" using s'(2) by (simp add: s0_def)
  with s'(1) get load_authorities_inv [OF inv0 s'(1)] show ?thesis by (simp add: eq lr(1) none)
qed

end
