(* ===== verification/Example_Core.thy ===== *)
theory Example_Core
  imports Core_Proposals Example_Dag Mem_Store
begin

text \<open>
  A core of the example committee: it starts from the four genesis blocks, its clock is at round 1,
  and it can propose.  The third-party functions are instantiated with constant ones.
\<close>

definition ex_crypto :: block_crypto where
  "ex_crypto = \<lparr>bcs_block = \<lambda>_. Some [], bcs_signed_block = \<lambda>_. Some [], blake2b256 = \<lambda>_. 0,
      sign_digest = \<lambda>_. [], signature_well_formed = \<lambda>_. True, verify_digest = \<lambda>_ _ _. True\<rparr>"

definition ex_hash_order :: "block_ref set \<Rightarrow> block_ref list" where
  "ex_hash_order S = sorted_list_of_set S"

definition ex_consumer :: transactions_consumer where
  "ex_consumer = TransactionsConsumer_new [] 1000 None"

definition ex_genesis :: "authority_index \<Rightarrow> verified_block" where
  "ex_genesis a = \<lparr>vb_block = SignedBlock_new_genesis (V1 (BlockV1_genesis a 0)), vb_digest = 0, vb_serialized = []\<rparr>"

definition ex_clock :: threshold_clock where
  "ex_clock = \<lparr>tc_aggregator = \<lparr>sa_votes = {}, sa_stake = 0\<rparr>, tc_round = 1, tc_context = ex_context 0\<rparr>"

definition ex_core :: core where
  "ex_core = \<lparr>cr_context = ex_context 0, cr_threshold_clock = ex_clock, cr_last_proposed_block = ex_genesis 0,
      cr_transactions_consumer = ex_consumer,
      cr_pending_ancestors = fold push_pending (map ex_genesis [1, 2, 3, 0]) bt_empty,
      cr_block_manager = BlockManager_new, cr_signals = [NewRound 1]\<rparr>"

lemma ex_hash_order_ok: "hash_order_ok ex_hash_order"
  by (simp add: hash_order_ok_def ex_hash_order_def)

lemma ex_genesis_sel [simp]:
  "vb_round (ex_genesis a) = 0" "vb_author (ex_genesis a) = a" "vb_ancestors (ex_genesis a) = []"
  "vb_timestamp_ms (ex_genesis a) = 0" "vb_reference (ex_genesis a) = ex_ref 0 a"
  by (simp_all add: ex_genesis_def vb_round_def vb_author_def vb_ancestors_def vb_timestamp_ms_def
      vb_reference_def SignedBlock_new_genesis_def BlockV1_genesis_def GENESIS_ROUND_def ex_ref_def)

lemma ex_authorities:
  "committee_authorities ex_committee = map (\<lambda>i. (i, ex_authority)) [0, 1, 2, 3]"
proof -
  have "[0..<4] = [0, 1, 2, 3::nat]" by (simp add: upt_rec)
  moreover have "replicate 4 ex_authority = [ex_authority, ex_authority, ex_authority, ex_authority]"
    by (simp add: numeral_eq_Suc)
  ultimately show ?thesis by (simp add: committee_authorities_def ex_committee_def)
qed

lemma ex_Block_genesis: "Block_genesis ex_crypto 0 ex_committee = Some (ex_genesis 0, map ex_genesis [1, 2, 3])"
proof -
  have one: "VerifiedBlock_new_verified_unserialized ex_crypto (SignedBlock_new_genesis (V1 (BlockV1_genesis a 0)))
      = Some (ex_genesis a)" for a
    by (simp add: VerifiedBlock_new_verified_unserialized_def VerifiedBlock_new_verified_def compute_digest_def
        ex_crypto_def ex_genesis_def)
  have "cm_epoch ex_committee = 0" by (simp add: ex_committee_def)
  then show ?thesis by (simp add: Block_genesis_def ex_authorities one)
qed

lemma ex_clock_loop:
  "clock_loop (ThresholdClock_new 0 (ex_context 0)) (map (ex_ref 0) [1, 2, 3, 0]) = Some ex_clock"
proof -
  have stakes: "committee_stake ex_committee a = Some 1" if "a < 4" for a
    using that by (simp add: committee_stake_eq ex_stake)
  show ?thesis
    by (simp add: ThresholdClock_new_def ThresholdClock_add_block_def Let_def StakeAggregator_add_def
        StakeAggregator_new_def StakeAggregator_clear_def stakes reached_quorum_def add_u64_def add_u32_def
        ex_clock_def)
qed

lemma ex_Core_new: "Core_new ex_crypto (ex_context 0) ex_consumer BlockManager_new [] = Some ex_core"
proof -
  have "map (vb_reference \<circ> ex_genesis) [1, 2, 3, 0] = map (ex_ref 0) [1, 2, 3, 0]" by simp
  with ex_clock_loop show ?thesis
    by (simp add: Core_new_def Let_def ex_Block_genesis ex_core_def ThresholdClock_get_round_def)
      (simp add: ex_clock_def)
qed

lemma ex_no_dictator: "no_dictator ex_committee"
  by (simp add: no_dictator_def ex_stake)

definition ex_proposal :: verified_block where
  "ex_proposal =
     \<lparr>vb_block = \<lparr>sb_inner = V1 (BlockV1_new 0 1 0 5 (ex_hash_order (proposed_refs ex_core 1)) []), sb_signature = []\<rparr>,
      vb_digest = 0, vb_serialized = []\<rparr>"

lemma ex_pending: "pending_at ex_core r = (if r = 0 then {ex_genesis 0, ex_genesis 1, ex_genesis 2, ex_genesis 3} else {})"
proof -
  have "pending_at (ex_core\<lparr>cr_pending_ancestors := bt_empty\<rparr>) r = {}" by (simp add: pending_at_def)
  with pending_after_push [of "map ex_genesis [1, 2, 3, 0]" bt_empty ex_core r]
  have "pending_at (ex_core\<lparr>cr_pending_ancestors := fold push_pending (map ex_genesis [1, 2, 3, 0]) bt_empty\<rparr>) r
      = (if r = 0 then {ex_genesis 0, ex_genesis 1, ex_genesis 2, ex_genesis 3} else {})" by auto
  then show ?thesis by (simp add: ex_core_def pending_at_def)
qed

lemma ex_proposal_ref: "vb_reference ex_proposal = ex_ref 1 0"
  by (simp add: ex_proposal_def vb_reference_def vb_round_def vb_author_def BlockV1_new_def ex_ref_def)

lemma ex_core_round: "last_proposed_round ex_core = 0"
  by (simp add: last_proposed_round_def ex_core_def)

lemma ex_try_new_block:
  "\<exists>core'. try_new_block ex_crypto ex_hash_order 5 True ex_core = Some (Some ex_proposal, core')"
proof -
  have coll: "collected ex_core 1 = {ex_genesis 0, ex_genesis 1, ex_genesis 2, ex_genesis 3}"
    by (auto simp: collected_def ex_pending)
  have "list_all (\<lambda>b. vb_timestamp_ms b \<le> 5)
      (concat (map snd (bt_select (\<lambda>r. r < 1) (cr_pending_ancestors ex_core))))"
    unfolding list_all_iff Ball_def collected_blocks by (auto simp: ex_pending split: if_splits)
  then obtain as core1 where anc: "ancestors_to_propose ex_hash_order ex_core 1 5 = Some (as, core1)"
    by (auto simp: ancestors_to_propose_def Let_def)
  note a = ancestors_to_propose_eq [OF anc]
  have c1: "cr_context core1 = ex_context 0" "cr_transactions_consumer core1 = ex_consumer"
    "cr_threshold_clock core1 = ex_clock" using a(3) by (simp_all add: ex_core_def)
  have create: "create_block ex_crypto core1 1 5 as [] = Some ex_proposal"
    by (simp add: create_block_def Let_def SignedBlock_new_def compute_digest_def ex_crypto_def
        VerifiedBlock_new_verified_unserialized_def VerifiedBlock_new_verified_def ex_proposal_def a(1) c1
        ex_committee_def)
  have payload: "fst (TransactionsConsumer_next ex_consumer) = []"
    by (simp add: ex_consumer_def TransactionsConsumer_new_def TransactionsConsumer_next_def Let_def)
  note ref = ex_proposal_ref
  have "\<exists>clock. ThresholdClock_add_block ex_clock (ex_ref 1 0) = Some clock"
    by (simp add: ex_clock_def ThresholdClock_add_block_def Let_def StakeAggregator_add_def committee_stake_eq)
  moreover have "last_proposed_round ex_core = 0" "tc_round (cr_threshold_clock ex_core) = 1"
    by (simp_all add: last_proposed_round_def ex_core_def ex_clock_def)
  ultimately show ?thesis
    using anc create payload ref
    by (auto simp: try_new_block_def Let_def ThresholdClock_get_round_def c1 split: prod.splits)
qed

lemma find_reference_ex:
  "(case List.find (\<lambda>b. vb_reference b = r) (rev (ex_blocks n)) of Some b \<Rightarrow> Some b | None \<Rightarrow> read_block MemStore_new r)
     = Some b \<longleftrightarrow> b \<in> set (ex_blocks n) \<and> vb_reference b = r"
proof -
  have same: "x = b" if "x \<in> set (ex_blocks n)" "b \<in> set (ex_blocks n)" "vb_reference x = vb_reference b" for x
    using that by (auto simp: ex_blocks_set ex_ref_def)
  have none: "read_block MemStore_new r = None" by (simp add: read_block_def MemStore_new_def)
  show ?thesis
  proof (cases "List.find (\<lambda>b. vb_reference b = r) (rev (ex_blocks n))")
    case None
    then have "\<not> (b \<in> set (ex_blocks n) \<and> vb_reference b = r)" by (auto simp: find_None_iff)
    with None none show ?thesis by simp
  next
    case (Some x)
    then obtain i where "i < length (rev (ex_blocks n))" "vb_reference x = r" "x = rev (ex_blocks n) ! i"
      unfolding find_Some_iff by blast
    then have x: "x \<in> set (ex_blocks n)" "vb_reference x = r" by (metis nth_mem set_rev, simp)
    then show ?thesis using Some same [OF x(1)] by (simp, blast)
  qed
qed

end
