(* ===== verification/Move_U256.thy ===== *)
theory Move_U256
  imports Prelude
begin

unbundle bit_operations_syntax

text \<open>
  The 256-bit integers of Move (\<open>move-core-types/src/u256.rs\<close>).  The source wraps the type \<open>U256\<close>
  of the package \<open>primitive-types\<close>; the operations of that package are the fields of the parameter
  \<open>primitive_u256\<close>, and the locale \<open>primitive_u256_laws\<close> states what its documentation says of
  them.  On top of them the source builds operators that wrap, checked operations, conversions, the
  widening multiplication and the uniform sampling of a range by rejection.
\<close>

section \<open>The package's operations\<close>

type_synonym u256 = "256 word"

record primitive_u256 =
  pu_zero :: u256
  pu_one :: u256
  pu_max_value :: u256
  pu_lt :: "u256 \<Rightarrow> u256 \<Rightarrow> bool"
  pu_shl :: "u256 \<Rightarrow> nat \<Rightarrow> u256"
  pu_shr :: "u256 \<Rightarrow> nat \<Rightarrow> u256"
  pu_or :: "u256 \<Rightarrow> u256 \<Rightarrow> u256"
  pu_and :: "u256 \<Rightarrow> u256 \<Rightarrow> u256"
  pu_xor :: "u256 \<Rightarrow> u256 \<Rightarrow> u256"
  pu_div :: "u256 \<Rightarrow> u256 \<Rightarrow> u256 option"
  pu_rem :: "u256 \<Rightarrow> u256 \<Rightarrow> u256 option"
  pu_checked_add :: "u256 \<Rightarrow> u256 \<Rightarrow> u256 option"
  pu_checked_sub :: "u256 \<Rightarrow> u256 \<Rightarrow> u256 option"
  pu_checked_mul :: "u256 \<Rightarrow> u256 \<Rightarrow> u256 option"
  pu_checked_div :: "u256 \<Rightarrow> u256 \<Rightarrow> u256 option"
  pu_checked_rem :: "u256 \<Rightarrow> u256 \<Rightarrow> u256 option"
  pu_overflowing_add :: "u256 \<Rightarrow> u256 \<Rightarrow> u256 \<times> bool"
  pu_overflowing_sub :: "u256 \<Rightarrow> u256 \<Rightarrow> u256 \<times> bool"
  pu_overflowing_mul :: "u256 \<Rightarrow> u256 \<Rightarrow> u256 \<times> bool"
  pu_low_u64 :: "u256 \<Rightarrow> 64 word"
  pu_low_u128 :: "u256 \<Rightarrow> 128 word"
  pu_leading_zeros :: "u256 \<Rightarrow> nat"
  pu_from_u8 :: "8 word \<Rightarrow> u256"
  pu_from_u16 :: "16 word \<Rightarrow> u256"
  pu_from_u32 :: "32 word \<Rightarrow> u256"
  pu_from_u64 :: "64 word \<Rightarrow> u256"
  pu_from_u128 :: "128 word \<Rightarrow> u256"
  pu_from_little_endian :: "bytes \<Rightarrow> u256"
  pu_to_little_endian :: "u256 \<Rightarrow> bytes"

section \<open>Operators\<close>

text \<open>A shift by \<open>u8\<close> and a shift by \<open>u32\<close> are two implementations of the operator.\<close>

definition U256_shl_u32 :: "primitive_u256 \<Rightarrow> u256 \<Rightarrow> u32 \<Rightarrow> u256" where
  "U256_shl_u32 L lhs rhs = pu_shl L lhs rhs"

definition U256_shl :: "primitive_u256 \<Rightarrow> u256 \<Rightarrow> u8 \<Rightarrow> u256" where
  "U256_shl L lhs rhs = pu_shl L lhs (unat rhs)"

definition U256_shr :: "primitive_u256 \<Rightarrow> u256 \<Rightarrow> u8 \<Rightarrow> u256" where
  "U256_shr L lhs rhs = pu_shr L lhs (unat rhs)"

definition U256_bitor :: "primitive_u256 \<Rightarrow> u256 \<Rightarrow> u256 \<Rightarrow> u256" where
  "U256_bitor L lhs rhs = pu_or L lhs rhs"

definition U256_bitand :: "primitive_u256 \<Rightarrow> u256 \<Rightarrow> u256 \<Rightarrow> u256" where
  "U256_bitand L lhs rhs = pu_and L lhs rhs"

definition U256_bitxor :: "primitive_u256 \<Rightarrow> u256 \<Rightarrow> u256 \<Rightarrow> u256" where
  "U256_bitxor L lhs rhs = pu_xor L lhs rhs"

definition U256_wrapping_add :: "primitive_u256 \<Rightarrow> u256 \<Rightarrow> u256 \<Rightarrow> u256" where
  "U256_wrapping_add L a b = fst (pu_overflowing_add L a b)"

definition U256_wrapping_sub :: "primitive_u256 \<Rightarrow> u256 \<Rightarrow> u256 \<Rightarrow> u256" where
  "U256_wrapping_sub L a b = fst (pu_overflowing_sub L a b)"

definition U256_wrapping_mul :: "primitive_u256 \<Rightarrow> u256 \<Rightarrow> u256 \<Rightarrow> u256" where
  "U256_wrapping_mul L a b = fst (pu_overflowing_mul L a b)"

definition U256_add :: "primitive_u256 \<Rightarrow> u256 \<Rightarrow> u256 \<Rightarrow> u256" where
  "U256_add L a b = U256_wrapping_add L a b"

definition U256_sub :: "primitive_u256 \<Rightarrow> u256 \<Rightarrow> u256 \<Rightarrow> u256" where
  "U256_sub L a b = U256_wrapping_sub L a b"

text \<open>The quotient and the remainder panic on a zero divisor.\<close>

definition U256_div :: "primitive_u256 \<Rightarrow> u256 \<Rightarrow> u256 \<Rightarrow> u256 option" where
  "U256_div L a b = pu_div L a b"

definition U256_rem :: "primitive_u256 \<Rightarrow> u256 \<Rightarrow> u256 \<Rightarrow> u256 option" where
  "U256_rem L a b = pu_rem L a b"

text \<open>The order is derived from the order of the package's type.\<close>

definition U256_lt :: "primitive_u256 \<Rightarrow> u256 \<Rightarrow> u256 \<Rightarrow> bool" where
  "U256_lt L a b = pu_lt L a b"

definition U256_le :: "primitive_u256 \<Rightarrow> u256 \<Rightarrow> u256 \<Rightarrow> bool" where
  "U256_le L a b = (\<not> pu_lt L b a)"

section \<open>Constants, bytes and checked operations\<close>

definition U256_NUM_BITS :: nat where
  "U256_NUM_BITS = 256"

definition U256_NUM_BYTES :: nat where
  "U256_NUM_BYTES = U256_NUM_BITS div 8"

definition U256_zero :: "primitive_u256 \<Rightarrow> u256" where
  "U256_zero L = pu_zero L"

definition U256_one :: "primitive_u256 \<Rightarrow> u256" where
  "U256_one L = pu_one L"

definition U256_max_value :: "primitive_u256 \<Rightarrow> u256" where
  "U256_max_value L = pu_max_value L"

definition U256_from_le_bytes :: "primitive_u256 \<Rightarrow> bytes \<Rightarrow> u256" where
  "U256_from_le_bytes L bs = pu_from_little_endian L bs"

definition U256_to_le_bytes :: "primitive_u256 \<Rightarrow> u256 \<Rightarrow> bytes" where
  "U256_to_le_bytes L n = pu_to_little_endian L n"

definition U256_leading_zeros :: "primitive_u256 \<Rightarrow> u256 \<Rightarrow> u32" where
  "U256_leading_zeros L n = pu_leading_zeros L n"

definition U256_unchecked_as_u8 :: "primitive_u256 \<Rightarrow> u256 \<Rightarrow> 8 word" where
  "U256_unchecked_as_u8 L n = ucast (pu_low_u128 L n)"

definition U256_unchecked_as_u16 :: "primitive_u256 \<Rightarrow> u256 \<Rightarrow> 16 word" where
  "U256_unchecked_as_u16 L n = ucast (pu_low_u128 L n)"

definition U256_unchecked_as_u32 :: "primitive_u256 \<Rightarrow> u256 \<Rightarrow> 32 word" where
  "U256_unchecked_as_u32 L n = ucast (pu_low_u128 L n)"

definition U256_unchecked_as_u64 :: "primitive_u256 \<Rightarrow> u256 \<Rightarrow> 64 word" where
  "U256_unchecked_as_u64 L n = ucast (pu_low_u128 L n)"

definition U256_unchecked_as_u128 :: "primitive_u256 \<Rightarrow> u256 \<Rightarrow> 128 word" where
  "U256_unchecked_as_u128 L n = pu_low_u128 L n"

definition U256_checked_add :: "primitive_u256 \<Rightarrow> u256 \<Rightarrow> u256 \<Rightarrow> u256 option" where
  "U256_checked_add L a b = pu_checked_add L a b"

definition U256_checked_sub :: "primitive_u256 \<Rightarrow> u256 \<Rightarrow> u256 \<Rightarrow> u256 option" where
  "U256_checked_sub L a b = pu_checked_sub L a b"

definition U256_checked_mul :: "primitive_u256 \<Rightarrow> u256 \<Rightarrow> u256 \<Rightarrow> u256 option" where
  "U256_checked_mul L a b = pu_checked_mul L a b"

definition U256_checked_div :: "primitive_u256 \<Rightarrow> u256 \<Rightarrow> u256 \<Rightarrow> u256 option" where
  "U256_checked_div L a b = pu_checked_div L a b"

definition U256_checked_rem :: "primitive_u256 \<Rightarrow> u256 \<Rightarrow> u256 \<Rightarrow> u256 option" where
  "U256_checked_rem L a b = pu_checked_rem L a b"

definition U256_checked_shl :: "primitive_u256 \<Rightarrow> u256 \<Rightarrow> u32 \<Rightarrow> u256 option" where
  "U256_checked_shl L a rhs = (if rhs \<ge> U256_NUM_BITS then None else Some (pu_shl L a rhs))"

definition U256_checked_shr :: "primitive_u256 \<Rightarrow> u256 \<Rightarrow> u32 \<Rightarrow> u256 option" where
  "U256_checked_shr L a rhs = (if rhs \<ge> U256_NUM_BITS then None else Some (pu_shr L a rhs))"

section \<open>Conversions\<close>

definition U256_from_u8 :: "primitive_u256 \<Rightarrow> 8 word \<Rightarrow> u256" where
  "U256_from_u8 L n = pu_from_u8 L n"

definition U256_from_u16 :: "primitive_u256 \<Rightarrow> 16 word \<Rightarrow> u256" where
  "U256_from_u16 L n = pu_from_u16 L n"

definition U256_from_u32 :: "primitive_u256 \<Rightarrow> 32 word \<Rightarrow> u256" where
  "U256_from_u32 L n = pu_from_u32 L n"

definition U256_from_u64 :: "primitive_u256 \<Rightarrow> 64 word \<Rightarrow> u256" where
  "U256_from_u64 L n = pu_from_u64 L n"

definition U256_from_u128 :: "primitive_u256 \<Rightarrow> 128 word \<Rightarrow> u256" where
  "U256_from_u128 L n = pu_from_u128 L n"

datatype u256_cast_error_kind =
  TooLargeForU8 | TooLargeForU16 | TooLargeForU32 | TooLargeForU64 | TooLargeForU128

record u256_cast_error =
  ce_kind :: u256_cast_error_kind
  ce_val :: u256

definition U256CastError_new :: "u256 \<Rightarrow> u256_cast_error_kind \<Rightarrow> u256_cast_error" where
  "U256CastError_new val kind = \<lparr>ce_kind = kind, ce_val = val\<rparr>"

definition try_from_u8 :: "primitive_u256 \<Rightarrow> u256 \<Rightarrow> u256_cast_error + 8 word" where
  "try_from_u8 L n = (let n = pu_low_u64 L n
     in if n > 255 then Inl (U256CastError_new (U256_from_u64 L n) TooLargeForU8)
        else Inr (ucast n))"

definition try_from_u16 :: "primitive_u256 \<Rightarrow> u256 \<Rightarrow> u256_cast_error + 16 word" where
  "try_from_u16 L n = (let n = pu_low_u64 L n
     in if n > 65535 then Inl (U256CastError_new (U256_from_u64 L n) TooLargeForU16)
        else Inr (ucast n))"

definition try_from_u32 :: "primitive_u256 \<Rightarrow> u256 \<Rightarrow> u256_cast_error + 32 word" where
  "try_from_u32 L n = (let n = pu_low_u64 L n
     in if n > 4294967295 then Inl (U256CastError_new (U256_from_u64 L n) TooLargeForU32)
        else Inr (ucast n))"

definition try_from_u64 :: "primitive_u256 \<Rightarrow> u256 \<Rightarrow> u256_cast_error + 64 word" where
  "try_from_u64 L n = (let n = pu_low_u128 L n
     in if n > 18446744073709551615 then Inl (U256CastError_new (U256_from_u128 L n) TooLargeForU64)
        else Inr (ucast n))"

definition try_from_u128 :: "primitive_u256 \<Rightarrow> u256 \<Rightarrow> u256_cast_error + 128 word" where
  "try_from_u128 L n =
     (if U256_lt L (U256_from_u128 L 340282366920938463463374607431768211455) n then Inl (U256CastError_new n TooLargeForU128)
      else Inr (pu_low_u128 L n))"

section \<open>Widening multiplication\<close>

definition wmul :: "primitive_u256 \<Rightarrow> u256 \<Rightarrow> u256 \<Rightarrow> u256 \<times> u256" where
  "wmul L self b =
     (let half = 128;
          LOWER_MASK = U256_shr L (U256_max_value L) half;
          low = U256_wrapping_mul L (U256_bitand L self LOWER_MASK) (U256_bitand L b LOWER_MASK);
          t = U256_shr L low half;
          low = U256_bitand L low LOWER_MASK;
          t = U256_add L t (U256_wrapping_mul L (U256_shr L self half) (U256_bitand L b LOWER_MASK));
          low = U256_add L low (U256_shl L (U256_bitand L t LOWER_MASK) half);
          high = U256_shr L t half;
          t = U256_shr L low half;
          low = U256_bitand L low LOWER_MASK;
          t = U256_add L t (U256_wrapping_mul L (U256_shr L b half) (U256_bitand L self LOWER_MASK));
          low = U256_add L low (U256_shl L (U256_bitand L t LOWER_MASK) half);
          high = U256_add L high (U256_shr L t half);
          high = U256_add L high (U256_wrapping_mul L (U256_shr L self half) (U256_shr L b half))
      in (high, low))"

section \<open>Sampling a range\<close>

text \<open>A random number generator is the parameter \<open>fill_bytes\<close>: from its state and a number of
  bytes it gives the bytes and its next state.\<close>

type_synonym 'r fill_bytes = "'r \<Rightarrow> nat \<Rightarrow> bytes \<times> 'r"

definition Standard_sample :: "primitive_u256 \<Rightarrow> 'r fill_bytes \<Rightarrow> 'r \<Rightarrow> u256 \<times> 'r" where
  "Standard_sample L fill_bytes rng =
     (let (dest, rng) = fill_bytes rng U256_NUM_BYTES in (U256_from_le_bytes L dest, rng))"

text \<open>One round of the loop: the draw is accepted when the low half of the product is in the zone.
  The loop draws until one is; it may not return.\<close>

definition sample_step :: "primitive_u256 \<Rightarrow> u256 \<Rightarrow> u256 \<Rightarrow> u256 \<Rightarrow> u256 \<Rightarrow> u256 option" where
  "sample_step L low width zone v =
     (let (hi, lo) = wmul L v width
      in if U256_le L lo zone then Some (U256_wrapping_add L low hi) else None)"

partial_function (option) sample_loop ::
  "primitive_u256 \<Rightarrow> 'r fill_bytes \<Rightarrow> u256 \<Rightarrow> u256 \<Rightarrow> u256 \<Rightarrow> 'r \<Rightarrow> (u256 \<times> 'r) option" where
  "sample_loop L fill_bytes low width zone rng =
     (let (v, rng) = Standard_sample L fill_bytes rng
      in case sample_step L low width zone v of
           Some x \<Rightarrow> Some (x, rng)
         | None \<Rightarrow> sample_loop L fill_bytes low width zone rng)"

text \<open>The size of the inclusive range, which is 0 when the range is all of the type, and the zone of
  \<open>sample_single_inclusive\<close>.\<close>

definition sample_range :: "primitive_u256 \<Rightarrow> u256 \<Rightarrow> u256 \<Rightarrow> u256" where
  "sample_range L low high = U256_wrapping_add L (U256_wrapping_sub L high low) (U256_one L)"

definition sample_zone :: "primitive_u256 \<Rightarrow> u256 \<Rightarrow> u256" where
  "sample_zone L width =
     U256_wrapping_sub L (U256_shl_u32 L width (U256_leading_zeros L width)) (U256_one L)"

record uniform_u256 =
  un_low :: u256
  un_range :: u256
  un_z :: u256

definition new_inclusive :: "primitive_u256 \<Rightarrow> u256 \<Rightarrow> u256 \<Rightarrow> uniform_u256 option" where
  "new_inclusive L low high =
     (if \<not> U256_le L low high then None
      else let unsigned_max = U256_max_value L;
               range = sample_range L low high
           in do { ints_to_reject \<leftarrow>
                     (if U256_lt L (U256_zero L) range
                      then do { rem \<leftarrow> U256_rem L (U256_one L) range;
                                Some (U256_add L (U256_sub L unsigned_max range) rem) }
                      else Some (U256_zero L));
                   Some \<lparr>un_low = low, un_range = range, un_z = ints_to_reject\<rparr> })"

definition UniformU256_new :: "primitive_u256 \<Rightarrow> u256 \<Rightarrow> u256 \<Rightarrow> uniform_u256 option" where
  "UniformU256_new L low high =
     (if \<not> U256_lt L low high then None
      else new_inclusive L low (U256_sub L high (U256_one L)))"

definition UniformU256_sample ::
  "primitive_u256 \<Rightarrow> 'r fill_bytes \<Rightarrow> uniform_u256 \<Rightarrow> 'r \<Rightarrow> (u256 \<times> 'r) option" where
  "UniformU256_sample L fill_bytes self rng =
     (let range = un_range self
      in if U256_lt L (U256_zero L) range
         then let unsigned_max = U256_max_value L;
                  zone = U256_sub L unsigned_max (un_z self)
              in sample_loop L fill_bytes (un_low self) range zone rng
         else Some (Standard_sample L fill_bytes rng))"

definition sample_single_inclusive ::
  "primitive_u256 \<Rightarrow> 'r fill_bytes \<Rightarrow> u256 \<Rightarrow> u256 \<Rightarrow> 'r \<Rightarrow> (u256 \<times> 'r) option" where
  "sample_single_inclusive L fill_bytes low high rng =
     (if \<not> U256_le L low high then None
      else let range = sample_range L low high
           in if range = U256_zero L then Some (Standard_sample L fill_bytes rng)
              else let zone = sample_zone L range
                   in sample_loop L fill_bytes low range zone rng)"

definition sample_single ::
  "primitive_u256 \<Rightarrow> 'r fill_bytes \<Rightarrow> u256 \<Rightarrow> u256 \<Rightarrow> 'r \<Rightarrow> (u256 \<times> 'r) option" where
  "sample_single L fill_bytes low high rng =
     (if \<not> U256_lt L low high then None
      else sample_single_inclusive L fill_bytes low (U256_sub L high (U256_one L)) rng)"

section \<open>What the package promises\<close>

text \<open>
  The documented behaviour of \<open>primitive_types::U256\<close>: comparison and bit operations on the 256-bit
  value, checked operations that give \<open>None\<close> when the exact result does not fit, overflowing
  operations that give the result modulo \<open>2 ^ 256\<close> and whether it wrapped, a division that panics
  on zero, and little-endian bytes.
\<close>

locale primitive_u256_laws =
  fixes L :: primitive_u256
  assumes zero: "pu_zero L = 0" and one: "pu_one L = 1" and max_value: "pu_max_value L = - 1"
    and lt: "pu_lt L x y \<longleftrightarrow> x < y"
    and shl: "pu_shl L x n = push_bit n x" and shr: "pu_shr L x n = drop_bit n x"
    and bitor: "pu_or L x y = x OR y" and bitand: "pu_and L x y = x AND y"
    and bitxor: "pu_xor L x y = x XOR y"
    and quot: "pu_div L x y = (if y = 0 then None else Some (x div y))"
    and remainder: "pu_rem L x y = (if y = 0 then None else Some (x mod y))"
    and checked_add: "pu_checked_add L x y =
          (if unat x + unat y < 2 ^ 256 then Some (x + y) else None)"
    and checked_sub: "pu_checked_sub L x y = (if y \<le> x then Some (x - y) else None)"
    and checked_mul: "pu_checked_mul L x y =
          (if unat x * unat y < 2 ^ 256 then Some (x * y) else None)"
    and checked_div: "pu_checked_div L x y = (if y = 0 then None else Some (x div y))"
    and checked_rem: "pu_checked_rem L x y = (if y = 0 then None else Some (x mod y))"
    and overflowing_add: "pu_overflowing_add L x y = (x + y, 2 ^ 256 \<le> unat x + unat y)"
    and overflowing_sub: "pu_overflowing_sub L x y = (x - y, x < y)"
    and overflowing_mul: "pu_overflowing_mul L x y = (x * y, 2 ^ 256 \<le> unat x * unat y)"
    and low_u64: "pu_low_u64 L x = ucast x" and low_u128: "pu_low_u128 L x = ucast x"
    and leading_zeros: "0 < x \<Longrightarrow> 2 ^ 255 \<le> unat x * 2 ^ pu_leading_zeros L x
          \<and> unat x * 2 ^ pu_leading_zeros L x < 2 ^ 256"
    and from_u8: "pu_from_u8 L b = ucast b" and from_u16: "pu_from_u16 L h = ucast h"
    and from_u32: "pu_from_u32 L i = ucast i" and from_u64: "pu_from_u64 L l = ucast l"
    and from_u128: "pu_from_u128 L q = ucast q"
    and from_le: "length bs = 32 \<Longrightarrow> pu_from_little_endian L bs = word_rcat (rev bs)"
    and to_le: "pu_to_little_endian L x = map (\<lambda>i. ucast (drop_bit (8 * i) x)) [0..<32]"
begin

lemmas laws = zero one max_value lt shl shr bitor bitand bitxor quot remainder checked_add
  checked_sub checked_mul checked_div checked_rem overflowing_add overflowing_sub overflowing_mul
  low_u64 low_u128 from_u8 from_u16 from_u32 from_u64 from_u128

lemmas operators = U256_shl_u32_def U256_shl_def U256_shr_def U256_bitor_def U256_bitand_def
  U256_bitxor_def U256_wrapping_add_def U256_wrapping_sub_def U256_wrapping_mul_def U256_add_def
  U256_sub_def U256_div_def U256_rem_def U256_lt_def U256_le_def U256_zero_def U256_one_def
  U256_max_value_def

lemma mask_is: "U256_shr L (U256_max_value L) 128 = mask 128"
  by (rule bit_word_eqI) (auto simp: operators laws bit_simps)

lemma unat_shr: "unat (U256_shr L x 128) = unat x div 2 ^ 128"
proof -
  have "U256_shr L x 128 = drop_bit 128 x" by (simp add: operators laws)
  moreover have "unat (drop_bit 128 x) = drop_bit 128 (unat x)" by (rule unat_drop_bit_eq)
  ultimately show ?thesis by (simp only: drop_bit_eq_div [of 128 "unat x"])
qed

lemma unat_low: "unat (U256_bitand L x (U256_shr L (U256_max_value L) 128)) = unat x mod 2 ^ 128"
proof -
  have "U256_bitand L x (mask 128) = take_bit 128 x" by (simp add: operators laws take_bit_eq_mask)
  moreover have "unat (take_bit 128 x) = take_bit 128 (unat x)" by (rule unsigned_take_bit_eq)
  ultimately show ?thesis by (simp only: mask_is take_bit_eq_mod [of 128 "unat x"])
qed

lemma unat_shl: "unat x < 2 ^ 128 \<Longrightarrow> unat (U256_shl L x 128) = unat x * 2 ^ 128"
proof -
  assume "unat x < 2 ^ 128"
  then have "unat x * 2 ^ 128 < 2 ^ 256" by simp
  moreover have "U256_shl L x 128 = push_bit 128 x" by (simp add: operators laws)
  moreover have "unat (push_bit 128 x) = take_bit 256 (unat x * 2 ^ 128)"
    using unsigned_push_bit_eq [of 128 x, where 'a = nat] by (simp add: push_bit_eq_mult [of _ "unat x"])
  ultimately show ?thesis by (simp only: take_bit_nat_eq_self)
qed

lemma unat_add: "unat x + unat y < 2 ^ 256 \<Longrightarrow> unat (U256_add L x y) = unat x + unat y"
  by (simp add: operators laws unat_word_ariths)

lemma unat_mul: "unat x * unat y < 2 ^ 256 \<Longrightarrow> unat (U256_wrapping_mul L x y) = unat x * unat y"
  by (simp add: operators laws unat_word_ariths)

end

section \<open>The widening multiplication is exact\<close>

text \<open>The schoolbook product of two numbers of two digits below \<open>M\<close>, with the carries of the source.\<close>

lemma two_digit_product:
  fixes a0 a1 b0 b1 M :: nat
  defines "t1 \<equiv> a0 * b0 div M + a1 * b0"
  defines "t2 \<equiv> t1 mod M + b1 * a0"
  shows "(a1 * M + a0) * (b1 * M + b0) =
    (t1 div M + t2 div M + a1 * b1) * (M * M) + (a0 * b0 mod M + t2 mod M * M)"
proof -
  have "a0 * b0 = a0 * b0 div M * M + a0 * b0 mod M" by simp
  moreover have "t1 = t1 div M * M + t1 mod M" and "t2 = t2 div M * M + t2 mod M" by simp_all
  ultimately have "(a1 * M + a0) * (b1 * M + b0) = a0 * b0 mod M + (t1 * M + b1 * a0 * M) + a1 * b1 * (M * M)"
    unfolding t1_def by (simp add: algebra_simps)
  also have "t1 * M + b1 * a0 * M = t1 div M * (M * M) + t2 * M"
    using \<open>t1 = t1 div M * M + t1 mod M\<close> unfolding t2_def by (metis add.assoc add_mult_distrib mult.assoc)
  also have "t2 * M = t2 div M * (M * M) + t2 mod M * M"
    using \<open>t2 = t2 div M * M + t2 mod M\<close> by (metis add_mult_distrib mult.assoc)
  finally show ?thesis by (simp add: algebra_simps)
qed

lemma digit_carry:
  fixes a b c M :: nat
  assumes "a < M" "b < M" "c < M"
  shows "c + a * b < M * M"
proof -
  from assms have "a * b \<le> (M - 1) * (M - 1)" by (intro mult_mono) auto
  with \<open>c < M\<close> have "c + a * b < M + (M - 1) * (M - 1)" by simp
  also have "\<dots> \<le> M * M" using \<open>c < M\<close> by (cases M) simp_all
  finally show ?thesis .
qed

context primitive_u256_laws
begin

abbreviation "shr128 x \<equiv> U256_shr L x 128"
abbreviation "low128 x \<equiv> U256_bitand L x (U256_shr L (U256_max_value L) 128)"

lemma halves_less: "unat (shr128 x) < 2 ^ 128" "unat (low128 x) < 2 ^ 128"
  using unsigned_less [of x, where 'a = nat] by (simp_all add: unat_shr unat_low)

lemma unat_mul_halves:
  assumes "unat x < 2 ^ 128" and "unat y < 2 ^ 128" and "unat z < 2 ^ 128"
  shows "unat (U256_add L z (U256_wrapping_mul L x y)) = unat z + unat x * unat y"
proof -
  from digit_carry [OF assms] have "unat z + unat x * unat y < 2 ^ 256" by simp
  moreover from this have "unat x * unat y < 2 ^ 256" by simp
  ultimately show ?thesis by (simp add: unat_add unat_mul)
qed

lemma unat_join: "unat (U256_add L (low128 x) (U256_shl L (low128 y) 128)) =
    unat x mod 2 ^ 128 + unat y mod 2 ^ 128 * 2 ^ 128"
proof -
  have "unat (low128 x) + unat (low128 y) * 2 ^ 128 < 2 ^ 256"
    using halves_less(2) [of x] halves_less(2) [of y] by simp
  then show ?thesis
    using halves_less(2) [of y] by (simp add: unat_add unat_shl unat_low del: power_numeral)
qed

lemma wmul_exact:
  assumes "wmul L a b = (hi, lo)"
  shows "unat hi * 2 ^ 256 + unat lo = unat a * unat b"
proof -
  let ?M = "2 ^ 128 :: nat"
  let ?a0 = "unat a mod ?M" and ?a1 = "unat a div ?M" and ?b0 = "unat b mod ?M" and ?b1 = "unat b div ?M"
  define p where "p = U256_wrapping_mul L (low128 a) (low128 b)"
  define t where "t = U256_add L (shr128 p) (U256_wrapping_mul L (shr128 a) (low128 b))"
  define l where "l = U256_add L (low128 p) (U256_shl L (low128 t) 128)"
  define u where "u = U256_add L (shr128 l) (U256_wrapping_mul L (shr128 b) (low128 a))"
  define h where "h = U256_add L (shr128 t) (shr128 u)"
  have hi: "hi = U256_add L h (U256_wrapping_mul L (shr128 a) (shr128 b))"
    and lo: "lo = U256_add L (low128 l) (U256_shl L (low128 u) 128)"
    using assms by (simp_all add: wmul_def Let_def p_def t_def l_def u_def h_def)
  have "unat (low128 a) * unat (low128 b) < 2 ^ 256"
    using digit_carry [OF halves_less(2) [of a] halves_less(2) [of b], of 0] by simp
  then have p: "unat p = ?a0 * ?b0" by (simp only: p_def unat_mul unat_low)
  have t: "unat t = ?a0 * ?b0 div ?M + ?a1 * ?b0"
    unfolding t_def unat_mul_halves [OF halves_less(1,2) halves_less(1)] by (simp only: unat_shr unat_low p)
  have l: "unat l = ?a0 * ?b0 mod ?M + unat t mod ?M * ?M"
    unfolding l_def unat_join by (simp only: p)
  have "unat l div ?M = unat t mod ?M" and lm: "unat l mod ?M = ?a0 * ?b0 mod ?M"
    unfolding l by (simp_all del: power_numeral)
  then have u: "unat u = unat t mod ?M + ?b1 * ?a0"
    unfolding u_def unat_mul_halves [OF halves_less(1,2) halves_less(1)] by (simp only: unat_shr unat_low)
  have "unat (shr128 t) + unat (shr128 u) < 2 ^ 256" 
    using halves_less(1) [of t] halves_less(1) [of u] by simp
  then have h: "unat h = unat t div ?M + unat u div ?M"
    unfolding h_def by (simp only: unat_add unat_shr)
  have lo': "unat lo = ?a0 * ?b0 mod ?M + unat u mod ?M * ?M"
    unfolding lo unat_join by (simp only: lm)
  have "unat a * unat b = (?a1 * ?M + ?a0) * (?b1 * ?M + ?b0)" by (simp only: div_mult_mod_eq)
  also have "\<dots> = (unat h + ?a1 * ?b1) * (?M * ?M) + unat lo"
    unfolding h lo' u t by (rule two_digit_product)
  finally have prod: "unat a * unat b = (unat h + ?a1 * ?b1) * (?M * ?M) + unat lo" .
  have "unat a < ?M * ?M" and "unat b < ?M * ?M"
    using unsigned_less [of a, where 'a = nat] unsigned_less [of b, where 'a = nat] by simp_all
  then have "unat a * unat b < (?M * ?M) * (?M * ?M)" by (rule mult_strict_mono') simp_all
  then have "(unat h + ?a1 * ?b1) * (?M * ?M) < (?M * ?M) * (?M * ?M)" unfolding prod by linarith
  then have "unat h + ?a1 * ?b1 < ?M * ?M" by (simp only: mult_less_cancel2)
  then have "unat hi = unat h + ?a1 * ?b1"
    unfolding hi by (simp add: unat_add unat_mul unat_shr)
  with prod show ?thesis by simp
qed

end

section \<open>Sampling is uniform\<close>

text \<open>The numbers of draws with a given quotient: exactly \<open>k\<close> multiples of \<open>w\<close> lie in an interval of
  length \<open>k * w\<close>.\<close>

lemma multiples_in_interval:
  fixes w k s :: nat
  assumes "0 < w"
  shows "card {v. s \<le> v * w \<and> v * w < s + k * w} = k"
proof -
  define c where "c = (s + (w - 1)) div w"
  have ge: "s \<le> v * w \<longleftrightarrow> c \<le> v" for v
  proof -
    have "c \<le> v \<longleftrightarrow> (s + (w - 1)) div w < Suc v" by (simp add: c_def less_Suc_eq_le)
    also have "\<dots> \<longleftrightarrow> s + (w - 1) < Suc v * w" using assms by (rule div_less_iff_less_mult)
    finally show ?thesis using assms by auto
  qed
  have "v * w < s + k * w \<longleftrightarrow> v < c + k" for v
  proof (cases "k \<le> v")
    case True
    then have "v * w < s + k * w \<longleftrightarrow> (v - k) * w < s"
      by (metis add_less_cancel_right diff_mult_distrib le_add_diff_inverse2 mult_le_mono1)
    with ge [of "v - k"] True show ?thesis by auto
  next
    case False
    then have "v * w < k * w" using assms by simp
    then have "v * w < s + k * w" by (rule trans_less_add2)
    with False show ?thesis by simp
  qed
  with ge have "{v. s \<le> v * w \<and> v * w < s + k * w} = {c..<c + k}" by auto
  then show ?thesis by simp
qed

lemma draws_with_quotient:
  fixes w k h N :: nat
  assumes "0 < w" and "k * w \<le> N" and "h < w"
  shows "card {v. v < N \<and> v * w mod N < k * w \<and> v * w div N = h} = k"
proof -
  have "v < N \<and> v * w mod N < k * w \<and> v * w div N = h \<longleftrightarrow> h * N \<le> v * w \<and> v * w < h * N + k * w" for v
  proof
    assume *: "v < N \<and> v * w mod N < k * w \<and> v * w div N = h"
    moreover have "v * w = v * w div N * N + v * w mod N" by simp
    ultimately show "h * N \<le> v * w \<and> v * w < h * N + k * w" by simp
  next
    assume *: "h * N \<le> v * w \<and> v * w < h * N + k * w"
    then have lt: "v * w < h * N + N" using assms(2) by simp
    also have "\<dots> \<le> w * N" using assms(3) by (metis Suc_leI add.commute mult_Suc mult_le_mono1)
    finally have "v < N" by simp
    moreover from * lt have q: "v * w div N = h" by (intro div_nat_eqI) (simp_all add: mult.commute [of N])
    moreover from * have "v * w mod N < k * w"
      using q by (simp add: minus_div_mult_eq_mod [symmetric]) linarith
    ultimately show "v < N \<and> v * w mod N < k * w \<and> v * w div N = h" by simp
  qed
  then show ?thesis using multiples_in_interval [OF assms(1)] by simp
qed

context primitive_u256_laws
begin

lemma wmul_div_mod:
  "unat (fst (wmul L v width)) = unat v * unat width div 2 ^ 256"
  "unat (snd (wmul L v width)) = unat v * unat width mod 2 ^ 256"
proof -
  obtain hi lo where w: "wmul L v width = (hi, lo)" by (cases "wmul L v width")
  have lo: "unat lo < 2 ^ 256" using unsigned_less [of lo, where 'a = nat] by simp
  have e: "unat v * unat width = unat lo + unat hi * 2 ^ 256" using wmul_exact [OF w] by simp
  show "unat (fst (wmul L v width)) = unat v * unat width div 2 ^ 256"
    unfolding e w using lo by (simp only: div_mult_self1 fst_conv) simp
  show "unat (snd (wmul L v width)) = unat v * unat width mod 2 ^ 256"
    unfolding e w using lo by (simp only: mod_mult_self1 snd_conv) simp
qed

lemma sample_step_count:
  assumes width: "0 < unat width" and zone: "unat zone + 1 = k * unat width"
    and h: "unat h < unat width"
  shows "card {v. sample_step L low width zone v = Some (low + h)} = k"
proof -
  have kw: "k * unat width \<le> 2 ^ 256"
    unfolding zone [symmetric] using unsigned_less [of zone, where 'a = nat] by simp
  have step: "sample_step L low width zone v = Some (low + h) \<longleftrightarrow>
      unat v * unat width mod 2 ^ 256 < k * unat width \<and> unat v * unat width div 2 ^ 256 = unat h" for v
    unfolding sample_step_def zone [symmetric] wmul_div_mod [symmetric]
    by (auto simp: operators laws case_prod_unfold Let_def word_le_nat_alt word_less_nat_alt less_Suc_eq_le
        split: if_splits simp flip: word_unat_eq_iff [of _ h])
  have "unat ` {v. sample_step L low width zone v = Some (low + h)} =
      {v. v < 2 ^ 256 \<and> v * unat width mod 2 ^ 256 < k * unat width \<and> v * unat width div 2 ^ 256 = unat h}"
    (is "unat ` ?A = ?B")
  proof (intro equalityI subsetI)
    fix n assume "n \<in> ?B"
    moreover from this have "unat (of_nat n :: u256) = n" by (simp add: unsigned_of_nat take_bit_nat_eq_self)
    ultimately show "n \<in> unat ` ?A" unfolding step by (intro image_eqI [of _ _ "of_nat n"]) simp_all
  next
    fix n assume "n \<in> unat ` ?A"
    then obtain v :: u256 where "n = unat v" and "v \<in> ?A" by blast
    moreover have "unat v < 2 ^ 256" using unsigned_less [of v, where 'a = nat] by simp
    ultimately show "n \<in> ?B" unfolding step by (simp only: mem_Collect_eq)
  qed
  moreover have "card (unat ` ?A) = card ?A" by (rule card_image) (simp add: inj_on_def word_unat_eq_iff)
  ultimately have "card ?A = card ?B" by simp
  also have "\<dots> = k" using width kw h by (rule draws_with_quotient)
  finally show ?thesis .
qed

end

section \<open>The package on words\<close>

text \<open>A count of leading zeros, from the top bit down.\<close>

fun count_lz :: "nat \<Rightarrow> u256 \<Rightarrow> nat" where
  "count_lz 0 x = 0"
| "count_lz (Suc n) x = (if bit x n then 0 else Suc (count_lz n x))"

definition word_u256 :: primitive_u256 where
  "word_u256 = \<lparr>pu_zero = 0, pu_one = 1, pu_max_value = - 1, pu_lt = (<),
     pu_shl = (\<lambda>x n. push_bit n x), pu_shr = (\<lambda>x n. drop_bit n x),
     pu_or = (OR), pu_and = (AND), pu_xor = (XOR),
     pu_div = (\<lambda>x y. if y = 0 then None else Some (x div y)),
     pu_rem = (\<lambda>x y. if y = 0 then None else Some (x mod y)),
     pu_checked_add = (\<lambda>x y. if unat x + unat y < 2 ^ 256 then Some (x + y) else None),
     pu_checked_sub = (\<lambda>x y. if y \<le> x then Some (x - y) else None),
     pu_checked_mul = (\<lambda>x y. if unat x * unat y < 2 ^ 256 then Some (x * y) else None),
     pu_checked_div = (\<lambda>x y. if y = 0 then None else Some (x div y)),
     pu_checked_rem = (\<lambda>x y. if y = 0 then None else Some (x mod y)),
     pu_overflowing_add = (\<lambda>x y. (x + y, 2 ^ 256 \<le> unat x + unat y)),
     pu_overflowing_sub = (\<lambda>x y. (x - y, x < y)),
     pu_overflowing_mul = (\<lambda>x y. (x * y, 2 ^ 256 \<le> unat x * unat y)),
     pu_low_u64 = ucast, pu_low_u128 = ucast, pu_leading_zeros = count_lz 256,
     pu_from_u8 = ucast, pu_from_u16 = ucast, pu_from_u32 = ucast, pu_from_u64 = ucast,
     pu_from_u128 = ucast, pu_from_little_endian = (\<lambda>bs. word_rcat (rev bs)),
     pu_to_little_endian = (\<lambda>x. map (\<lambda>i. ucast (drop_bit (8 * i) x)) [0..<32])\<rparr>"

lemma count_lz_range:
  "unat x < 2 ^ n \<Longrightarrow> 0 < x \<Longrightarrow>
     2 ^ n \<le> 2 * (unat x * 2 ^ count_lz n x) \<and> unat x * 2 ^ count_lz n x < 2 ^ n"
proof (induction n)
  case 0
  then show ?case by (simp add: word_less_nat_alt)
next
  case (Suc n)
  show ?case
  proof (cases "bit x n")
    case True
    then have "bit (unat x) n" by (simp add: bit_unsigned_iff)
    then have "odd (unat x div 2 ^ n)" by (simp add: bit_iff_odd)
    then have "unat x div 2 ^ n \<noteq> 0" by (metis even_zero)
    then have "2 ^ n \<le> unat x" by (metis div_less not_less)
    with True Suc.prems show ?thesis by simp
  next
    case False
    have "\<not> 2 ^ n \<le> unat x"
    proof
      assume "2 ^ n \<le> unat x"
      with Suc.prems have "unat x div 2 ^ n = 1" by (simp add: div_nat_eqI)
      then have "bit (unat x) n" by (simp add: bit_iff_odd)
      with False show False by (simp add: bit_unsigned_iff)
    qed
    then have "unat x < 2 ^ n" by simp
    from Suc.IH [OF this Suc.prems(2)] False show ?thesis by simp
  qed
qed

interpretation w256: primitive_u256_laws word_u256
proof
  fix x :: u256 assume "0 < x"
  have "unat x < 2 ^ 256" using unsigned_less [of x, where 'a = nat] by simp
  from count_lz_range [OF this \<open>0 < x\<close>]
  show "2 ^ 255 \<le> unat x * 2 ^ pu_leading_zeros word_u256 x
     \<and> unat x * 2 ^ pu_leading_zeros word_u256 x < 2 ^ 256"
    by (simp add: word_u256_def)
qed (simp_all add: word_u256_def)

section \<open>Properties\<close>

text \<open>The number of bytes, the state after \<open>n\<close> draws, and the \<open>n\<close>-th draw.\<close>

primrec rng_after :: "primitive_u256 \<Rightarrow> 'r fill_bytes \<Rightarrow> 'r \<Rightarrow> nat \<Rightarrow> 'r" where
  "rng_after L fill_bytes rng 0 = rng"
| "rng_after L fill_bytes rng (Suc n) = snd (Standard_sample L fill_bytes (rng_after L fill_bytes rng n))"

definition nth_draw :: "primitive_u256 \<Rightarrow> 'r fill_bytes \<Rightarrow> 'r \<Rightarrow> nat \<Rightarrow> u256" where
  "nth_draw L fill_bytes rng n = fst (Standard_sample L fill_bytes (rng_after L fill_bytes rng n))"

lemma rng_after_Suc: "rng_after L f rng (Suc n) = rng_after L f (snd (Standard_sample L f rng)) n"
  by (induction n) simp_all

lemma sample_loop_first:
  assumes "sample_step L low width zone (nth_draw L f rng n) = Some x"
    and "\<forall>m < n. sample_step L low width zone (nth_draw L f rng m) = None"
  shows "sample_loop L f low width zone rng = Some (x, rng_after L f rng (Suc n))"
  using assms
proof (induction n arbitrary: rng)
  case 0
  then show ?case by (subst sample_loop.simps) (simp add: nth_draw_def case_prod_unfold)
next
  case (Suc n)
  have shift: "nth_draw L f (snd (Standard_sample L f rng)) m = nth_draw L f rng (Suc m)" for m
    by (simp add: nth_draw_def rng_after_Suc del: rng_after.simps(2))
  from Suc.prems(2) have "sample_step L low width zone (fst (Standard_sample L f rng)) = None"
    by (auto simp: nth_draw_def dest!: spec [of _ 0])
  moreover have "sample_loop L f low width zone (snd (Standard_sample L f rng)) =
      Some (x, rng_after L f (snd (Standard_sample L f rng)) (Suc n))"
    using Suc.prems by (intro Suc.IH) (simp_all add: shift)
  ultimately show ?case
    by (subst sample_loop.simps) (simp add: case_prod_unfold rng_after_Suc del: rng_after.simps(2))
qed

text \<open>The range and the zone that \<open>sample_single_inclusive\<close> and \<open>new_inclusive\<close> compute.\<close>

context primitive_u256_laws
begin

lemma range_value:
  assumes "low \<le> high" and "sample_range L low high \<noteq> 0"
  shows "unat (sample_range L low high) = unat high - unat low + 1"
proof -
  have "high - low + 1 \<noteq> 0" using assms(2) by (simp add: operators laws sample_range_def sample_zone_def)
  then have "unat (high - low + 1) = unat (high - low) + 1"
    by (metis Suc_eq_plus1 add.commute unatSuc)
  with assms(1) show ?thesis by (simp add: operators laws sample_range_def sample_zone_def unat_sub)
qed

lemma single_zone:
  assumes "0 < width"
  shows "unat (sample_zone L width) + 1
     = 2 ^ pu_leading_zeros L width * unat width"
proof -
  let ?z = "pu_leading_zeros L width"
  from leading_zeros [OF assms] have lt: "unat width * 2 ^ ?z < 2 ^ 256" and pos: "0 < unat width * 2 ^ ?z"
    using assms by (simp_all add: word_less_nat_alt)
  have "unat (push_bit ?z width) = take_bit 256 (unat width * 2 ^ ?z)"
    using unsigned_push_bit_eq [of ?z width, where 'a = nat] by (simp add: push_bit_eq_mult [of _ "unat width"])
  with lt have u: "unat (push_bit ?z width) = unat width * 2 ^ ?z" by (simp add: take_bit_nat_eq_self)
  with pos have "1 \<le> push_bit ?z width" by (simp add: word_le_nat_alt)
  then have "unat (push_bit ?z width - 1) = unat width * 2 ^ ?z - 1" by (simp add: unat_sub u)
  with pos show ?thesis by (simp add: operators laws sample_range_def sample_zone_def U256_leading_zeros_def mult.commute)
qed

end

text \<open>The properties of the sampling, for the package's laws.\<close>

context primitive_u256_laws
begin

lemma sample_step_bounds:
  assumes "low \<le> high" and "sample_range L low high \<noteq> 0"
    and "sample_step L low (sample_range L low high) zone v = Some x"
  shows "low \<le> x \<and> x \<le> high"
proof -
  let ?w = "sample_range L low high" and ?h = "fst (wmul L v (sample_range L low high))"
  have x: "x = low + ?h"
    using assms(3) by (auto simp: sample_step_def operators laws case_prod_unfold Let_def split: if_splits)
  have "0 < unat ?w" unfolding range_value [OF assms(1,2)] by simp
  moreover have "unat v < 2 ^ 256" using unsigned_less [of v, where 'a = nat] by simp
  ultimately have "unat v * unat ?w < 2 ^ 256 * unat ?w" by (simp only: mult_less_cancel2)
  then have "unat ?h < unat ?w" unfolding wmul_div_mod by (simp add: less_mult_imp_div_less mult.commute)
  then have "unat ?h \<le> unat high - unat low" by (simp add: range_value [OF assms(1,2)])
  then have "unat low + unat ?h \<le> unat high" using assms(1) by (simp add: word_le_nat_alt)
  moreover from this have "unat (low + ?h) = unat low + unat ?h"
    using unsigned_less [of high, where 'a = nat] by (simp add: unat_word_ariths)
  ultimately show ?thesis unfolding x by (simp add: word_le_nat_alt)
qed

lemma sample_step_uniform:
  assumes "low \<le> x" and "x \<le> high" and "sample_range L low high \<noteq> 0"
    and "unat zone + 1 = k * unat (sample_range L low high)"
  shows "card {v. sample_step L low (sample_range L low high) zone v = Some x} = k"
proof -
  have "low \<le> high" using assms(1,2) by simp
  note w = range_value [OF this assms(3)]
  have "unat (x - low) \<le> unat high - unat low"
    using assms(1,2) by (simp add: unat_sub word_le_nat_alt)
  then have "unat (x - low) < unat (sample_range L low high)" by (simp add: w)
  from sample_step_count [OF _ assms(4) this, of low] w show ?thesis by simp
qed

lemma sample_zone_uniform:
  assumes "low \<le> x" and "x \<le> high" and "sample_range L low high \<noteq> 0"
  shows "card {v. sample_step L low (sample_range L low high) (sample_zone L (sample_range L low high)) v = Some x}
    = 2 ^ pu_leading_zeros L (sample_range L low high)"
  using assms by (intro sample_step_uniform single_zone) (simp_all add: word_neq_0_conv)

lemma uniform_new_zone:
  assumes "new_inclusive L low high = Some u" and "low < high" and "un_range u \<noteq> 0"
  shows "un_range u = sample_range L low high"
    and "unat (U256_sub L (U256_max_value L) (un_z u)) + 1 = 1 * unat (sample_range L low high)"
proof -
  show r: "un_range u = sample_range L low high"
    using assms(1) by (auto simp: new_inclusive_def Let_def split: if_splits Option.bind_splits)
  let ?w = "sample_range L low high"
  from r assms(3) have w: "?w \<noteq> 0" by simp
  have "unat low < unat high" using assms(2) by (simp add: word_less_nat_alt)
  with range_value [OF order_less_imp_le [OF assms(2)] w] have "1 < unat ?w" by simp
  then have "1 < ?w" by (simp add: word_less_nat_alt)
  then have one: "1 mod ?w = 1" by (rule mod_word_less)
  have "un_z u = (- 1 - ?w) + 1 mod ?w"
    using assms(1) w by (auto simp: new_inclusive_def Let_def operators laws word_neq_0_conv
        split: if_splits Option.bind_splits)
  then have "U256_sub L (U256_max_value L) (un_z u) = ?w - 1"
    using one \<open>1 < ?w\<close> by (auto simp: operators laws)
  with \<open>1 < ?w\<close> show "unat (U256_sub L (U256_max_value L) (un_z u)) + 1 = 1 * unat ?w"
    by (simp add: unat_sub word_le_nat_alt word_less_nat_alt)
qed

end

text \<open>Serialisation writes the little-endian bytes and reads them back.\<close>

lemma horner_sum_bytes:
  fixes n :: int
  assumes "0 \<le> n"
  shows "horner_sum (\<lambda>i. n div 2 ^ (8 * i) mod 256) 256 [0..<k] = n mod 256 ^ k"
proof (induction k)
  case (Suc k)
  have "(2 :: int) ^ (8 * k) = 256 ^ k" by (simp add: power_mult)
  then show ?case
    using Suc zmod_zmult2_eq [of 256 n "256 ^ k"] by (simp add: horner_sum_append mult.commute)
qed simp

lemma le_bytes_roundtrip:
  assumes "primitive_u256_laws L"
  shows "U256_from_le_bytes L (U256_to_le_bytes L x) = x"
proof -
  have "uint (drop_bit n x) = uint x div 2 ^ n" for n
    unfolding uint_nat unat_drop_bit_eq by (simp only: drop_bit_eq_div zdiv_int of_nat_power of_nat_numeral)
  then have byte: "uint (ucast (drop_bit (8 * i) x) :: 8 word) = uint x div 2 ^ (8 * i) mod 256" for i
    by (simp add: unsigned_ucast_eq) (simp add: take_bit_eq_mod)
  from assms have "U256_from_le_bytes L (U256_to_le_bytes L x) =
      word_of_int (horner_sum (\<lambda>i. uint (ucast (drop_bit (8 * i) x) :: 8 word)) 256 [0..<32])"
    by (simp add: U256_from_le_bytes_def U256_to_le_bytes_def primitive_u256_laws.to_le
        primitive_u256_laws.from_le word_rcat_def horner_sum_foldr foldr_map comp_def del: upt_rec_numeral)
  also have "\<dots> = word_of_int (uint x mod 256 ^ 32)"
    unfolding byte by (simp only: horner_sum_bytes uint_nonnegative)
  also have "\<dots> = x"
    using unsigned_less [of x, where 'a = int] by (simp add: mod_pos_pos_trivial)
  finally show ?thesis .
qed

text \<open>The conversions to the small types look at the low 64 bits only: a value of \<open>2 ^ 64\<close> or more
  may convert, to a value it is not.\<close>

lemma try_from_truncates:
  assumes "primitive_u256_laws L"
  shows "try_from_u8 L (2 ^ 64) = Inr 0" "try_from_u16 L (2 ^ 64) = Inr 0"
    "try_from_u32 L (2 ^ 64) = Inr 0" "try_from_u64 L (2 ^ 128) = Inr 0"
  using assms by (simp_all add: try_from_u8_def try_from_u16_def try_from_u32_def try_from_u64_def
      primitive_u256_laws.low_u64 primitive_u256_laws.low_u128)

text \<open>The sampler that \<open>new_inclusive\<close> builds accepts one draw of \<open>2 ^ 256\<close> for each value of the
  range: the zone is \<open>range - 1\<close>, because the remainder is taken of 1 alone.\<close>

lemma uniform_accepts_one_draw:
  assumes "primitive_u256_laws L" and "new_inclusive L low high = Some u" and "low < high"
    and "un_range u \<noteq> 0" and "low \<le> x" and "x \<le> high"
  shows "card {v. sample_step L low (un_range u) (U256_sub L (U256_max_value L) (un_z u)) v = Some x} = 1"
proof -
  note zone = primitive_u256_laws.uniform_new_zone [OF assms(1-4)]
  have "sample_range L low high \<noteq> 0" using zone(1) assms(4) by simp
  from primitive_u256_laws.sample_step_uniform [OF assms(1,5,6) this zone(2)] show ?thesis
    by (simp only: zone(1))
qed

text \<open>(C24) The widening multiplication returns the two halves of the exact 512-bit product of its
  arguments: no carry between the four partial products is lost.\<close>

theorem wmul_product:
  assumes "primitive_u256_laws L"
  shows "unat (fst (wmul L a b)) * 2 ^ 256 + unat (snd (wmul L a b)) = unat a * unat b"
  by (rule primitive_u256_laws.wmul_exact [OF assms]) simp

theorem wmul_product_witness:
  "unat (fst (wmul word_u256 (- 1) (- 1))) * 2 ^ 256 + unat (snd (wmul word_u256 (- 1) (- 1)))
     = unat (- 1 :: u256) * unat (- 1 :: u256)"
  by (rule wmul_product [OF w256.primitive_u256_laws_axioms])

text \<open>(C25) Sampling one value of an inclusive range is uniform: each value of the range is the result
  of the same number of draws, \<open>2\<close> to the number of leading zeros of the size of the range, and no
  draw gives a value outside it.  At least half of all draws are accepted.\<close>

theorem sample_single_uniform:
  assumes "primitive_u256_laws L" and "low \<le> high" and "sample_range L low high \<noteq> 0"
  shows "card {v. sample_step L low (sample_range L low high)
                     (sample_zone L (sample_range L low high)) v = Some x}
       = (if low \<le> x \<and> x \<le> high then 2 ^ U256_leading_zeros L (sample_range L low high) else 0)
     \<and> 2 ^ 255 \<le> (unat high - unat low + 1) * 2 ^ U256_leading_zeros L (sample_range L low high)"
proof (rule conjI)
  show "card {v. sample_step L low (sample_range L low high)
                     (sample_zone L (sample_range L low high)) v = Some x}
       = (if low \<le> x \<and> x \<le> high then 2 ^ U256_leading_zeros L (sample_range L low high) else 0)"
    (is "card ?A = _")
  proof (cases "low \<le> x \<and> x \<le> high")
    case True
    with primitive_u256_laws.sample_zone_uniform [OF assms(1) _ _ assms(3)] show ?thesis
      by (simp add: U256_leading_zeros_def)
  next
    case False
    have "?A = {}" using primitive_u256_laws.sample_step_bounds [OF assms] False by blast
    with False show ?thesis by simp
  qed
  have "0 < sample_range L low high" using assms(3) by (simp add: word_neq_0_conv)
  from primitive_u256_laws.leading_zeros [OF assms(1) this]
  show "2 ^ 255 \<le> (unat high - unat low + 1) * 2 ^ U256_leading_zeros L (sample_range L low high)"
    by (simp add: primitive_u256_laws.range_value [OF assms] U256_leading_zeros_def)
qed

theorem sample_single_uniform_witness:
  "card {v. sample_step word_u256 10 (sample_range word_u256 10 15)
              (sample_zone word_u256 (sample_range word_u256 10 15)) v = Some 12}
     = 2 ^ U256_leading_zeros word_u256 (sample_range word_u256 10 15)"
proof -
  have "sample_range word_u256 10 15 \<noteq> 0"
    by (simp add: sample_range_def U256_wrapping_add_def U256_wrapping_sub_def U256_one_def word_u256_def)
  from sample_single_uniform [OF w256.primitive_u256_laws_axioms _ this, of 12] show ?thesis by simp
qed

text \<open>(C26) Sampling a range returns as soon as one of the draws is accepted, whatever the generator,
  and the value is in the range.  When the range is all of the type the first draw is the result.\<close>

theorem sample_single_returns:
  assumes "primitive_u256_laws L" and "low \<le> high"
    and "sample_range L low high = 0 \<or>
      (\<exists>n. sample_step L low (sample_range L low high) (sample_zone L (sample_range L low high))
             (nth_draw L fill_bytes rng n) \<noteq> None)"
  shows "\<exists>x rng'. sample_single_inclusive L fill_bytes low high rng = Some (x, rng')
    \<and> (sample_range L low high \<noteq> 0 \<longrightarrow> low \<le> x \<and> x \<le> high)"
proof (cases "sample_range L low high = 0")
  case True
  with assms(1,2) show ?thesis
    by (simp add: sample_single_inclusive_def U256_le_def U256_zero_def primitive_u256_laws.lt
        primitive_u256_laws.zero)
next
  case False
  let ?step = "\<lambda>n. sample_step L low (sample_range L low high) (sample_zone L (sample_range L low high))
      (nth_draw L fill_bytes rng n)"
  define n where "n = (LEAST n. ?step n \<noteq> None)"
  from False assms(3) have "\<exists>n. ?step n \<noteq> None" by simp
  then have "?step n \<noteq> None" unfolding n_def by (rule LeastI_ex)
  then obtain x where x: "?step n = Some x" by (cases "?step n") simp_all
  have "\<forall>m < n. ?step m = None" unfolding n_def using not_less_Least by blast
  from sample_loop_first [OF x this]
  have "sample_single_inclusive L fill_bytes low high rng = Some (x, rng_after L fill_bytes rng (Suc n))"
    using False assms(1,2) by (simp add: sample_single_inclusive_def U256_le_def U256_zero_def
        primitive_u256_laws.lt primitive_u256_laws.zero Let_def)
  with primitive_u256_laws.sample_step_bounds [OF assms(1,2) False x] show ?thesis by blast
qed

theorem sample_single_returns_witness:
  "\<exists>x rng'. sample_single_inclusive word_u256 (\<lambda>r n. (replicate n 0, r)) 10 15 () = Some (x, rng')
    \<and> (sample_range word_u256 10 15 \<noteq> 0 \<longrightarrow> 10 \<le> x \<and> x \<le> 15)"
proof -
  have "wmul word_u256 0 x = (0, 0)" for x
    using w256.wmul_exact [of 0 x] by (cases "wmul word_u256 0 x") (simp add: unat_eq_0)
  moreover have "horner_sum uint 256 (replicate n (0 :: u8)) = 0" for n by (induction n) simp_all
  then have "nth_draw word_u256 (\<lambda>r n. (replicate n 0, r)) () 0 = 0"
    by (simp add: nth_draw_def Standard_sample_def U256_from_le_bytes_def word_u256_def word_rcat_def)
  ultimately have "sample_step word_u256 10 w z (nth_draw word_u256 (\<lambda>r n. (replicate n 0, r)) () 0) \<noteq> None"
    for w z by (simp add: sample_step_def U256_le_def w256.lt)
  then show ?thesis
    by (intro sample_single_returns [OF w256.primitive_u256_laws_axioms]) (simp, blast)
qed

end
