(* ===== verification/Move_Integers.thy ===== *)
theory Move_Integers
  imports Move_U256
begin

unbundle bit_operations_syntax

text \<open>
  The integer values of the Move virtual machine (\<open>IntegerValue\<close> in
  \<open>move-vm-types/src/values/values_impl.rs\<close>): checked arithmetic, bit operations, shifts,
  comparisons and casts of the six integer types.  The arithmetic of the primitive types is the
  standard library's \<open>checked_add\<close> and its companions, on words; the 256-bit operations are those of
  \<open>Move_U256\<close>.  The message of an error is left out, its status code kept.

  The specification \<open>exact\<close> says what an operation means: on two values of one type it computes on
  the natural numbers they stand for, and gives the result when the type can hold it.
\<close>

section \<open>The standard library's checked arithmetic\<close>

definition checked_add :: "'a::len word \<Rightarrow> 'a word \<Rightarrow> 'a word option" where
  "checked_add l r = (if unat l + unat r < 2 ^ LENGTH('a) then Some (l + r) else None)"

definition checked_sub :: "'a::len word \<Rightarrow> 'a word \<Rightarrow> 'a word option" where
  "checked_sub l r = (if r \<le> l then Some (l - r) else None)"

definition checked_mul :: "'a::len word \<Rightarrow> 'a word \<Rightarrow> 'a word option" where
  "checked_mul l r = (if unat l * unat r < 2 ^ LENGTH('a) then Some (l * r) else None)"

definition checked_div :: "'a::len word \<Rightarrow> 'a word \<Rightarrow> 'a word option" where
  "checked_div l r = (if r = 0 then None else Some (l div r))"

definition checked_rem :: "'a::len word \<Rightarrow> 'a word \<Rightarrow> 'a word option" where
  "checked_rem l r = (if r = 0 then None else Some (l mod r))"

text \<open>An \<open>Option\<close> turned into a \<open>Result\<close>.\<close>

definition ok_or :: "'e \<Rightarrow> 'a option \<Rightarrow> 'e + 'a" where
  "ok_or e x = (case x of Some y \<Rightarrow> Inr y | None \<Rightarrow> Inl e)"

section \<open>Integer values\<close>

datatype status_code = INTERNAL_TYPE_ERROR | ARITHMETIC_ERROR

datatype integer_value =
    U8 "8 word"
  | U16 "16 word"
  | U32 "32 word"
  | U64 "64 word"
  | U128 "128 word"
  | U256 u256

text \<open>Reading a value at its own type.\<close>

definition value_as_u8 :: "integer_value \<Rightarrow> status_code + 8 word" where
  "value_as_u8 v = (case v of U8 x \<Rightarrow> Inr x | _ \<Rightarrow> Inl INTERNAL_TYPE_ERROR)"

definition value_as_u16 :: "integer_value \<Rightarrow> status_code + 16 word" where
  "value_as_u16 v = (case v of U16 x \<Rightarrow> Inr x | _ \<Rightarrow> Inl INTERNAL_TYPE_ERROR)"

definition value_as_u32 :: "integer_value \<Rightarrow> status_code + 32 word" where
  "value_as_u32 v = (case v of U32 x \<Rightarrow> Inr x | _ \<Rightarrow> Inl INTERNAL_TYPE_ERROR)"

definition value_as_u64 :: "integer_value \<Rightarrow> status_code + 64 word" where
  "value_as_u64 v = (case v of U64 x \<Rightarrow> Inr x | _ \<Rightarrow> Inl INTERNAL_TYPE_ERROR)"

definition value_as_u128 :: "integer_value \<Rightarrow> status_code + 128 word" where
  "value_as_u128 v = (case v of U128 x \<Rightarrow> Inr x | _ \<Rightarrow> Inl INTERNAL_TYPE_ERROR)"

definition value_as_u256 :: "integer_value \<Rightarrow> status_code + 256 word" where
  "value_as_u256 v = (case v of U256 x \<Rightarrow> Inr x | _ \<Rightarrow> Inl INTERNAL_TYPE_ERROR)"

section \<open>Arithmetic\<close>

fun add_checked :: "primitive_u256 \<Rightarrow> integer_value \<Rightarrow> integer_value \<Rightarrow> status_code + integer_value" where
  "add_checked L (U8 l) (U8 r) = ok_or ARITHMETIC_ERROR (map_option U8 (checked_add l r))"
| "add_checked L (U16 l) (U16 r) = ok_or ARITHMETIC_ERROR (map_option U16 (checked_add l r))"
| "add_checked L (U32 l) (U32 r) = ok_or ARITHMETIC_ERROR (map_option U32 (checked_add l r))"
| "add_checked L (U64 l) (U64 r) = ok_or ARITHMETIC_ERROR (map_option U64 (checked_add l r))"
| "add_checked L (U128 l) (U128 r) = ok_or ARITHMETIC_ERROR (map_option U128 (checked_add l r))"
| "add_checked L (U256 l) (U256 r) = ok_or ARITHMETIC_ERROR (map_option U256 (U256_checked_add L l r))"
| "add_checked L l r = Inl INTERNAL_TYPE_ERROR"

fun sub_checked :: "primitive_u256 \<Rightarrow> integer_value \<Rightarrow> integer_value \<Rightarrow> status_code + integer_value" where
  "sub_checked L (U8 l) (U8 r) = ok_or ARITHMETIC_ERROR (map_option U8 (checked_sub l r))"
| "sub_checked L (U16 l) (U16 r) = ok_or ARITHMETIC_ERROR (map_option U16 (checked_sub l r))"
| "sub_checked L (U32 l) (U32 r) = ok_or ARITHMETIC_ERROR (map_option U32 (checked_sub l r))"
| "sub_checked L (U64 l) (U64 r) = ok_or ARITHMETIC_ERROR (map_option U64 (checked_sub l r))"
| "sub_checked L (U128 l) (U128 r) = ok_or ARITHMETIC_ERROR (map_option U128 (checked_sub l r))"
| "sub_checked L (U256 l) (U256 r) = ok_or ARITHMETIC_ERROR (map_option U256 (U256_checked_sub L l r))"
| "sub_checked L l r = Inl INTERNAL_TYPE_ERROR"

fun mul_checked :: "primitive_u256 \<Rightarrow> integer_value \<Rightarrow> integer_value \<Rightarrow> status_code + integer_value" where
  "mul_checked L (U8 l) (U8 r) = ok_or ARITHMETIC_ERROR (map_option U8 (checked_mul l r))"
| "mul_checked L (U16 l) (U16 r) = ok_or ARITHMETIC_ERROR (map_option U16 (checked_mul l r))"
| "mul_checked L (U32 l) (U32 r) = ok_or ARITHMETIC_ERROR (map_option U32 (checked_mul l r))"
| "mul_checked L (U64 l) (U64 r) = ok_or ARITHMETIC_ERROR (map_option U64 (checked_mul l r))"
| "mul_checked L (U128 l) (U128 r) = ok_or ARITHMETIC_ERROR (map_option U128 (checked_mul l r))"
| "mul_checked L (U256 l) (U256 r) = ok_or ARITHMETIC_ERROR (map_option U256 (U256_checked_mul L l r))"
| "mul_checked L l r = Inl INTERNAL_TYPE_ERROR"

fun div_checked :: "primitive_u256 \<Rightarrow> integer_value \<Rightarrow> integer_value \<Rightarrow> status_code + integer_value" where
  "div_checked L (U8 l) (U8 r) = ok_or ARITHMETIC_ERROR (map_option U8 (checked_div l r))"
| "div_checked L (U16 l) (U16 r) = ok_or ARITHMETIC_ERROR (map_option U16 (checked_div l r))"
| "div_checked L (U32 l) (U32 r) = ok_or ARITHMETIC_ERROR (map_option U32 (checked_div l r))"
| "div_checked L (U64 l) (U64 r) = ok_or ARITHMETIC_ERROR (map_option U64 (checked_div l r))"
| "div_checked L (U128 l) (U128 r) = ok_or ARITHMETIC_ERROR (map_option U128 (checked_div l r))"
| "div_checked L (U256 l) (U256 r) = ok_or ARITHMETIC_ERROR (map_option U256 (U256_checked_div L l r))"
| "div_checked L l r = Inl INTERNAL_TYPE_ERROR"

fun rem_checked :: "primitive_u256 \<Rightarrow> integer_value \<Rightarrow> integer_value \<Rightarrow> status_code + integer_value" where
  "rem_checked L (U8 l) (U8 r) = ok_or ARITHMETIC_ERROR (map_option U8 (checked_rem l r))"
| "rem_checked L (U16 l) (U16 r) = ok_or ARITHMETIC_ERROR (map_option U16 (checked_rem l r))"
| "rem_checked L (U32 l) (U32 r) = ok_or ARITHMETIC_ERROR (map_option U32 (checked_rem l r))"
| "rem_checked L (U64 l) (U64 r) = ok_or ARITHMETIC_ERROR (map_option U64 (checked_rem l r))"
| "rem_checked L (U128 l) (U128 r) = ok_or ARITHMETIC_ERROR (map_option U128 (checked_rem l r))"
| "rem_checked L (U256 l) (U256 r) = ok_or ARITHMETIC_ERROR (map_option U256 (U256_checked_rem L l r))"
| "rem_checked L l r = Inl INTERNAL_TYPE_ERROR"

section \<open>Bit operations\<close>

fun bit_or :: "primitive_u256 \<Rightarrow> integer_value \<Rightarrow> integer_value \<Rightarrow> status_code + integer_value" where
  "bit_or L (U8 l) (U8 r) = Inr (U8 (l OR r))"
| "bit_or L (U16 l) (U16 r) = Inr (U16 (l OR r))"
| "bit_or L (U32 l) (U32 r) = Inr (U32 (l OR r))"
| "bit_or L (U64 l) (U64 r) = Inr (U64 (l OR r))"
| "bit_or L (U128 l) (U128 r) = Inr (U128 (l OR r))"
| "bit_or L (U256 l) (U256 r) = Inr (U256 (U256_bitor L l r))"
| "bit_or L l r = Inl INTERNAL_TYPE_ERROR"

fun bit_and :: "primitive_u256 \<Rightarrow> integer_value \<Rightarrow> integer_value \<Rightarrow> status_code + integer_value" where
  "bit_and L (U8 l) (U8 r) = Inr (U8 (l AND r))"
| "bit_and L (U16 l) (U16 r) = Inr (U16 (l AND r))"
| "bit_and L (U32 l) (U32 r) = Inr (U32 (l AND r))"
| "bit_and L (U64 l) (U64 r) = Inr (U64 (l AND r))"
| "bit_and L (U128 l) (U128 r) = Inr (U128 (l AND r))"
| "bit_and L (U256 l) (U256 r) = Inr (U256 (U256_bitand L l r))"
| "bit_and L l r = Inl INTERNAL_TYPE_ERROR"

fun bit_xor :: "primitive_u256 \<Rightarrow> integer_value \<Rightarrow> integer_value \<Rightarrow> status_code + integer_value" where
  "bit_xor L (U8 l) (U8 r) = Inr (U8 (l XOR r))"
| "bit_xor L (U16 l) (U16 r) = Inr (U16 (l XOR r))"
| "bit_xor L (U32 l) (U32 r) = Inr (U32 (l XOR r))"
| "bit_xor L (U64 l) (U64 r) = Inr (U64 (l XOR r))"
| "bit_xor L (U128 l) (U128 r) = Inr (U128 (l XOR r))"
| "bit_xor L (U256 l) (U256 r) = Inr (U256 (U256_bitxor L l r))"
| "bit_xor L l r = Inl INTERNAL_TYPE_ERROR"

section \<open>Shifts\<close>

fun shl_checked :: "primitive_u256 \<Rightarrow> integer_value \<Rightarrow> u8 \<Rightarrow> status_code + integer_value" where
  "shl_checked L (U8 x) n_bits =
     (if n_bits \<ge> 8 then Inl ARITHMETIC_ERROR else Inr (U8 (push_bit (unat n_bits) x)))"
| "shl_checked L (U16 x) n_bits =
     (if n_bits \<ge> 16 then Inl ARITHMETIC_ERROR else Inr (U16 (push_bit (unat n_bits) x)))"
| "shl_checked L (U32 x) n_bits =
     (if n_bits \<ge> 32 then Inl ARITHMETIC_ERROR else Inr (U32 (push_bit (unat n_bits) x)))"
| "shl_checked L (U64 x) n_bits =
     (if n_bits \<ge> 64 then Inl ARITHMETIC_ERROR else Inr (U64 (push_bit (unat n_bits) x)))"
| "shl_checked L (U128 x) n_bits =
     (if n_bits \<ge> 128 then Inl ARITHMETIC_ERROR else Inr (U128 (push_bit (unat n_bits) x)))"
| "shl_checked L (U256 x) n_bits = Inr (U256 (U256_shl L x n_bits))"

fun shr_checked :: "primitive_u256 \<Rightarrow> integer_value \<Rightarrow> u8 \<Rightarrow> status_code + integer_value" where
  "shr_checked L (U8 x) n_bits =
     (if n_bits \<ge> 8 then Inl ARITHMETIC_ERROR else Inr (U8 (drop_bit (unat n_bits) x)))"
| "shr_checked L (U16 x) n_bits =
     (if n_bits \<ge> 16 then Inl ARITHMETIC_ERROR else Inr (U16 (drop_bit (unat n_bits) x)))"
| "shr_checked L (U32 x) n_bits =
     (if n_bits \<ge> 32 then Inl ARITHMETIC_ERROR else Inr (U32 (drop_bit (unat n_bits) x)))"
| "shr_checked L (U64 x) n_bits =
     (if n_bits \<ge> 64 then Inl ARITHMETIC_ERROR else Inr (U64 (drop_bit (unat n_bits) x)))"
| "shr_checked L (U128 x) n_bits =
     (if n_bits \<ge> 128 then Inl ARITHMETIC_ERROR else Inr (U128 (drop_bit (unat n_bits) x)))"
| "shr_checked L (U256 x) n_bits = Inr (U256 (U256_shr L x n_bits))"

section \<open>Comparisons\<close>

fun iv_lt :: "primitive_u256 \<Rightarrow> integer_value \<Rightarrow> integer_value \<Rightarrow> status_code + bool" where
  "iv_lt L (U8 l) (U8 r) = Inr (l < r)"
| "iv_lt L (U16 l) (U16 r) = Inr (l < r)"
| "iv_lt L (U32 l) (U32 r) = Inr (l < r)"
| "iv_lt L (U64 l) (U64 r) = Inr (l < r)"
| "iv_lt L (U128 l) (U128 r) = Inr (l < r)"
| "iv_lt L (U256 l) (U256 r) = Inr (U256_lt L l r)"
| "iv_lt L l r = Inl INTERNAL_TYPE_ERROR"

fun iv_le :: "primitive_u256 \<Rightarrow> integer_value \<Rightarrow> integer_value \<Rightarrow> status_code + bool" where
  "iv_le L (U8 l) (U8 r) = Inr (l \<le> r)"
| "iv_le L (U16 l) (U16 r) = Inr (l \<le> r)"
| "iv_le L (U32 l) (U32 r) = Inr (l \<le> r)"
| "iv_le L (U64 l) (U64 r) = Inr (l \<le> r)"
| "iv_le L (U128 l) (U128 r) = Inr (l \<le> r)"
| "iv_le L (U256 l) (U256 r) = Inr (U256_le L l r)"
| "iv_le L l r = Inl INTERNAL_TYPE_ERROR"

fun iv_gt :: "primitive_u256 \<Rightarrow> integer_value \<Rightarrow> integer_value \<Rightarrow> status_code + bool" where
  "iv_gt L (U8 l) (U8 r) = Inr (l > r)"
| "iv_gt L (U16 l) (U16 r) = Inr (l > r)"
| "iv_gt L (U32 l) (U32 r) = Inr (l > r)"
| "iv_gt L (U64 l) (U64 r) = Inr (l > r)"
| "iv_gt L (U128 l) (U128 r) = Inr (l > r)"
| "iv_gt L (U256 l) (U256 r) = Inr (U256_lt L r l)"
| "iv_gt L l r = Inl INTERNAL_TYPE_ERROR"

fun iv_ge :: "primitive_u256 \<Rightarrow> integer_value \<Rightarrow> integer_value \<Rightarrow> status_code + bool" where
  "iv_ge L (U8 l) (U8 r) = Inr (l \<ge> r)"
| "iv_ge L (U16 l) (U16 r) = Inr (l \<ge> r)"
| "iv_ge L (U32 l) (U32 r) = Inr (l \<ge> r)"
| "iv_ge L (U64 l) (U64 r) = Inr (l \<ge> r)"
| "iv_ge L (U128 l) (U128 r) = Inr (l \<ge> r)"
| "iv_ge L (U256 l) (U256 r) = Inr (U256_le L r l)"
| "iv_ge L l r = Inl INTERNAL_TYPE_ERROR"

section \<open>Casts\<close>

fun cast_u8 :: "primitive_u256 \<Rightarrow> integer_value \<Rightarrow> status_code + 8 word" where
  "cast_u8 L (U8 x) = Inr x"
| "cast_u8 L (U16 x) = 
     (if x > 255 then Inl ARITHMETIC_ERROR else Inr (ucast x))"
| "cast_u8 L (U32 x) = 
     (if x > 255 then Inl ARITHMETIC_ERROR else Inr (ucast x))"
| "cast_u8 L (U64 x) = 
     (if x > 255 then Inl ARITHMETIC_ERROR else Inr (ucast x))"
| "cast_u8 L (U128 x) = 
     (if x > 255 then Inl ARITHMETIC_ERROR else Inr (ucast x))"
| "cast_u8 L (U256 x) = 
     (if U256_lt L (U256_from_u8 L 255) x then Inl ARITHMETIC_ERROR else Inr (U256_unchecked_as_u8 L x))"

fun cast_u16 :: "primitive_u256 \<Rightarrow> integer_value \<Rightarrow> status_code + 16 word" where
  "cast_u16 L (U8 x) = Inr (ucast x)"
| "cast_u16 L (U16 x) = Inr x"
| "cast_u16 L (U32 x) = 
     (if x > 65535 then Inl ARITHMETIC_ERROR else Inr (ucast x))"
| "cast_u16 L (U64 x) = 
     (if x > 65535 then Inl ARITHMETIC_ERROR else Inr (ucast x))"
| "cast_u16 L (U128 x) = 
     (if x > 65535 then Inl ARITHMETIC_ERROR else Inr (ucast x))"
| "cast_u16 L (U256 x) = 
     (if U256_lt L (U256_from_u16 L 65535) x then Inl ARITHMETIC_ERROR else Inr (U256_unchecked_as_u16 L x))"

fun cast_u32 :: "primitive_u256 \<Rightarrow> integer_value \<Rightarrow> status_code + 32 word" where
  "cast_u32 L (U8 x) = Inr (ucast x)"
| "cast_u32 L (U16 x) = Inr (ucast x)"
| "cast_u32 L (U32 x) = Inr x"
| "cast_u32 L (U64 x) = 
     (if x > 4294967295 then Inl ARITHMETIC_ERROR else Inr (ucast x))"
| "cast_u32 L (U128 x) = 
     (if x > 4294967295 then Inl ARITHMETIC_ERROR else Inr (ucast x))"
| "cast_u32 L (U256 x) = 
     (if U256_lt L (U256_from_u32 L 4294967295) x then Inl ARITHMETIC_ERROR else Inr (U256_unchecked_as_u32 L x))"

fun cast_u64 :: "primitive_u256 \<Rightarrow> integer_value \<Rightarrow> status_code + 64 word" where
  "cast_u64 L (U8 x) = Inr (ucast x)"
| "cast_u64 L (U16 x) = Inr (ucast x)"
| "cast_u64 L (U32 x) = Inr (ucast x)"
| "cast_u64 L (U64 x) = Inr x"
| "cast_u64 L (U128 x) = 
     (if x > 18446744073709551615 then Inl ARITHMETIC_ERROR else Inr (ucast x))"
| "cast_u64 L (U256 x) = 
     (if U256_lt L (U256_from_u64 L 18446744073709551615) x then Inl ARITHMETIC_ERROR else Inr (U256_unchecked_as_u64 L x))"

fun cast_u128 :: "primitive_u256 \<Rightarrow> integer_value \<Rightarrow> status_code + 128 word" where
  "cast_u128 L (U8 x) = Inr (ucast x)"
| "cast_u128 L (U16 x) = Inr (ucast x)"
| "cast_u128 L (U32 x) = Inr (ucast x)"
| "cast_u128 L (U64 x) = Inr (ucast x)"
| "cast_u128 L (U128 x) = Inr x"
| "cast_u128 L (U256 x) = 
     (if U256_lt L (U256_from_u128 L 340282366920938463463374607431768211455) x then Inl ARITHMETIC_ERROR else Inr (U256_unchecked_as_u128 L x))"

fun cast_u256 :: "primitive_u256 \<Rightarrow> integer_value \<Rightarrow> status_code + u256" where
  "cast_u256 L (U8 x) = Inr (U256_from_u8 L x)"
| "cast_u256 L (U16 x) = Inr (U256_from_u16 L x)"
| "cast_u256 L (U32 x) = Inr (U256_from_u32 L x)"
| "cast_u256 L (U64 x) = Inr (U256_from_u64 L x)"
| "cast_u256 L (U128 x) = Inr (U256_from_u128 L x)"
| "cast_u256 L (U256 x) = Inr x"

section \<open>Specification\<close>

text \<open>The width of a value's type, the number it stands for, and the value of the same type that
  stands for a number.\<close>

fun iv_width :: "integer_value \<Rightarrow> nat" where
  "iv_width (U8 _) = 8"
| "iv_width (U16 _) = 16"
| "iv_width (U32 _) = 32"
| "iv_width (U64 _) = 64"
| "iv_width (U128 _) = 128"
| "iv_width (U256 _) = 256"

fun iv_value :: "integer_value \<Rightarrow> nat" where
  "iv_value (U8 x) = unat x"
| "iv_value (U16 x) = unat x"
| "iv_value (U32 x) = unat x"
| "iv_value (U64 x) = unat x"
| "iv_value (U128 x) = unat x"
| "iv_value (U256 x) = unat x"

fun iv_with :: "integer_value \<Rightarrow> nat \<Rightarrow> integer_value" where
  "iv_with (U8 _) n = U8 (of_nat n)"
| "iv_with (U16 _) n = U16 (of_nat n)"
| "iv_with (U32 _) n = U32 (of_nat n)"
| "iv_with (U64 _) n = U64 (of_nat n)"
| "iv_with (U128 _) n = U128 (of_nat n)"
| "iv_with (U256 _) n = U256 (of_nat n)"

lemma iv_value_less: "iv_value v < 2 ^ iv_width v"
proof (cases v)
  case (U8 x) then show ?thesis using unsigned_less [of x, where 'a = nat] by simp
next
  case (U16 x) then show ?thesis using unsigned_less [of x, where 'a = nat] by simp
next
  case (U32 x) then show ?thesis using unsigned_less [of x, where 'a = nat] by simp
next
  case (U64 x) then show ?thesis using unsigned_less [of x, where 'a = nat] by simp
next
  case (U128 x) then show ?thesis using unsigned_less [of x, where 'a = nat] by simp
next
  case (U256 x) then show ?thesis using unsigned_less [of x, where 'a = nat] by simp
qed

lemma iv_width_with [simp]: "iv_width (iv_with v n) = iv_width v"
  by (cases v) simp_all

lemma iv_value_with: "n < 2 ^ iv_width v \<Longrightarrow> iv_value (iv_with v n) = n"
  by (cases v) (simp_all add: unsigned_of_nat take_bit_nat_eq_self)

text \<open>An operation on numbers, \<open>None\<close> where it has no result, lifted to values of one type.\<close>

definition exact ::
  "(nat \<Rightarrow> nat \<Rightarrow> nat option) \<Rightarrow> integer_value \<Rightarrow> integer_value \<Rightarrow> status_code + integer_value" where
  "exact f l r =
     (if iv_width l \<noteq> iv_width r then Inl INTERNAL_TYPE_ERROR
      else case f (iv_value l) (iv_value r) of
             None \<Rightarrow> Inl ARITHMETIC_ERROR
           | Some n \<Rightarrow> if n < 2 ^ iv_width l then Inr (iv_with l n) else Inl ARITHMETIC_ERROR)"

definition minus_opt :: "nat \<Rightarrow> nat \<Rightarrow> nat option" where
  "minus_opt a b = (if b \<le> a then Some (a - b) else None)"

definition div_opt :: "nat \<Rightarrow> nat \<Rightarrow> nat option" where
  "div_opt a b = (if b = 0 then None else Some (a div b))"

definition mod_opt :: "nat \<Rightarrow> nat \<Rightarrow> nat option" where
  "mod_opt a b = (if b = 0 then None else Some (a mod b))"

text \<open>An operation whose result is at most its left operand always fits.\<close>

lemma exact_below:
  assumes "\<And>a b n. f a b = Some n \<Longrightarrow> n \<le> a"
  shows "exact f l r = (if iv_width l \<noteq> iv_width r then Inl INTERNAL_TYPE_ERROR
    else ok_or ARITHMETIC_ERROR (map_option (iv_with l) (f (iv_value l) (iv_value r))))"
  using assms [THEN le_less_trans [OF _ iv_value_less [of l]]]
  by (auto simp: exact_def ok_or_def split: option.splits)

lemma below_opts:
  "minus_opt a b = Some n \<Longrightarrow> n \<le> a" "div_opt a b = Some n \<Longrightarrow> n \<le> a" "mod_opt a b = Some n \<Longrightarrow> n \<le> a"
  by (auto simp: minus_opt_def div_opt_def mod_opt_def split: if_splits)

section \<open>The checked operations on numbers\<close>

named_theorems checked_nat \<open>the checked operations of words as operations on numbers\<close>

lemma checked_add_nat [checked_nat]:
  "checked_add l r = (if unat l + unat r < 2 ^ LENGTH('a) then Some (of_nat (unat l + unat r)) else None)"
  for l r :: "'a::len word"
  by (simp add: checked_add_def)

lemma checked_mul_nat [checked_nat]:
  "checked_mul l r = (if unat l * unat r < 2 ^ LENGTH('a) then Some (of_nat (unat l * unat r)) else None)"
  for l r :: "'a::len word"
  by (simp add: checked_mul_def)

lemma checked_sub_nat [checked_nat]:
  "checked_sub l r = (if unat r \<le> unat l then Some (of_nat (unat l - unat r)) else None)"
  by (simp add: checked_sub_def word_le_nat_alt of_nat_diff)

lemma checked_div_nat [checked_nat]:
  "checked_div l r = (if unat r = 0 then None else Some (of_nat (unat l div unat r)))"
  by (simp add: checked_div_def word_arith_nat_div unat_eq_0)

lemma checked_rem_nat [checked_nat]:
  "checked_rem l r = (if unat r = 0 then None else Some (of_nat (unat l mod unat r)))"
  by (simp add: checked_rem_def word_arith_nat_mod unat_eq_0)

text \<open>The 256-bit operations are the checked operations of words.\<close>

context primitive_u256_laws
begin

lemma checked_256 [checked_nat]:
  "U256_checked_add L x y = checked_add x y" "U256_checked_sub L x y = checked_sub x y"
  "U256_checked_mul L x y = checked_mul x y" "U256_checked_div L x y = checked_div x y"
  "U256_checked_rem L x y = checked_rem x y"
  by (simp_all add: U256_checked_add_def U256_checked_sub_def U256_checked_mul_def U256_checked_div_def
      U256_checked_rem_def laws checked_add_def checked_sub_def checked_mul_def checked_div_def
      checked_rem_def)

lemma add_checked_exact: "add_checked L l r = exact (\<lambda>a b. Some (a + b)) l r"
  by (cases l; cases r) (simp_all add: checked_256 checked_add_nat exact_def ok_or_def)

lemma mul_checked_exact: "mul_checked L l r = exact (\<lambda>a b. Some (a * b)) l r"
  by (cases l; cases r) (simp_all add: checked_256 checked_mul_nat exact_def ok_or_def)

lemma sub_checked_exact: "sub_checked L l r = exact minus_opt l r"
  by (subst exact_below [of minus_opt], erule below_opts)
    (cases l; cases r; simp add: checked_256 checked_sub_nat minus_opt_def)

lemma div_checked_exact: "div_checked L l r = exact div_opt l r"
  by (subst exact_below [of div_opt], erule below_opts)
    (cases l; cases r; simp add: checked_256 checked_div_nat div_opt_def)

lemma rem_checked_exact: "rem_checked L l r = exact mod_opt l r"
  by (subst exact_below [of mod_opt], erule below_opts)
    (cases l; cases r; simp add: checked_256 checked_rem_nat mod_opt_def)

text \<open>Comparisons and shifts.\<close>

lemma comparisons:
  "iv_lt L l r = (if iv_width l \<noteq> iv_width r then Inl INTERNAL_TYPE_ERROR else Inr (iv_value l < iv_value r))"
  "iv_le L l r = (if iv_width l \<noteq> iv_width r then Inl INTERNAL_TYPE_ERROR else Inr (iv_value l \<le> iv_value r))"
  "iv_gt L l r = (if iv_width l \<noteq> iv_width r then Inl INTERNAL_TYPE_ERROR else Inr (iv_value l > iv_value r))"
  "iv_ge L l r = (if iv_width l \<noteq> iv_width r then Inl INTERNAL_TYPE_ERROR else Inr (iv_value l \<ge> iv_value r))"
  by (cases l; cases r; simp add: operators laws word_less_nat_alt word_le_nat_alt not_less)+

end

section \<open>Casts and shifts on numbers\<close>

lemma ucast_of_nat: "ucast x = (of_nat (unat x) :: 'b::len word)" for x :: "'a::len word"
  by (simp add: unsigned_of_nat)

lemma push_bit_of_nat: "push_bit n x = (of_nat (unat x * 2 ^ n) :: 'a word)" for x :: "'a::len word"
  by (simp add: push_bit_eq_mult)

lemma drop_bit_of_nat: "drop_bit n x = (of_nat (unat x div 2 ^ n) :: 'a word)" for x :: "'a::len word"
proof -
  have "of_nat (unat (drop_bit n x)) = drop_bit n x" by simp
  then show ?thesis by (simp only: unat_drop_bit_eq drop_bit_eq_div [of n "unat x"])
qed

lemma take_bit_unat_wide: "LENGTH('a) \<le> n \<Longrightarrow> take_bit n (unat x) = unat x" for x :: "'a::len word"
  by (intro take_bit_nat_eq_self less_le_trans [OF unsigned_less]) simp

context primitive_u256_laws
begin

lemma shifts:
  "shl_checked L v n = (if iv_width v \<le> unat n then Inl ARITHMETIC_ERROR
     else Inr (iv_with v (iv_value v * 2 ^ unat n)))"
  "shr_checked L v n = (if iv_width v \<le> unat n then Inl ARITHMETIC_ERROR
     else Inr (iv_with v (iv_value v div 2 ^ unat n)))"
proof -
  have n: "\<not> 256 \<le> unat n" using unsigned_less [of n, where 'a = nat] by simp
  show "shl_checked L v n = (if iv_width v \<le> unat n then Inl ARITHMETIC_ERROR
     else Inr (iv_with v (iv_value v * 2 ^ unat n)))"
    using n by (cases v) (simp_all add: word_le_nat_alt operators laws push_bit_of_nat)
  show "shr_checked L v n = (if iv_width v \<le> unat n then Inl ARITHMETIC_ERROR
     else Inr (iv_with v (iv_value v div 2 ^ unat n)))"
    using n by (cases v) (simp_all add: word_le_nat_alt operators laws drop_bit_of_nat)
qed

lemma low_bits:
  "U256_unchecked_as_u8 L x = of_nat (unat x)" "U256_unchecked_as_u16 L x = of_nat (unat x)"
  "U256_unchecked_as_u32 L x = of_nat (unat x)" "U256_unchecked_as_u64 L x = of_nat (unat x)"
  "U256_unchecked_as_u128 L x = of_nat (unat x)"
  by (rule bit_word_eqI, simp add: U256_unchecked_as_u8_def U256_unchecked_as_u16_def
      U256_unchecked_as_u32_def U256_unchecked_as_u64_def U256_unchecked_as_u128_def laws bit_simps
      flip: ucast_of_nat)+

lemma from_values:
  "unat (U256_from_u8 L b) = unat b" "unat (U256_from_u16 L h) = unat h" "unat (U256_from_u32 L i) = unat i"
  "unat (U256_from_u64 L l) = unat l" "unat (U256_from_u128 L q) = unat q"
  by (simp_all add: U256_from_u8_def U256_from_u16_def U256_from_u32_def U256_from_u64_def
      U256_from_u128_def laws unsigned_ucast_eq take_bit_unat_wide)

lemma cast_u8_exact: "cast_u8 L v =
    (if iv_value v < 2 ^ 8 then Inr (of_nat (iv_value v)) else Inl ARITHMETIC_ERROR)"
  using iv_value_less [of v]
  by (cases v) (simp_all add: word_less_nat_alt operators laws low_bits from_values)

lemma cast_u16_exact: "cast_u16 L v =
    (if iv_value v < 2 ^ 16 then Inr (of_nat (iv_value v)) else Inl ARITHMETIC_ERROR)"
  using iv_value_less [of v]
  by (cases v) (simp_all add: word_less_nat_alt operators laws low_bits from_values)

lemma cast_u32_exact: "cast_u32 L v =
    (if iv_value v < 2 ^ 32 then Inr (of_nat (iv_value v)) else Inl ARITHMETIC_ERROR)"
  using iv_value_less [of v]
  by (cases v) (simp_all add: word_less_nat_alt operators laws low_bits from_values)

lemma cast_u64_exact: "cast_u64 L v =
    (if iv_value v < 2 ^ 64 then Inr (of_nat (iv_value v)) else Inl ARITHMETIC_ERROR)"
  using iv_value_less [of v]
  by (cases v) (simp_all add: word_less_nat_alt operators laws low_bits from_values)

lemma cast_u128_exact: "cast_u128 L v =
    (if iv_value v < 2 ^ 128 then Inr (of_nat (iv_value v)) else Inl ARITHMETIC_ERROR)"
  using iv_value_less [of v]
  by (cases v) (simp_all add: word_less_nat_alt operators laws low_bits from_values)

lemma cast_u256_exact: "cast_u256 L v = Inr (of_nat (iv_value v))"
  by (cases v) (simp_all add: U256_from_u8_def U256_from_u16_def U256_from_u32_def U256_from_u64_def
      U256_from_u128_def laws)

lemmas casts_exact = cast_u8_exact cast_u16_exact cast_u32_exact cast_u64_exact cast_u128_exact
  cast_u256_exact

end

section \<open>Properties\<close>

text \<open>(C21) Checked arithmetic is exact: on two values of one type each operation gives the value that
  stands for the sum, difference, product, quotient or remainder of the numbers, and an arithmetic
  error when there is none or the type cannot hold it; operands of different types are an internal
  type error.  No operation wraps.\<close>

theorem checked_arithmetic_exact:
  assumes "primitive_u256_laws L"
  shows "add_checked L l r = exact (\<lambda>a b. Some (a + b)) l r
    \<and> sub_checked L l r = exact minus_opt l r
    \<and> mul_checked L l r = exact (\<lambda>a b. Some (a * b)) l r
    \<and> div_checked L l r = exact div_opt l r
    \<and> rem_checked L l r = exact mod_opt l r"
  by (intro conjI primitive_u256_laws.add_checked_exact primitive_u256_laws.sub_checked_exact
      primitive_u256_laws.mul_checked_exact primitive_u256_laws.div_checked_exact
      primitive_u256_laws.rem_checked_exact assms)

theorem checked_arithmetic_exact_witness:
  "add_checked word_u256 (U8 200) (U8 100) = Inl ARITHMETIC_ERROR
    \<and> sub_checked word_u256 (U8 200) (U8 100) = Inr (U8 100)
    \<and> mul_checked word_u256 (U16 200) (U16 100) = Inr (U16 20000)
    \<and> div_checked word_u256 (U64 7) (U64 0) = Inl ARITHMETIC_ERROR
    \<and> rem_checked word_u256 (U256 7) (U8 2) = Inl INTERNAL_TYPE_ERROR"
  unfolding checked_arithmetic_exact [OF w256.primitive_u256_laws_axioms, THEN conjunct1]
    checked_arithmetic_exact [OF w256.primitive_u256_laws_axioms, THEN conjunct2, THEN conjunct1]
    checked_arithmetic_exact [OF w256.primitive_u256_laws_axioms, THEN conjunct2, THEN conjunct2, THEN conjunct1]
    checked_arithmetic_exact [OF w256.primitive_u256_laws_axioms, THEN conjunct2, THEN conjunct2, THEN conjunct2,
      THEN conjunct1]
    checked_arithmetic_exact [OF w256.primitive_u256_laws_axioms, THEN conjunct2, THEN conjunct2, THEN conjunct2,
      THEN conjunct2]
  by (simp add: exact_def minus_opt_def div_opt_def)

text \<open>(C22) A cast gives the value of the target type that stands for the same number, exactly when the
  target type can hold it, and an arithmetic error otherwise; a cast to 256 bits always succeeds.\<close>

theorem cast_keeps_number:
  assumes "primitive_u256_laws L"
  shows "cast_u8 L v = (if iv_value v < 2 ^ 8 then Inr (of_nat (iv_value v)) else Inl ARITHMETIC_ERROR)
    \<and> cast_u16 L v = (if iv_value v < 2 ^ 16 then Inr (of_nat (iv_value v)) else Inl ARITHMETIC_ERROR)
    \<and> cast_u32 L v = (if iv_value v < 2 ^ 32 then Inr (of_nat (iv_value v)) else Inl ARITHMETIC_ERROR)
    \<and> cast_u64 L v = (if iv_value v < 2 ^ 64 then Inr (of_nat (iv_value v)) else Inl ARITHMETIC_ERROR)
    \<and> cast_u128 L v = (if iv_value v < 2 ^ 128 then Inr (of_nat (iv_value v)) else Inl ARITHMETIC_ERROR)
    \<and> cast_u256 L v = Inr (of_nat (iv_value v))"
  by (intro conjI primitive_u256_laws.casts_exact assms)

theorem cast_keeps_number_witness:
  "cast_u8 word_u256 (U256 300) = Inl ARITHMETIC_ERROR \<and> cast_u16 word_u256 (U256 300) = Inr 300"
  using cast_keeps_number [OF w256.primitive_u256_laws_axioms, of "U256 300"] by simp

text \<open>(C23) A shift by the width of the type or more is an arithmetic error; a shift left by fewer bits
  gives the product with the power of two modulo the size of the type, and a shift right the
  quotient.\<close>

theorem shifts_exact:
  assumes "primitive_u256_laws L"
  shows "(if iv_width v \<le> unat n then shl_checked L v n = Inl ARITHMETIC_ERROR
      \<and> shr_checked L v n = Inl ARITHMETIC_ERROR
    else (\<exists>w. shl_checked L v n = Inr w \<and> iv_width w = iv_width v
           \<and> iv_value w = iv_value v * 2 ^ unat n mod 2 ^ iv_width v)
       \<and> (\<exists>w. shr_checked L v n = Inr w \<and> iv_width w = iv_width v
           \<and> iv_value w = iv_value v div 2 ^ unat n))"
proof -
  have wrap: "iv_value (iv_with v k) = k mod 2 ^ iv_width v" for k
    by (cases v) (simp_all add: unsigned_of_nat take_bit_eq_mod)
  have "iv_value v div 2 ^ unat n < 2 ^ iv_width v"
    using div_le_dividend iv_value_less by (rule le_less_trans)
  then show ?thesis
    by (simp add: primitive_u256_laws.shifts [OF assms] wrap)
qed

theorem shifts_exact_witness:
  "shl_checked word_u256 (U8 1) 8 = Inl ARITHMETIC_ERROR
    \<and> (\<exists>w. shl_checked word_u256 (U8 129) 1 = Inr w \<and> iv_width w = 8 \<and> iv_value w = 2)"
  using shifts_exact [OF w256.primitive_u256_laws_axioms, of "U8 1" 8]
    shifts_exact [OF w256.primitive_u256_laws_axioms, of "U8 129" 1] by simp

end
