(* ===== verification/Gas_Units.thy ===== *)
theory Gas_Units
  imports BTree_Map
begin

text \<open>
  Gas quantities (\<open>move-core-types/src/gas_algebra.rs\<close>) and the cost tables of the Move gas meter
  (\<open>gas_model/units_types.rs\<close>, the schedules of \<open>gas_model/tables.rs\<close> and the version predicates of
  \<open>gas_model/gas_predicates.rs\<close>).  A quantity is its number; the unit the source keeps in the type
  has no effect at run time.  Addition of quantities saturates at the greatest \<open>u64\<close>.
\<close>

section \<open>Quantities\<close>

definition u64_MAX :: u64 where
  "u64_MAX = 2 ^ 64 - 1"

definition saturating_add :: "u64 \<Rightarrow> u64 \<Rightarrow> u64" where
  "saturating_add a b = min (a + b) u64_MAX"

definition checked_add_u64 :: "u64 \<Rightarrow> u64 \<Rightarrow> u64 option" where
  "checked_add_u64 a b = (if a + b < 2 ^ 64 then Some (a + b) else None)"

definition checked_sub_u64 :: "u64 \<Rightarrow> u64 \<Rightarrow> u64 option" where
  "checked_sub_u64 a b = (if b \<le> a then Some (a - b) else None)"

definition checked_mul_u64 :: "u64 \<Rightarrow> u64 \<Rightarrow> u64 option" where
  "checked_mul_u64 a b = (if a * b < 2 ^ 64 then Some (a * b) else None)"

type_synonym gas_quantity = u64

definition quantity_add :: "gas_quantity \<Rightarrow> gas_quantity \<Rightarrow> gas_quantity" where
  "quantity_add a b = saturating_add a b"

definition quantity_checked_sub :: "gas_quantity \<Rightarrow> gas_quantity \<Rightarrow> gas_quantity option" where
  "quantity_checked_sub a b = checked_sub_u64 a b"

text \<open>The product is taken in \<open>u128\<close>, where it cannot overflow, and saturates at the greatest
  \<open>u64\<close>; a zero ratio panics.\<close>

definition apply_ratio_round_down :: "u64 \<Rightarrow> u64 \<Rightarrow> u64 \<Rightarrow> u64 option" where
  "apply_ratio_round_down val nominator denominator =
     (if nominator = 0 \<or> denominator = 0 then None
      else let res = val * nominator div denominator
           in Some (if res > u64_MAX then u64_MAX else res))"

definition apply_ratio_round_up :: "u64 \<Rightarrow> u64 \<Rightarrow> u64 \<Rightarrow> u64 option" where
  "apply_ratio_round_up val nominator denominator =
     (if nominator = 0 \<or> denominator = 0 then None
      else let n = val * nominator; d = denominator;
               res = n div d + (if n mod d = 0 then 0 else 1)
           in Some (if res > u64_MAX then u64_MAX else res))"

text \<open>Internal gas to gas: the ratio is 1 to 1000.\<close>

definition INTERNAL_NOMINATOR :: u64 where
  "INTERNAL_NOMINATOR = 1"

definition INTERNAL_DENOMINATOR :: u64 where
  "INTERNAL_DENOMINATOR = 1000"

definition to_unit_round_down :: "gas_quantity \<Rightarrow> gas_quantity option" where
  "to_unit_round_down q = apply_ratio_round_down q INTERNAL_NOMINATOR INTERNAL_DENOMINATOR"

lemma to_unit_round_down_is: "q < 2 ^ 64 \<Longrightarrow> to_unit_round_down q = Some (q div 1000)"
proof -
  assume "q < 2 ^ 64"
  then have "q div 1000 \<le> u64_MAX" using div_le_dividend [of q 1000] by (simp add: u64_MAX_def)
  then show ?thesis
    by (simp add: to_unit_round_down_def apply_ratio_round_down_def INTERNAL_NOMINATOR_def
        INTERNAL_DENOMINATOR_def Let_def)
qed

text \<open>Rounding up and down enclose the exact ratio, and differ by at most one.\<close>

lemma apply_ratio_bounds:
  assumes "apply_ratio_round_down v n d = Some lo" and "apply_ratio_round_up v n d = Some hi"
    and "hi < u64_MAX"
  shows "lo * d \<le> v * n \<and> v * n \<le> hi * d \<and> hi \<le> lo + 1"
proof -
  from assms(1) have d: "0 < d" by (auto simp: apply_ratio_round_down_def split: if_splits)
  have hi: "hi = v * n div d + (if v * n mod d = 0 then 0 else 1)"
    using assms(2,3) by (auto simp: apply_ratio_round_up_def Let_def split: if_splits)
  then have "v * n div d \<le> u64_MAX" using assms(3) by (auto split: if_splits)
  then have lo: "lo = v * n div d"
    using assms(1) by (auto simp: apply_ratio_round_down_def Let_def split: if_splits)
  define q r where "q = v * n div d" and "r = v * n mod d"
  have "v * n = q * d + r" and "r < d" using d by (simp_all add: q_def r_def)
  then show ?thesis unfolding lo hi q_def [symmetric] r_def [symmetric] by simp
qed

section \<open>Cost tables\<close>

type_synonym tiers = "(u64, u64) btree_map"

record cost_table =
  ct_instruction_tiers :: tiers
  ct_stack_height_tiers :: tiers
  ct_stack_size_tiers :: tiers

definition INSTRUCTION_TIER_DEFAULT :: u64 where
  "INSTRUCTION_TIER_DEFAULT = 1"

definition STACK_HEIGHT_TIER_DEFAULT :: u64 where
  "STACK_HEIGHT_TIER_DEFAULT = 1"

definition STACK_SIZE_TIER_DEFAULT :: u64 where
  "STACK_SIZE_TIER_DEFAULT = 1"

text \<open>The cost at a count is the entry of the greatest start at or below it; the next tier starts
  at the least start above it.\<close>

definition get_current_and_future_tier :: "tiers \<Rightarrow> u64 \<Rightarrow> u64 \<Rightarrow> u64 \<times> u64 option" where
  "get_current_and_future_tier tiers current dflt =
     (let current_cost =
            (case bt_get tiers current of
               Some v \<Rightarrow> v
             | None \<Rightarrow> (case rev (bt_select (\<lambda>k. k < current) tiers) of
                         (_, v) # _ \<Rightarrow> v | [] \<Rightarrow> dflt));
          next_tier_start =
            (case bt_select (\<lambda>k. current < k) tiers of (k, _) # _ \<Rightarrow> Some k | [] \<Rightarrow> None)
      in (current_cost, next_tier_start))"

definition instruction_tier :: "cost_table \<Rightarrow> u64 \<Rightarrow> u64 \<times> u64 option" where
  "instruction_tier ct instr_count =
     get_current_and_future_tier (ct_instruction_tiers ct) instr_count INSTRUCTION_TIER_DEFAULT"

definition stack_height_tier :: "cost_table \<Rightarrow> u64 \<Rightarrow> u64 \<times> u64 option" where
  "stack_height_tier ct stack_height =
     get_current_and_future_tier (ct_stack_height_tiers ct) stack_height STACK_HEIGHT_TIER_DEFAULT"

definition stack_size_tier :: "cost_table \<Rightarrow> u64 \<Rightarrow> u64 \<times> u64 option" where
  "stack_size_tier ct stack_size =
     get_current_and_future_tier (ct_stack_size_tiers ct) stack_size STACK_SIZE_TIER_DEFAULT"

record gas_cost =
  gc_instruction_gas :: u64
  gc_memory_gas :: u64
  gc_stack_height_gas :: u64

definition GasCost_new :: "u64 \<Rightarrow> u64 \<Rightarrow> u64 \<Rightarrow> gas_cost" where
  "GasCost_new instruction_gas memory_gas stack_height_gas =
     \<lparr>gc_instruction_gas = instruction_gas, gc_memory_gas = memory_gas,
      gc_stack_height_gas = stack_height_gas\<rparr>"

definition total_internal :: "gas_cost \<Rightarrow> gas_quantity" where
  "total_internal c = add_u64 (add_u64 (gc_instruction_gas c) (gc_memory_gas c)) (gc_stack_height_gas c)"

section \<open>Schedules\<close>

text \<open>Collecting a vector of pairs into a map: a later entry of a key replaces an earlier one.\<close>

definition bt_collect :: "(u64 \<times> u64) list \<Rightarrow> tiers" where
  "bt_collect xs = fold (\<lambda>(k, v). bt_insert k v) xs bt_empty"

definition zero_cost_schedule :: cost_table where
  "zero_cost_schedule =
     (let zero_tier = bt_insert 0 0 bt_empty
      in \<lparr>ct_instruction_tiers = zero_tier, ct_stack_height_tiers = zero_tier,
          ct_stack_size_tiers = zero_tier\<rparr>)"

definition unit_cost_schedule :: cost_table where
  "unit_cost_schedule =
     (let unit_tier = bt_insert 0 1 bt_empty
      in \<lparr>ct_instruction_tiers = unit_tier, ct_stack_height_tiers = unit_tier,
          ct_stack_size_tiers = unit_tier\<rparr>)"

definition initial_cost_schedule_v1 :: cost_table where
  "initial_cost_schedule_v1 =
     \<lparr>ct_instruction_tiers = bt_collect [(0, 1), (3000, 2), (6000, 3), (8000, 5), (9000, 9),
        (9500, 16), (10000, 29), (10500, 50)],
      ct_stack_height_tiers = bt_collect [(0, 1), (400, 2), (800, 3), (1200, 5), (1500, 9),
        (1800, 16), (2000, 29), (2200, 50)],
      ct_stack_size_tiers = bt_collect [(0, 1), (2000, 2), (5000, 3), (8000, 5), (10000, 9),
        (11000, 16), (11500, 29), (11500, 50)]\<rparr>"

definition initial_cost_schedule_v2 :: cost_table where
  "initial_cost_schedule_v2 =
     \<lparr>ct_instruction_tiers = bt_collect [(0, 1), (3000, 2), (6000, 3), (8000, 5), (9000, 9),
        (9500, 16), (10000, 29), (10500, 50), (12000, 150), (15000, 250)],
      ct_stack_height_tiers = bt_collect [(0, 1), (400, 2), (800, 3), (1200, 5), (1500, 9),
        (1800, 16), (2000, 29), (2200, 50), (3000, 150), (5000, 250)],
      ct_stack_size_tiers = bt_collect [(0, 1), (2000, 2), (5000, 3), (8000, 5), (10000, 9),
        (11000, 16), (11500, 29), (11500, 50), (15000, 150), (20000, 250)]\<rparr>"

definition initial_cost_schedule_v3 :: cost_table where
  "initial_cost_schedule_v3 =
     \<lparr>ct_instruction_tiers = bt_collect [(0, 1), (3000, 2), (6000, 3), (8000, 5), (9000, 9),
        (9500, 16), (10000, 29), (10500, 50), (15000, 100)],
      ct_stack_height_tiers = bt_collect [(0, 1), (400, 2), (800, 3), (1200, 5), (1500, 9),
        (1800, 16), (2000, 29), (2200, 50), (5000, 100)],
      ct_stack_size_tiers = bt_collect [(0, 1), (2000, 2), (5000, 3), (8000, 5), (10000, 9),
        (11000, 16), (11500, 29), (11500, 50), (20000, 100)]\<rparr>"

definition initial_cost_schedule_v4 :: cost_table where
  "initial_cost_schedule_v4 =
     \<lparr>ct_instruction_tiers = bt_collect [(0, 1), (20000, 2), (50000, 10), (100000, 50), (200000, 100)],
      ct_stack_height_tiers = bt_collect [(0, 1), (1000, 2), (10000, 10)],
      ct_stack_size_tiers = bt_collect [(0, 1), (100000, 2), (500000, 5), (1000000, 100)]\<rparr>"

definition initial_cost_schedule_v5 :: cost_table where
  "initial_cost_schedule_v5 =
     \<lparr>ct_instruction_tiers = bt_collect [(0, 1), (20000, 2), (50000, 10), (100000, 50), (200000, 100),
        (10000000, 1000)],
      ct_stack_height_tiers = bt_collect [(0, 1), (1000, 2), (10000, 10)],
      ct_stack_size_tiers = bt_collect [(0, 1), (100000, 2), (500000, 5), (1000000, 100),
        (100000000, 1000)]\<rparr>"

section \<open>Predicates on the version of the gas model\<close>

definition dont_charge_budget_on_storage_oog :: "u64 \<Rightarrow> bool" where
  "dont_charge_budget_on_storage_oog gas_model_version \<longleftrightarrow> gas_model_version \<ge> 4"

definition gas_price_too_high :: "u64 \<Rightarrow> bool" where
  "gas_price_too_high gas_model_version \<longleftrightarrow> gas_model_version \<ge> 4"

definition charge_input_as_memory :: "u64 \<Rightarrow> bool" where
  "charge_input_as_memory gas_model_version \<longleftrightarrow> gas_model_version = 4"

definition use_legacy_abstract_size :: "u64 \<Rightarrow> bool" where
  "use_legacy_abstract_size gas_model_version \<longleftrightarrow> gas_model_version \<le> 7"

definition charge_upgrades :: "u64 \<Rightarrow> bool" where
  "charge_upgrades gas_model_version \<longleftrightarrow> gas_model_version \<ge> 7"

definition cost_table_for_version :: "u64 \<Rightarrow> cost_table" where
  "cost_table_for_version gas_model =
     (if gas_model \<le> 3 then initial_cost_schedule_v1
      else if gas_model = 4 then initial_cost_schedule_v2
      else if gas_model = 5 then initial_cost_schedule_v3
      else if gas_model \<le> 7 then initial_cost_schedule_v4
      else initial_cost_schedule_v5)"

section \<open>Tiers as a step function\<close>

text \<open>The specification of a table: the cost at a count is the value of the entry with the greatest
  start at or below the count.\<close>

definition tier_cost :: "tiers \<Rightarrow> u64 \<Rightarrow> u64 \<Rightarrow> u64" where
  "tier_cost tiers dflt n = fst (get_current_and_future_tier tiers n dflt)"

text \<open>A table is ascending when a later tier costs no less than an earlier one, and it starts at 0.\<close>

definition ascending :: "tiers \<Rightarrow> bool" where
  "ascending tiers \<longleftrightarrow> bt_get tiers 0 \<noteq> None \<and> sorted (map snd (bt_entries tiers))"

lemma filter_le_sorted:
  assumes "al_sorted xs"
  shows "filter (\<lambda>(k, _). k \<le> n) xs =
    filter (\<lambda>(k, _). k < n) xs @ (case map_of xs n of Some v \<Rightarrow> [(n, v)] | None \<Rightarrow> [])"
  using assms
proof (induction xs)
  case (Cons x xs)
  obtain k v where x: "x = (k, v)" by (cases x)
  have above: "\<forall>y \<in> set xs. k < fst y" using Cons.prems x by auto
  consider "k < n" | "k = n" | "n < k" using linorder_less_linear by blast
  then show ?case
  proof cases
    case 1
    with Cons x show ?thesis by (auto split: option.splits)
  next
    case 2
    then have "filter (\<lambda>(k, _). k \<le> n) xs = []" and "filter (\<lambda>(k, _). k < n) xs = []"
      using above by (auto simp: filter_empty_conv)
    with 2 x show ?thesis by simp
  next
    case 3
    then have "filter (\<lambda>(k, _). k \<le> n) xs = []" and "filter (\<lambda>(k, _). k < n) xs = []"
      and "map_of xs n = None"
      using above by (fastforce simp: filter_empty_conv map_of_eq_None_iff)+
    with 3 x show ?thesis by auto
  qed
qed simp

lemma tier_cost_alt:
  "tier_cost tiers dflt n =
     (let xs = bt_select (\<lambda>k. k \<le> n) tiers in if xs = [] then dflt else snd (last xs))"
proof -
  let ?lt = "bt_select (\<lambda>k. k < n) tiers"
  have sel: "bt_select (\<lambda>k. k \<le> n) tiers =
      ?lt @ (case bt_get tiers n of Some v \<Rightarrow> [(n, v)] | None \<Rightarrow> [])"
    unfolding bt_select_def bt_get_def by (rule filter_le_sorted) simp
  have "(case rev xs of (_, v) # _ \<Rightarrow> v | [] \<Rightarrow> dflt) = (if xs = [] then dflt else snd (last xs))"
    for xs :: "(u64 \<times> u64) list"
    by (cases xs rule: rev_cases) (auto split: prod.splits)
  then show ?thesis unfolding sel
    by (auto simp: tier_cost_def get_current_and_future_tier_def Let_def split: option.splits)
qed

definition next_tier :: "tiers \<Rightarrow> u64 \<Rightarrow> u64 \<Rightarrow> u64 option" where
  "next_tier tiers dflt n = snd (get_current_and_future_tier tiers n dflt)"

lemma tier_eq: "get_current_and_future_tier tiers n dflt = (tier_cost tiers dflt n, next_tier tiers dflt n)"
  by (simp add: tier_cost_def next_tier_def)

lemma next_tier_Some:
  assumes "next_tier tiers dflt n = Some s"
  shows "n < s" and "\<And>k. k \<in> dom (bt_get tiers) \<Longrightarrow> n < k \<Longrightarrow> s \<le> k"
proof -
  obtain v rest where sel: "bt_select (\<lambda>k. n < k) tiers = (s, v) # rest"
    using assms by (auto simp: next_tier_def get_current_and_future_tier_def Let_def split: list.splits)
  then have "(s, v) \<in> set (bt_select (\<lambda>k. n < k) tiers)" by simp
  then show "n < s" by (simp only: bt_select_set)
  fix k assume "k \<in> dom (bt_get tiers)" "n < k"
  then obtain w where "(k, w) \<in> set (bt_select (\<lambda>k. n < k) tiers)" by (auto simp: bt_select_set)
  moreover have "al_sorted ((s, v) # rest)" using bt_select_sorted [of "\<lambda>k. n < k" tiers] sel by simp
  ultimately show "s \<le> k" unfolding sel by fastforce
qed

lemma next_tier_None:
  assumes "next_tier tiers dflt n = None" and "k \<in> dom (bt_get tiers)"
  shows "k \<le> n"
proof (rule ccontr)
  assume "\<not> k \<le> n"
  then obtain w where "(k, w) \<in> set (bt_select (\<lambda>k. n < k) tiers)"
    using assms(2) by (auto simp: bt_select_set)
  moreover have "bt_select (\<lambda>k. n < k) tiers = []"
    using assms(1) by (auto simp: next_tier_def get_current_and_future_tier_def Let_def split: list.splits)
  ultimately show False by simp
qed

lemma tier_cost_between:
  assumes "m \<le> n" and "\<And>k. k \<in> dom (bt_get tiers) \<Longrightarrow> k \<le> m \<or> n < k"
  shows "tier_cost tiers dflt n = tier_cost tiers dflt m"
proof -
  have "bt_select (\<lambda>k. k \<le> n) tiers = bt_select (\<lambda>k. k \<le> m) tiers"
    unfolding bt_select_def
  proof (rule filter_cong)
    fix e assume e: "e \<in> set (bt_entries tiers)"
    obtain k v where kv: "e = (k, v)" by (cases e)
    with e have "k \<in> dom (bt_get tiers)" by (auto simp: bt_get_iff_entry [symmetric])
    from assms(2) [OF this] assms(1) show "(case e of (k, _) \<Rightarrow> k \<le> n) = (case e of (k, _) \<Rightarrow> k \<le> m)"
      unfolding kv by auto
  qed simp
  then show ?thesis by (simp add: tier_cost_alt)
qed

lemma sorted_le_last: "sorted xs \<Longrightarrow> x \<in> set xs \<Longrightarrow> x \<le> last xs"
  by (induction xs rule: rev_induct) (auto simp: sorted_append)

lemma tier_cost_mono:
  assumes "ascending tiers" and "m \<le> n"
  shows "tier_cost tiers dflt m \<le> tier_cost tiers dflt n"
proof -
  let ?A = "bt_select (\<lambda>k. k \<le> m) tiers" and ?B = "bt_select (\<lambda>k. k \<le> n) tiers"
  obtain v where "(0, v) \<in> set ?A" using assms(1) by (auto simp: ascending_def bt_select_set)
  then have A: "?A \<noteq> []" by auto
  have sub: "set ?A \<subseteq> set ?B" using assms(2) by (auto simp: bt_select_set)
  with A have B: "?B \<noteq> []" by auto
  have "sorted (map snd ?B)"
    unfolding bt_select_def by (rule sorted_filter) (use assms(1) in \<open>simp add: ascending_def\<close>)
  moreover have "snd (last ?A) \<in> set (map snd ?B)" using last_in_set [OF A] sub by auto
  ultimately have "snd (last ?A) \<le> last (map snd ?B)" by (rule sorted_le_last)
  with A B show ?thesis unfolding tier_cost_alt Let_def by (simp add: last_map)
qed

text \<open>The schedules of all versions start at 0 and never become cheaper.\<close>

lemma bt_collect_get: "bt_get (fold (\<lambda>(k, v). bt_insert k v) xs m) k =
    (case map_of (rev xs) k of Some v \<Rightarrow> Some v | None \<Rightarrow> bt_get m k)"
  by (induction xs arbitrary: m) (auto simp: map_add_def split: option.splits)

lemma bt_collect_entries: "bt_entries (fold (\<lambda>(k, v). bt_insert k v) xs m) =
    fold (\<lambda>(k, v). al_insert k v) xs (bt_entries m)"
  by (induction xs arbitrary: m) auto

lemma schedule_v1_ascending:
  "ascending (ct_instruction_tiers initial_cost_schedule_v1)"
  "ascending (ct_stack_height_tiers initial_cost_schedule_v1)"
  "ascending (ct_stack_size_tiers initial_cost_schedule_v1)"
  unfolding initial_cost_schedule_v1_def cost_table.simps
  by (simp_all add: ascending_def bt_collect_def)

lemma schedule_v2_ascending:
  "ascending (ct_instruction_tiers initial_cost_schedule_v2)"
  "ascending (ct_stack_height_tiers initial_cost_schedule_v2)"
  "ascending (ct_stack_size_tiers initial_cost_schedule_v2)"
  unfolding initial_cost_schedule_v2_def cost_table.simps
  by (simp_all add: ascending_def bt_collect_def)

lemma schedule_v3_ascending:
  "ascending (ct_instruction_tiers initial_cost_schedule_v3)"
  "ascending (ct_stack_height_tiers initial_cost_schedule_v3)"
  "ascending (ct_stack_size_tiers initial_cost_schedule_v3)"
  unfolding initial_cost_schedule_v3_def cost_table.simps
  by (simp_all add: ascending_def bt_collect_def)

lemma schedule_v4_ascending:
  "ascending (ct_instruction_tiers initial_cost_schedule_v4)"
  "ascending (ct_stack_height_tiers initial_cost_schedule_v4)"
  "ascending (ct_stack_size_tiers initial_cost_schedule_v4)"
  unfolding initial_cost_schedule_v4_def cost_table.simps
  by (simp_all add: ascending_def bt_collect_def)

lemma schedule_v5_ascending:
  "ascending (ct_instruction_tiers initial_cost_schedule_v5)"
  "ascending (ct_stack_height_tiers initial_cost_schedule_v5)"
  "ascending (ct_stack_size_tiers initial_cost_schedule_v5)"
  unfolding initial_cost_schedule_v5_def cost_table.simps
  by (simp_all add: ascending_def bt_collect_def)

lemma schedules_ascending:
  "ascending (ct_instruction_tiers (cost_table_for_version g))"
  "ascending (ct_stack_height_tiers (cost_table_for_version g))"
  "ascending (ct_stack_size_tiers (cost_table_for_version g))"
  by (simp_all add: cost_table_for_version_def schedule_v1_ascending schedule_v2_ascending
      schedule_v3_ascending schedule_v4_ascending schedule_v5_ascending)

end
