(* ===== verification/Gas_Status.thy ===== *)
theory Gas_Status
  imports Gas_Units
begin

text \<open>
  The gas meter of the Move virtual machine (\<open>GasStatus\<close> in \<open>gas_model/tables.rs\<close>): the gas left,
  the height and the size of the operand stack with their high-water marks, the number of executed
  instructions, and the multipliers of the current tiers.  Every operation of the trait \<open>GasMeter\<close>
  that charges is modelled; the profiler is left out.  The arithmetic of this file of the source
  wraps, except where it is written as checked.

  An operation that fails leaves the state it has reached, so it returns the state together with
  an optional error; \<open>and_then\<close> is the operator \<open>?\<close> on such results.
\<close>

section \<open>State\<close>

datatype vm_error = ARITHMETIC_OVERFLOW | PC_OVERFLOW | OUT_OF_GAS

record gas_status =
  gs_gas_model_version :: u64
  gs_cost_table :: cost_table
  gs_gas_left :: gas_quantity
  gs_gas_price :: u64
  gs_initial_budget :: gas_quantity
  gs_charge :: bool
  gs_stack_height_high_water_mark :: u64
  gs_stack_height_current :: u64
  gs_stack_height_next_tier_start :: "u64 option"
  gs_stack_height_current_tier_mult :: u64
  gs_stack_size_high_water_mark :: u64
  gs_stack_size_current :: u64
  gs_stack_size_next_tier_start :: "u64 option"
  gs_stack_size_current_tier_mult :: u64
  gs_instructions_executed :: u64
  gs_instructions_next_tier_start :: "u64 option"
  gs_instructions_current_tier_mult :: u64

type_synonym charge_result = "gas_status \<times> vm_error option"

definition and_then :: "charge_result \<Rightarrow> (gas_status \<Rightarrow> charge_result) \<Rightarrow> charge_result" where
  "and_then r f = (case r of (gs, None) \<Rightarrow> f gs | (gs, Some e) \<Rightarrow> (gs, Some e))"

definition INTERNAL_UNIT_MULTIPLIER :: u64 where
  "INTERNAL_UNIT_MULTIPLIER = 1000"

definition to_internal_units :: "u64 \<Rightarrow> gas_quantity" where
  "to_internal_units val = mul_u64 val INTERNAL_UNIT_MULTIPLIER"

definition GasStatus_new :: "cost_table \<Rightarrow> u64 \<Rightarrow> u64 \<Rightarrow> u64 \<Rightarrow> gas_status option" where
  "GasStatus_new cost_table budget gas_price gas_model_version =
     (if \<not> gas_price > 0 then None
      else let budget_in_unit = budget div gas_price;
               gas_left = to_internal_units budget_in_unit;
               (stack_height_current_tier_mult, stack_height_next_tier_start) =
                 stack_height_tier cost_table 0;
               (stack_size_current_tier_mult, stack_size_next_tier_start) =
                 stack_size_tier cost_table 0;
               (instructions_current_tier_mult, instructions_next_tier_start) =
                 instruction_tier cost_table 0
           in Some \<lparr>gs_gas_model_version = gas_model_version, gs_cost_table = cost_table,
                gs_gas_left = gas_left, gs_gas_price = gas_price, gs_initial_budget = gas_left,
                gs_charge = True,
                gs_stack_height_high_water_mark = 0, gs_stack_height_current = 0,
                gs_stack_height_next_tier_start = stack_height_next_tier_start,
                gs_stack_height_current_tier_mult = stack_height_current_tier_mult,
                gs_stack_size_high_water_mark = 0, gs_stack_size_current = 0,
                gs_stack_size_next_tier_start = stack_size_next_tier_start,
                gs_stack_size_current_tier_mult = stack_size_current_tier_mult,
                gs_instructions_executed = 0,
                gs_instructions_next_tier_start = instructions_next_tier_start,
                gs_instructions_current_tier_mult = instructions_current_tier_mult\<rparr>)"

definition GasStatus_new_unmetered :: gas_status where
  "GasStatus_new_unmetered =
     \<lparr>gs_gas_model_version = 4, gs_cost_table = zero_cost_schedule, gs_gas_left = 0, gs_gas_price = 1,
      gs_initial_budget = 0, gs_charge = False,
      gs_stack_height_high_water_mark = 0, gs_stack_height_current = 0,
      gs_stack_height_next_tier_start = None, gs_stack_height_current_tier_mult = 0,
      gs_stack_size_high_water_mark = 0, gs_stack_size_current = 0,
      gs_stack_size_next_tier_start = None, gs_stack_size_current_tier_mult = 0,
      gs_instructions_executed = 0, gs_instructions_next_tier_start = None,
      gs_instructions_current_tier_mult = 0\<rparr>"

section \<open>Stack and instruction counts\<close>

definition push_stack :: "gas_status \<Rightarrow> u64 \<Rightarrow> charge_result" where
  "push_stack gs pushes =
     (case checked_add_u64 (gs_stack_height_current gs) pushes of
        None \<Rightarrow> (gs, Some ARITHMETIC_OVERFLOW)
      | Some new_height \<Rightarrow>
          let gs = (if new_height > gs_stack_height_high_water_mark gs
                    then gs\<lparr>gs_stack_height_high_water_mark := new_height\<rparr> else gs);
              gs = gs\<lparr>gs_stack_height_current := new_height\<rparr>
          in (case gs_stack_height_next_tier_start gs of
                None \<Rightarrow> (gs, None)
              | Some stack_height_tier_next \<Rightarrow>
                  if gs_stack_height_current gs > stack_height_tier_next
                  then let (next_mul, next_tier) =
                             stack_height_tier (gs_cost_table gs) (gs_stack_height_current gs)
                       in (gs\<lparr>gs_stack_height_current_tier_mult := next_mul,
                              gs_stack_height_next_tier_start := next_tier\<rparr>, None)
                  else (gs, None)))"

definition pop_stack :: "gas_status \<Rightarrow> u64 \<Rightarrow> gas_status" where
  "pop_stack gs pops = gs\<lparr>gs_stack_height_current := gs_stack_height_current gs - pops\<rparr>"

definition increase_instruction_count :: "gas_status \<Rightarrow> u64 \<Rightarrow> charge_result" where
  "increase_instruction_count gs amount =
     (case checked_add_u64 (gs_instructions_executed gs) amount of
        None \<Rightarrow> (gs, Some PC_OVERFLOW)
      | Some new_pc \<Rightarrow>
          let gs = gs\<lparr>gs_instructions_executed := new_pc\<rparr>
          in (case gs_instructions_next_tier_start gs of
                None \<Rightarrow> (gs, None)
              | Some instr_tier_next \<Rightarrow>
                  if gs_instructions_executed gs > instr_tier_next
                  then let (instr_cost, next_tier) =
                             instruction_tier (gs_cost_table gs) (gs_instructions_executed gs)
                       in (gs\<lparr>gs_instructions_current_tier_mult := instr_cost,
                              gs_instructions_next_tier_start := next_tier\<rparr>, None)
                  else (gs, None)))"

definition increase_stack_size :: "gas_status \<Rightarrow> u64 \<Rightarrow> charge_result" where
  "increase_stack_size gs size_amount =
     (case checked_add_u64 (gs_stack_size_current gs) size_amount of
        None \<Rightarrow> (gs, Some ARITHMETIC_OVERFLOW)
      | Some new_size \<Rightarrow>
          let gs = (if new_size > gs_stack_size_high_water_mark gs
                    then gs\<lparr>gs_stack_size_high_water_mark := new_size\<rparr> else gs);
              gs = gs\<lparr>gs_stack_size_current := new_size\<rparr>
          in (case gs_stack_size_next_tier_start gs of
                None \<Rightarrow> (gs, None)
              | Some stack_size_tier_next \<Rightarrow>
                  if gs_stack_size_current gs > stack_size_tier_next
                  then let (next_mul, next_tier) =
                             stack_size_tier (gs_cost_table gs) (gs_stack_size_current gs)
                       in (gs\<lparr>gs_stack_size_current_tier_mult := next_mul,
                              gs_stack_size_next_tier_start := next_tier\<rparr>, None)
                  else (gs, None)))"

definition decrease_stack_size :: "gas_status \<Rightarrow> u64 \<Rightarrow> gas_status" where
  "decrease_stack_size gs size_amount =
     (let new_size = gs_stack_size_current gs - size_amount;
          gs = (if new_size > gs_stack_size_high_water_mark gs
                then gs\<lparr>gs_stack_size_high_water_mark := new_size\<rparr> else gs)
      in gs\<lparr>gs_stack_size_current := new_size\<rparr>)"

section \<open>Charging\<close>

definition deduct_gas_units :: "gas_status \<Rightarrow> gas_quantity \<Rightarrow> charge_result" where
  "deduct_gas_units gs amount =
     (if \<not> gs_charge gs then (gs, None)
      else case quantity_checked_sub (gs_gas_left gs) amount of
             Some gas_left \<Rightarrow> (gs\<lparr>gs_gas_left := gas_left\<rparr>, None)
           | None \<Rightarrow> (gs\<lparr>gs_gas_left := 0\<rparr>, Some OUT_OF_GAS))"

text \<open>The three products of the cost are checked; their sum wraps.\<close>

definition instruction_cost :: "gas_status \<Rightarrow> u64 \<Rightarrow> u64 \<Rightarrow> u64 \<Rightarrow> gas_quantity option" where
  "instruction_cost gs num_instructions pushes incr_size =
     do { instruction_gas \<leftarrow> checked_mul_u64 (gs_instructions_current_tier_mult gs) num_instructions;
          memory_gas \<leftarrow> checked_mul_u64 (gs_stack_size_current_tier_mult gs) incr_size;
          stack_height_gas \<leftarrow> checked_mul_u64 (gs_stack_height_current_tier_mult gs) pushes;
          Some (total_internal (GasCost_new instruction_gas memory_gas stack_height_gas)) }"

definition charge_instr :: "gas_status \<Rightarrow> u64 \<Rightarrow> u64 \<Rightarrow> u64 \<Rightarrow> u64 \<Rightarrow> u64 \<Rightarrow> charge_result" where
  "charge_instr gs num_instructions pushes pops incr_size decr_size =
     and_then (push_stack gs pushes) (\<lambda>gs.
     and_then (increase_instruction_count gs num_instructions) (\<lambda>gs.
     and_then (increase_stack_size gs incr_size) (\<lambda>gs.
       case instruction_cost gs num_instructions pushes incr_size of
         None \<Rightarrow> (gs, Some ARITHMETIC_OVERFLOW)
       | Some amount \<Rightarrow>
           and_then (deduct_gas_units gs amount) (\<lambda>gs. (pop_stack gs pops, None)))))"

definition GasStatus_remaining_gas :: "gas_status \<Rightarrow> gas_quantity option" where
  "GasStatus_remaining_gas gs = to_unit_round_down (gs_gas_left gs)"

definition set_metering :: "gas_status \<Rightarrow> bool \<Rightarrow> gas_status" where
  "set_metering gs enabled = gs\<lparr>gs_charge := enabled\<rparr>"

definition gas_used_pre_gas_price :: "gas_status \<Rightarrow> u64 option" where
  "gas_used_pre_gas_price gs =
     (case quantity_checked_sub (gs_initial_budget gs) (gs_gas_left gs) of
        Some val \<Rightarrow> to_unit_round_down val
      | None \<Rightarrow> to_unit_round_down (gs_initial_budget gs))"

definition charge_bytes :: "gas_status \<Rightarrow> u64 \<Rightarrow> u64 \<Rightarrow> charge_result" where
  "charge_bytes gs n_bytes cost_per_byte =
     (if charge_input_as_memory (gs_gas_model_version gs)
      then and_then (increase_stack_size gs n_bytes) (\<lambda>gs.
             deduct_gas_units gs
               (mul_u64 (mul_u64 (gs_stack_size_current_tier_mult gs) n_bytes) cost_per_byte))
      else deduct_gas_units gs (mul_u64 n_bytes cost_per_byte))"

section \<open>The gas meter\<close>

text \<open>A value as the meter sees it: its two sizes (the trait \<open>ValueView\<close>).\<close>

record value_view =
  vv_legacy_abstract_memory_size :: gas_quantity
  vv_abstract_memory_size :: gas_quantity

definition abstract_memory_size :: "gas_status \<Rightarrow> value_view \<Rightarrow> gas_quantity" where
  "abstract_memory_size gs val =
     (if use_legacy_abstract_size (gs_gas_model_version gs)
      then vv_legacy_abstract_memory_size val else vv_abstract_memory_size val)"

definition REFERENCE_SIZE :: gas_quantity where
  "REFERENCE_SIZE = 8"

definition STRUCT_SIZE :: gas_quantity where
  "STRUCT_SIZE = 2"

definition VEC_SIZE :: gas_quantity where
  "VEC_SIZE = 8"

text \<open>The size of every type of the meter's instructions is that of a scalar (\<open>Type::size\<close>).\<close>

definition scalar_size :: gas_quantity where
  "scalar_size = 1"

datatype simple_instruction =
    SI_Nop | SI_Ret | SI_BrTrue | SI_BrFalse | SI_Branch | SI_LdU8 | SI_LdU64 | SI_LdU128
     | SI_LdTrue | SI_LdFalse | SI_FreezeRef | SI_MutBorrowLoc | SI_ImmBorrowLoc
     | SI_ImmBorrowField | SI_MutBorrowField | SI_ImmBorrowFieldGeneric
     | SI_MutBorrowFieldGeneric | SI_CastU8 | SI_CastU64 | SI_CastU128 | SI_Add | SI_Sub
     | SI_Mul | SI_Mod | SI_Div | SI_BitOr | SI_BitAnd | SI_Xor | SI_Shl | SI_Shr | SI_Or
     | SI_And | SI_Not | SI_Lt | SI_Gt | SI_Le | SI_Ge | SI_Abort | SI_LdU16 | SI_LdU32
     | SI_LdU256 | SI_CastU16 | SI_CastU32 | SI_CastU256

text \<open>The pops, the pushes, the decrease and the increase of the stack size of an instruction.\<close>

fun get_simple_instruction_stack_change ::
  "simple_instruction \<Rightarrow> u64 \<times> u64 \<times> gas_quantity \<times> gas_quantity" where
  "get_simple_instruction_stack_change SI_Nop = (0, 0, 0, 0)"
| "get_simple_instruction_stack_change SI_Ret = (0, 0, 0, 0)"
| "get_simple_instruction_stack_change SI_BrTrue = (1, 0, scalar_size, 0)"
| "get_simple_instruction_stack_change SI_BrFalse = (1, 0, scalar_size, 0)"
| "get_simple_instruction_stack_change SI_Branch = (0, 0, 0, 0)"
| "get_simple_instruction_stack_change SI_LdU8 = (0, 1, 0, scalar_size)"
| "get_simple_instruction_stack_change SI_LdU64 = (0, 1, 0, scalar_size)"
| "get_simple_instruction_stack_change SI_LdU128 = (0, 1, 0, scalar_size)"
| "get_simple_instruction_stack_change SI_LdTrue = (0, 1, 0, scalar_size)"
| "get_simple_instruction_stack_change SI_LdFalse = (0, 1, 0, scalar_size)"
| "get_simple_instruction_stack_change SI_FreezeRef = (1, 1, REFERENCE_SIZE, REFERENCE_SIZE)"
| "get_simple_instruction_stack_change SI_MutBorrowLoc = (0, 1, 0, REFERENCE_SIZE)"
| "get_simple_instruction_stack_change SI_ImmBorrowLoc = (0, 1, 0, REFERENCE_SIZE)"
| "get_simple_instruction_stack_change SI_ImmBorrowField = (1, 1, REFERENCE_SIZE, REFERENCE_SIZE)"
| "get_simple_instruction_stack_change SI_MutBorrowField = (1, 1, REFERENCE_SIZE, REFERENCE_SIZE)"
| "get_simple_instruction_stack_change SI_ImmBorrowFieldGeneric = (1, 1, REFERENCE_SIZE, REFERENCE_SIZE)"
| "get_simple_instruction_stack_change SI_MutBorrowFieldGeneric = (1, 1, REFERENCE_SIZE, REFERENCE_SIZE)"
| "get_simple_instruction_stack_change SI_CastU8 = (1, 1, scalar_size, scalar_size)"
| "get_simple_instruction_stack_change SI_CastU64 = (1, 1, scalar_size, scalar_size)"
| "get_simple_instruction_stack_change SI_CastU128 = (1, 1, scalar_size, scalar_size)"
| "get_simple_instruction_stack_change SI_Add = (2, 1, quantity_add scalar_size scalar_size, scalar_size)"
| "get_simple_instruction_stack_change SI_Sub = (2, 1, quantity_add scalar_size scalar_size, scalar_size)"
| "get_simple_instruction_stack_change SI_Mul = (2, 1, quantity_add scalar_size scalar_size, scalar_size)"
| "get_simple_instruction_stack_change SI_Mod = (2, 1, quantity_add scalar_size scalar_size, scalar_size)"
| "get_simple_instruction_stack_change SI_Div = (2, 1, quantity_add scalar_size scalar_size, scalar_size)"
| "get_simple_instruction_stack_change SI_BitOr = (2, 1, quantity_add scalar_size scalar_size, scalar_size)"
| "get_simple_instruction_stack_change SI_BitAnd = (2, 1, quantity_add scalar_size scalar_size, scalar_size)"
| "get_simple_instruction_stack_change SI_Xor = (2, 1, quantity_add scalar_size scalar_size, scalar_size)"
| "get_simple_instruction_stack_change SI_Shl = (2, 1, quantity_add scalar_size scalar_size, scalar_size)"
| "get_simple_instruction_stack_change SI_Shr = (2, 1, quantity_add scalar_size scalar_size, scalar_size)"
| "get_simple_instruction_stack_change SI_Or = (2, 1, quantity_add scalar_size scalar_size, scalar_size)"
| "get_simple_instruction_stack_change SI_And = (2, 1, quantity_add scalar_size scalar_size, scalar_size)"
| "get_simple_instruction_stack_change SI_Not = (1, 1, scalar_size, scalar_size)"
| "get_simple_instruction_stack_change SI_Lt = (2, 1, quantity_add scalar_size scalar_size, scalar_size)"
| "get_simple_instruction_stack_change SI_Gt = (2, 1, quantity_add scalar_size scalar_size, scalar_size)"
| "get_simple_instruction_stack_change SI_Le = (2, 1, quantity_add scalar_size scalar_size, scalar_size)"
| "get_simple_instruction_stack_change SI_Ge = (2, 1, quantity_add scalar_size scalar_size, scalar_size)"
| "get_simple_instruction_stack_change SI_Abort = (1, 0, scalar_size, 0)"
| "get_simple_instruction_stack_change SI_LdU16 = (0, 1, 0, scalar_size)"
| "get_simple_instruction_stack_change SI_LdU32 = (0, 1, 0, scalar_size)"
| "get_simple_instruction_stack_change SI_LdU256 = (0, 1, 0, scalar_size)"
| "get_simple_instruction_stack_change SI_CastU16 = (1, 1, scalar_size, scalar_size)"
| "get_simple_instruction_stack_change SI_CastU32 = (1, 1, scalar_size, scalar_size)"
| "get_simple_instruction_stack_change SI_CastU256 = (1, 1, scalar_size, scalar_size)"

definition charge_simple_instr ::
  "gas_status \<Rightarrow> simple_instruction \<Rightarrow> charge_result" where
  "charge_simple_instr gs instr =
     (let (pops, pushes, pop_size, push_size) = get_simple_instruction_stack_change instr
      in charge_instr gs 1 pushes pops push_size pop_size)"

definition charge_pop ::
  "gas_status \<Rightarrow> value_view \<Rightarrow> charge_result" where
  "charge_pop gs popped_val =
     charge_instr gs 1 0 1 0 (abstract_memory_size gs popped_val)"

text \<open>The sum of the sizes of some values, from a start.\<close>

definition sizes_from :: "gas_status \<Rightarrow> gas_quantity \<Rightarrow> value_view list \<Rightarrow> gas_quantity" where
  "sizes_from gs start vals = fold (\<lambda>elem acc. quantity_add acc (abstract_memory_size gs elem)) vals start"

definition charge_native_function ::
  "gas_status \<Rightarrow> gas_quantity \<Rightarrow> value_view list option \<Rightarrow> charge_result" where
  "charge_native_function gs amount ret_vals =
     (let pushes = (case ret_vals of Some vs \<Rightarrow> length vs | None \<Rightarrow> 0);
          size_increase = (case ret_vals of Some vs \<Rightarrow> sizes_from gs 0 vs | None \<Rightarrow> 0)
      in and_then (charge_instr gs 0 pushes 0 size_increase 0) (\<lambda>gs. deduct_gas_units gs amount))"

definition charge_native_function_before_execution ::
  "gas_status \<Rightarrow> value_view list \<Rightarrow> charge_result" where
  "charge_native_function_before_execution gs args =
     (let pops = length args; stack_reduction_size = sizes_from gs pops args
      in charge_instr gs 1 0 pops 0 stack_reduction_size)"

definition charge_call ::
  "gas_status \<Rightarrow> value_view list \<Rightarrow> charge_result" where
  "charge_call gs args =
     (let pops = length args; stack_reduction_size = sizes_from gs 0 args
      in charge_instr gs 1 0 pops 0 stack_reduction_size)"

definition charge_call_generic ::
  "gas_status \<Rightarrow> value_view list \<Rightarrow> charge_result" where
  "charge_call_generic gs args =
     (let pops = length args; stack_reduction_size = sizes_from gs 0 args
      in charge_instr gs 1 0 pops 0 stack_reduction_size)"

definition charge_ld_const ::
  "gas_status \<Rightarrow> gas_quantity \<Rightarrow> charge_result" where
  "charge_ld_const gs n_bytes =
     charge_instr gs 1 1 0 n_bytes 0"

definition charge_copy_loc ::
  "gas_status \<Rightarrow> value_view \<Rightarrow> charge_result" where
  "charge_copy_loc gs val =
     charge_instr gs 1 1 0 (abstract_memory_size gs val) 0"

definition charge_move_loc ::
  "gas_status \<Rightarrow> value_view \<Rightarrow> charge_result" where
  "charge_move_loc gs val =
     charge_instr gs 1 1 0 (abstract_memory_size gs val) 0"

definition charge_store_loc ::
  "gas_status \<Rightarrow> value_view \<Rightarrow> charge_result" where
  "charge_store_loc gs val =
     charge_instr gs 1 0 1 0 (abstract_memory_size gs val)"

definition charge_pack ::
  "gas_status \<Rightarrow> value_view list \<Rightarrow> charge_result" where
  "charge_pack gs args =
     charge_instr gs 1 1 (length args) STRUCT_SIZE 0"

definition charge_unpack ::
  "gas_status \<Rightarrow> value_view list \<Rightarrow> charge_result" where
  "charge_unpack gs args =
     charge_instr gs 1 (length args) 1 0 STRUCT_SIZE"

definition charge_read_ref ::
  "gas_status \<Rightarrow> value_view \<Rightarrow> charge_result" where
  "charge_read_ref gs ref_val =
     charge_instr gs 1 1 1 (abstract_memory_size gs ref_val) REFERENCE_SIZE"

definition charge_write_ref ::
  "gas_status \<Rightarrow> value_view \<Rightarrow> value_view \<Rightarrow> charge_result" where
  "charge_write_ref gs new_val old_val =
     charge_instr gs 1 1 2 (abstract_memory_size gs new_val) (abstract_memory_size gs old_val)"

definition charge_eq ::
  "gas_status \<Rightarrow> value_view \<Rightarrow> value_view \<Rightarrow> charge_result" where
  "charge_eq gs lhs rhs =
     (let size_reduction = quantity_add (abstract_memory_size gs lhs) (abstract_memory_size gs rhs)
      in charge_instr gs 1 1 2 (quantity_add scalar_size size_reduction) size_reduction)"

definition charge_neq ::
  "gas_status \<Rightarrow> value_view \<Rightarrow> value_view \<Rightarrow> charge_result" where
  "charge_neq gs lhs rhs =
     (let size_reduction = quantity_add (abstract_memory_size gs lhs) (abstract_memory_size gs rhs)
      in charge_instr gs 1 1 2 scalar_size size_reduction)"

definition charge_vec_pack ::
  "gas_status \<Rightarrow> value_view list \<Rightarrow> charge_result" where
  "charge_vec_pack gs args =
     charge_instr gs 1 1 (length args) VEC_SIZE 0"

definition charge_vec_len ::
  "gas_status \<Rightarrow> charge_result" where
  "charge_vec_len gs =
     charge_instr gs 1 1 1 scalar_size REFERENCE_SIZE"

definition charge_vec_borrow ::
  "gas_status \<Rightarrow> charge_result" where
  "charge_vec_borrow gs =
     charge_instr gs 1 1 2 REFERENCE_SIZE (quantity_add REFERENCE_SIZE scalar_size)"

definition charge_vec_push_back ::
  "gas_status \<Rightarrow> charge_result" where
  "charge_vec_push_back gs =
     charge_instr gs 1 0 2 0 REFERENCE_SIZE"

definition charge_vec_pop_back ::
  "gas_status \<Rightarrow> charge_result" where
  "charge_vec_pop_back gs =
     charge_instr gs 1 1 1 0 REFERENCE_SIZE"

definition charge_vec_unpack ::
  "gas_status \<Rightarrow> gas_quantity \<Rightarrow> charge_result" where
  "charge_vec_unpack gs expect_num_elements =
     charge_instr gs 1 expect_num_elements 1 0 VEC_SIZE"

definition charge_vec_swap ::
  "gas_status \<Rightarrow> charge_result" where
  "charge_vec_swap gs =
     (let size_decrease = quantity_add (quantity_add REFERENCE_SIZE scalar_size) scalar_size
      in charge_instr gs 1 1 1 0 size_decrease)"

definition meter_remaining_gas :: "gas_status \<Rightarrow> gas_quantity" where
  "meter_remaining_gas gs = (if \<not> gs_charge gs then u64_MAX else gs_gas_left gs)"

section \<open>Runs of the meter\<close>

text \<open>One call of the trait \<open>GasMeter\<close>, with the arguments that the meter uses.\<close>

datatype meter_call =
    MC_simple_instr simple_instruction | MC_pop value_view
  | MC_native_function gas_quantity "value_view list option"
  | MC_native_function_before_execution "value_view list"
  | MC_call "value_view list" | MC_call_generic "value_view list" | MC_ld_const gas_quantity
  | MC_copy_loc value_view | MC_move_loc value_view | MC_store_loc value_view
  | MC_pack "value_view list" | MC_unpack "value_view list" | MC_read_ref value_view
  | MC_write_ref value_view value_view | MC_eq value_view value_view | MC_neq value_view value_view
  | MC_vec_pack "value_view list" | MC_vec_len | MC_vec_borrow | MC_vec_push_back
  | MC_vec_pop_back | MC_vec_unpack gas_quantity | MC_vec_swap

fun meter_step :: "gas_status \<Rightarrow> meter_call \<Rightarrow> charge_result" where
  "meter_step gs (MC_simple_instr i) = charge_simple_instr gs i"
| "meter_step gs (MC_pop v) = charge_pop gs v"
| "meter_step gs (MC_native_function a r) = charge_native_function gs a r"
| "meter_step gs (MC_native_function_before_execution vs) = charge_native_function_before_execution gs vs"
| "meter_step gs (MC_call vs) = charge_call gs vs"
| "meter_step gs (MC_call_generic vs) = charge_call_generic gs vs"
| "meter_step gs (MC_ld_const n) = charge_ld_const gs n"
| "meter_step gs (MC_copy_loc v) = charge_copy_loc gs v"
| "meter_step gs (MC_move_loc v) = charge_move_loc gs v"
| "meter_step gs (MC_store_loc v) = charge_store_loc gs v"
| "meter_step gs (MC_pack vs) = charge_pack gs vs"
| "meter_step gs (MC_unpack vs) = charge_unpack gs vs"
| "meter_step gs (MC_read_ref v) = charge_read_ref gs v"
| "meter_step gs (MC_write_ref v w) = charge_write_ref gs v w"
| "meter_step gs (MC_eq v w) = charge_eq gs v w"
| "meter_step gs (MC_neq v w) = charge_neq gs v w"
| "meter_step gs (MC_vec_pack vs) = charge_vec_pack gs vs"
| "meter_step gs MC_vec_len = charge_vec_len gs"
| "meter_step gs MC_vec_borrow = charge_vec_borrow gs"
| "meter_step gs MC_vec_push_back = charge_vec_push_back gs"
| "meter_step gs MC_vec_pop_back = charge_vec_pop_back gs"
| "meter_step gs (MC_vec_unpack n) = charge_vec_unpack gs n"
| "meter_step gs MC_vec_swap = charge_vec_swap gs"

text \<open>The virtual machine stops at the first call that fails.\<close>

fun meter_run :: "gas_status \<Rightarrow> meter_call list \<Rightarrow> charge_result" where
  "meter_run gs [] = (gs, None)"
| "meter_run gs (c # cs) = and_then (meter_step gs c) (\<lambda>gs. meter_run gs cs)"

lemma and_then_simps [simp]:
  "and_then (gs, None) f = f gs" "and_then (gs, Some e) f = (gs, Some e)"
  by (simp_all add: and_then_def)

lemma and_then_eq:
  "and_then r f = (gs', res) \<longleftrightarrow>
     (\<exists>gs. r = (gs, None) \<and> f gs = (gs', res)) \<or> (\<exists>e. r = (gs', Some e) \<and> res = Some e)"
  by (cases r; cases "snd r") auto

section \<open>Tracking the tiers\<close>

text \<open>The multiplier and the next start are those of the table at some count not above the mark, and
  the mark has not passed the next start.\<close>

definition tier_tracked :: "tiers \<Rightarrow> u64 \<Rightarrow> u64 \<Rightarrow> u64 \<Rightarrow> u64 option \<Rightarrow> bool" where
  "tier_tracked tiers dflt mark mult next_start \<longleftrightarrow>
     (\<exists>x \<le> mark. mult = tier_cost tiers dflt x \<and> next_start = next_tier tiers dflt x
        \<and> (\<forall>s. next_start = Some s \<longrightarrow> mark \<le> s))"

lemma tier_tracked_start: "tier_tracked t d 0 (tier_cost t d 0) (next_tier t d 0)"
  by (auto simp: tier_tracked_def)

text \<open>The update of the multiplier and the next start when the count is \<open>c\<close>.\<close>

definition raise_tier :: "tiers \<Rightarrow> u64 \<Rightarrow> u64 \<Rightarrow> u64 \<Rightarrow> u64 option \<Rightarrow> u64 \<times> u64 option" where
  "raise_tier t d c mult nxt =
     (case nxt of None \<Rightarrow> (mult, None)
      | Some s \<Rightarrow> if s < c then (tier_cost t d c, next_tier t d c) else (mult, Some s))"

lemma tier_tracked_raise:
  assumes "tier_tracked t d m mult nxt" and "m' = max m c"
  shows "tier_tracked t d m' (fst (raise_tier t d c mult nxt)) (snd (raise_tier t d c mult nxt))"
proof -
  from assms obtain x where x: "x \<le> m" "mult = tier_cost t d x" "nxt = next_tier t d x"
    and m: "\<And>s. nxt = Some s \<Longrightarrow> m \<le> s"
    by (auto simp: tier_tracked_def)
  show ?thesis
  proof (cases nxt)
    case None
    then show ?thesis using x assms(2) unfolding raise_tier_def tier_tracked_def
      by (intro exI [of _ x]) simp
  next
    case (Some s)
    show ?thesis
    proof (cases "s < c")
      case True
      then have "m' = c" using m [OF Some] assms(2) by simp
      moreover have "\<forall>s'. next_tier t d c = Some s' \<longrightarrow> c \<le> s'"
        using next_tier_Some(1) [of t d c] by (auto intro: less_imp_le)
      ultimately show ?thesis using Some True unfolding raise_tier_def tier_tracked_def
        by (intro exI [of _ c]) simp
    next
      case False
      then show ?thesis using Some x m [OF Some] assms(2) unfolding raise_tier_def tier_tracked_def
        by (intro exI [of _ x]) simp
    qed
  qed
qed

text \<open>The multiplier lags behind the table by at most one unit of the count.\<close>

lemma tier_tracked_bounds:
  assumes "tier_tracked t d m mult nxt" and "ascending t"
  shows "tier_cost t d (m - 1) \<le> mult" and "mult \<le> tier_cost t d m"
proof -
  from assms(1) obtain x where x: "x \<le> m" "mult = tier_cost t d x" "nxt = next_tier t d x"
    and m: "\<And>s. nxt = Some s \<Longrightarrow> m \<le> s"
    by (auto simp: tier_tracked_def)
  show "mult \<le> tier_cost t d m" unfolding x(2) by (rule tier_cost_mono [OF assms(2) x(1)])
  show "tier_cost t d (m - 1) \<le> mult"
  proof (cases "x \<le> m - 1")
    case True
    have "k \<le> x \<or> m - 1 < k" if "k \<in> dom (bt_get t)" for k
    proof (cases nxt)
      case None
      with next_tier_None that x(3) show ?thesis by metis
    next
      case (Some s)
      with next_tier_Some [of t d x s] x(3) m [OF Some] that True show ?thesis by fastforce
    qed
    with tier_cost_between [OF True] show ?thesis unfolding x(2) by simp
  next
    case False
    then show ?thesis unfolding x(2) by (intro tier_cost_mono [OF assms(2)]) simp
  qed
qed

section \<open>The invariant of the meter\<close>

definition gas_inv :: "gas_status \<Rightarrow> bool" where
  "gas_inv gs \<longleftrightarrow> gs_gas_left gs \<le> gs_initial_budget gs \<and> gs_initial_budget gs < 2 ^ 64"

definition height_inv :: "gas_status \<Rightarrow> bool" where
  "height_inv gs \<longleftrightarrow> gs_stack_height_current gs \<le> gs_stack_height_high_water_mark gs
     \<and> tier_tracked (ct_stack_height_tiers (gs_cost_table gs)) STACK_HEIGHT_TIER_DEFAULT
         (gs_stack_height_high_water_mark gs) (gs_stack_height_current_tier_mult gs)
         (gs_stack_height_next_tier_start gs)"

definition size_inv :: "gas_status \<Rightarrow> bool" where
  "size_inv gs \<longleftrightarrow> gs_stack_size_current gs \<le> gs_stack_size_high_water_mark gs
     \<and> tier_tracked (ct_stack_size_tiers (gs_cost_table gs)) STACK_SIZE_TIER_DEFAULT
         (gs_stack_size_high_water_mark gs) (gs_stack_size_current_tier_mult gs)
         (gs_stack_size_next_tier_start gs)"

definition instruction_inv :: "gas_status \<Rightarrow> bool" where
  "instruction_inv gs \<longleftrightarrow>
     tier_tracked (ct_instruction_tiers (gs_cost_table gs)) INSTRUCTION_TIER_DEFAULT
         (gs_instructions_executed gs) (gs_instructions_current_tier_mult gs)
         (gs_instructions_next_tier_start gs)"

definition gs_inv :: "gas_status \<Rightarrow> bool" where
  "gs_inv gs \<longleftrightarrow> gas_inv gs \<and> height_inv gs \<and> size_inv gs \<and> instruction_inv gs"

lemmas tier_defs = stack_height_tier_def stack_size_tier_def instruction_tier_def tier_eq
lemmas inv_defs = gs_inv_def gas_inv_def height_inv_def size_inv_def instruction_inv_def

lemma GasStatus_new_fields:
  assumes "GasStatus_new ct b p v = Some gs"
  shows "0 < p" "gs_cost_table gs = ct" "gs_gas_left gs = gs_initial_budget gs" "gs_charge gs"
    "gs_initial_budget gs = to_internal_units (b div p)" "gs_instructions_executed gs = 0"
    "gs_gas_price gs = p" "gs_gas_model_version gs = v"
  using assms by (auto simp: GasStatus_new_def tier_defs Let_def split: if_splits)

lemma GasStatus_new_inv: "GasStatus_new ct b p v = Some gs \<Longrightarrow> gs_inv gs"
  by (auto simp: GasStatus_new_def tier_defs Let_def inv_defs tier_tracked_start to_internal_units_def
      mul_u64_def split: if_splits)

text \<open>What each step changes.\<close>

lemma push_stack_eq:
  "push_stack gs n =
     (let c = gs_stack_height_current gs + n;
          t = raise_tier (ct_stack_height_tiers (gs_cost_table gs)) STACK_HEIGHT_TIER_DEFAULT c
                (gs_stack_height_current_tier_mult gs) (gs_stack_height_next_tier_start gs)
      in if c < 2 ^ 64
         then (gs\<lparr>gs_stack_height_high_water_mark := max (gs_stack_height_high_water_mark gs) c,
                 gs_stack_height_current := c, gs_stack_height_current_tier_mult := fst t,
                 gs_stack_height_next_tier_start := snd t\<rparr>, None)
         else (gs, Some ARITHMETIC_OVERFLOW))"
  by (cases gs) (auto simp: push_stack_def checked_add_u64_def raise_tier_def Let_def tier_defs max_def
      split: option.splits)

lemma increase_stack_size_eq:
  "increase_stack_size gs n =
     (let c = gs_stack_size_current gs + n;
          t = raise_tier (ct_stack_size_tiers (gs_cost_table gs)) STACK_SIZE_TIER_DEFAULT c
                (gs_stack_size_current_tier_mult gs) (gs_stack_size_next_tier_start gs)
      in if c < 2 ^ 64
         then (gs\<lparr>gs_stack_size_high_water_mark := max (gs_stack_size_high_water_mark gs) c,
                 gs_stack_size_current := c, gs_stack_size_current_tier_mult := fst t,
                 gs_stack_size_next_tier_start := snd t\<rparr>, None)
         else (gs, Some ARITHMETIC_OVERFLOW))"
  by (cases gs) (auto simp: increase_stack_size_def checked_add_u64_def raise_tier_def Let_def tier_defs
      max_def split: option.splits)

lemma increase_instruction_count_eq:
  "increase_instruction_count gs n =
     (let c = gs_instructions_executed gs + n;
          t = raise_tier (ct_instruction_tiers (gs_cost_table gs)) INSTRUCTION_TIER_DEFAULT c
                (gs_instructions_current_tier_mult gs) (gs_instructions_next_tier_start gs)
      in if c < 2 ^ 64
         then (gs\<lparr>gs_instructions_executed := c, gs_instructions_current_tier_mult := fst t,
                 gs_instructions_next_tier_start := snd t\<rparr>, None)
         else (gs, Some PC_OVERFLOW))"
  by (cases gs) (auto simp: increase_instruction_count_def checked_add_u64_def raise_tier_def Let_def
      tier_defs split: option.splits)

lemma deduct_gas_units_eq:
  "deduct_gas_units gs a =
     (if \<not> gs_charge gs then (gs, None)
      else if a \<le> gs_gas_left gs then (gs\<lparr>gs_gas_left := gs_gas_left gs - a\<rparr>, None)
      else (gs\<lparr>gs_gas_left := 0\<rparr>, Some OUT_OF_GAS))"
  by (simp add: deduct_gas_units_def quantity_checked_sub_def checked_sub_u64_def)

lemma push_stack_inv:
  assumes "gs_inv gs" and "push_stack gs n = (gs', r)"
  shows "gs_inv gs'"
  using assms by (auto simp: push_stack_eq Let_def inv_defs split: if_splits intro!: tier_tracked_raise)

lemma increase_stack_size_inv:
  assumes "gs_inv gs" and "increase_stack_size gs n = (gs', r)"
  shows "gs_inv gs'"
  using assms by (auto simp: increase_stack_size_eq Let_def inv_defs split: if_splits intro!: tier_tracked_raise)

lemma increase_instruction_count_inv:
  assumes "gs_inv gs" and "increase_instruction_count gs n = (gs', r)"
  shows "gs_inv gs'"
  using assms by (auto simp: increase_instruction_count_eq Let_def inv_defs split: if_splits
      intro!: tier_tracked_raise)

lemma deduct_inv: "gs_inv gs \<Longrightarrow> deduct_gas_units gs a = (gs', r) \<Longrightarrow> gs_inv gs'"
  by (auto simp: deduct_gas_units_eq inv_defs split: if_splits)

lemma pop_inv: "gs_inv gs \<Longrightarrow> gs_inv (pop_stack gs n)"
  by (auto simp: pop_stack_def inv_defs)

text \<open>A charge that succeeds has gone through all its steps.\<close>

lemma charge_instr_cases:
  assumes "charge_instr gs n pu po i d = (gs', r)"
  obtains (push) e where "push_stack gs pu = (gs', Some e)" "r = Some e"
  | (count) gs1 e where "push_stack gs pu = (gs1, None)"
      "increase_instruction_count gs1 n = (gs', Some e)" "r = Some e"
  | (stack_size) gs1 gs2 e where "push_stack gs pu = (gs1, None)"
      "increase_instruction_count gs1 n = (gs2, None)" "increase_stack_size gs2 i = (gs', Some e)" "r = Some e"
  | (cost) gs1 gs2 where "push_stack gs pu = (gs1, None)"
      "increase_instruction_count gs1 n = (gs2, None)" "increase_stack_size gs2 i = (gs', None)"
      "r = Some ARITHMETIC_OVERFLOW"
  | (deducted) gs1 gs2 gs3 gs4 a s where "push_stack gs pu = (gs1, None)"
      "increase_instruction_count gs1 n = (gs2, None)" "increase_stack_size gs2 i = (gs3, None)"
      "instruction_cost gs3 n pu i = Some a" "deduct_gas_units gs3 a = (gs4, s)"
      "r = s" "gs' = (if s = None then pop_stack gs4 po else gs4)"
  using assms unfolding charge_instr_def by (auto simp: and_then_eq split: option.splits)

lemma charge_instr_inv:
  assumes "gs_inv gs" and "charge_instr gs n pu po i d = (gs', r)"
  shows "gs_inv gs'"
  using assms(2)
proof (cases rule: charge_instr_cases)
  case push
  show ?thesis by (rule push_stack_inv [OF assms(1) push(1)])
next
  case count
  show ?thesis
    by (rule increase_instruction_count_inv [OF push_stack_inv [OF assms(1) count(1)] count(2)])
next
  case stack_size
  show ?thesis
    by (rule increase_stack_size_inv [OF increase_instruction_count_inv [OF push_stack_inv
          [OF assms(1) stack_size(1)] stack_size(2)] stack_size(3)])
next
  case cost
  show ?thesis
    by (rule increase_stack_size_inv [OF increase_instruction_count_inv [OF push_stack_inv
          [OF assms(1) cost(1)] cost(2)] cost(3)])
next
  case (deducted gs1 gs2 gs3 gs4 a s)
  have "gs_inv gs4"
    by (rule deduct_inv [OF increase_stack_size_inv [OF increase_instruction_count_inv [OF push_stack_inv
          [OF assms(1) deducted(1)] deducted(2)] deducted(3)] deducted(5)])
  with deducted show ?thesis by (simp add: pop_inv)
qed

end
