(* ===== verification/Objects.thy ===== *)
theory Objects
  imports BTree_Map "HOL-Library.List_Lexorder" "HOL-Library.Char_ord"
begin

text \<open>
  Objects of the ledger (\<open>crates/mgo-types/src/object.rs\<close>): Move objects and packages, their owners,
  versions and storage rebates, and the balance stored in a coin.  An object id, an address and a
  digest are arrays of 32 bytes; they are words whose most significant byte comes first, so the
  order of words is the order of the arrays.  Code outside the sources is the record
  \<open>object_platform\<close>: the size of a type in the BCS encoding, the size the compiler gives the type
  \<open>Owner\<close>, and the hash of an object.
\<close>

section \<open>Identifiers, types and owners\<close>

type_synonym object_id = "256 word"
type_synonym mgo_address = "256 word"
type_synonym object_digest = "256 word"
type_synonym transaction_digest = "256 word"
type_synonym sequence_number = u64
type_synonym object_ref = "object_id \<times> sequence_number \<times> object_digest"
type_synonym version_digest = "sequence_number \<times> object_digest"

definition ID_LENGTH :: nat where
  "ID_LENGTH = 32"

definition ID_ZERO :: object_id where
  "ID_ZERO = 0"

definition ID_END_INDEX :: nat where
  "ID_END_INDEX = ID_LENGTH"

definition MGO_SYSTEM_STATE_OBJECT_ID :: object_id where
  "MGO_SYSTEM_STATE_OBJECT_ID = 5"

definition is_system_package :: "object_id \<Rightarrow> bool" where
  "is_system_package addr \<longleftrightarrow> addr = 1 \<or> addr = 2 \<or> addr = 3"

text \<open>An array filled with one byte.\<close>

definition repeat_byte :: "u8 \<Rightarrow> 256 word" where
  "repeat_byte b = foldl (\<lambda>acc x. acc * 256 + ucast x) 0 (replicate 32 b)"

definition OBJECT_DIGEST_MIN :: object_digest where
  "OBJECT_DIGEST_MIN = repeat_byte 0"

definition OBJECT_DIGEST_DELETED :: object_digest where
  "OBJECT_DIGEST_DELETED = repeat_byte 99"

definition OBJECT_DIGEST_WRAPPED :: object_digest where
  "OBJECT_DIGEST_WRAPPED = repeat_byte 88"

datatype type_tag =
    Tag_Bool | Tag_U8 | Tag_U64 | Tag_U128 | Tag_Address | Tag_Signer
  | Tag_Vector type_tag | Tag_Struct struct_tag | Tag_U16 | Tag_U32 | Tag_U256
and struct_tag = StructTag (st_address: mgo_address) (st_module: string) (st_name: string) (st_type_params: "type_tag list")

datatype move_object_type = Other struct_tag | GasCoin | StakedMgo | Coin type_tag

definition is_coin :: "move_object_type \<Rightarrow> bool" where
  "is_coin t = (case t of GasCoin \<Rightarrow> True | Coin _ \<Rightarrow> True | _ \<Rightarrow> False)"

definition is_gas_coin :: "move_object_type \<Rightarrow> bool" where
  "is_gas_coin t = (case t of GasCoin \<Rightarrow> True | _ \<Rightarrow> False)"

datatype owner =
    AddressOwner mgo_address
  | ObjectOwner mgo_address
  | Shared sequence_number
  | Immutable

definition owner_is_immutable :: "owner \<Rightarrow> bool" where
  "owner_is_immutable w = (case w of Immutable \<Rightarrow> True | _ \<Rightarrow> False)"

definition owner_is_address_owned :: "owner \<Rightarrow> bool" where
  "owner_is_address_owned w = (case w of AddressOwner _ \<Rightarrow> True | _ \<Rightarrow> False)"

definition owner_is_shared :: "owner \<Rightarrow> bool" where
  "owner_is_shared w = (case w of Shared _ \<Rightarrow> True | _ \<Rightarrow> False)"

section \<open>Versions\<close>

text \<open>The version above all given ones; the greatest \<open>u64\<close> has none above it.\<close>

definition lamport_increment :: "sequence_number list \<Rightarrow> sequence_number option" where
  "lamport_increment inputs =
     (let max_input = fold max inputs 0
      in if max_input = 2 ^ 64 - 1 then None else Some (add_u64 max_input 1))"

definition sequence_increment :: "sequence_number \<Rightarrow> sequence_number option" where
  "sequence_increment v = (if v = 2 ^ 64 - 1 then None else Some (add_u64 v 1))"

lemma fold_max_start: "(a :: nat) \<le> fold max xs a"
proof (induction xs arbitrary: a)
  case (Cons x xs)
  from Cons.IH [of "max x a"] show ?case by simp
qed simp

lemma fold_max_ge: "x \<in> set xs \<Longrightarrow> x \<le> fold max xs (a :: nat)"
proof (induction xs arbitrary: a)
  case (Cons y xs)
  then show ?case using fold_max_start [of "max y a" xs] by auto
qed simp

lemma fold_max_less: "a < b \<Longrightarrow> \<forall>x \<in> set xs. x < b \<Longrightarrow> fold max xs a < (b :: nat)"
  by (induction xs arbitrary: a) auto

lemma lamport_increment_above:
  assumes "lamport_increment vs = Some w" and "\<forall>v \<in> set vs. v < 2 ^ 64" and "v \<in> set vs"
  shows "v < w"
proof -
  let ?m = "fold max vs 0"
  have "?m < 2 ^ 64" using assms(2) by (intro fold_max_less) simp_all
  with assms(1) have "w = ?m + 1" by (auto simp: lamport_increment_def Let_def add_u64_def split: if_splits)
  then show ?thesis using fold_max_ge [OF assms(3), of 0] by simp
qed

section \<open>Objects\<close>

record move_object =
  mo_type :: move_object_type
  mo_has_public_transfer :: bool
  mo_version :: sequence_number
  mo_contents :: bytes

record type_origin =
  to_module_name :: string
  to_struct_name :: string
  to_package :: object_id

record upgrade_info =
  ui_upgraded_id :: object_id
  ui_upgraded_version :: sequence_number

record move_package =
  mp_id :: object_id
  mp_version :: sequence_number
  mp_module_map :: "(string, bytes) btree_map"
  mp_type_origin_table :: "type_origin list"
  mp_linkage_table :: "(object_id, upgrade_info) btree_map"

datatype data = Move move_object | Package move_package

record object =
  ob_data :: data
  ob_owner :: owner
  ob_previous_transaction :: transaction_digest
  ob_storage_rebate :: u64

record object_platform =
  op_serialized_type_size :: "move_object_type \<Rightarrow> u64"
  op_size_of_owner :: u64
  op_hash :: "object \<Rightarrow> object_digest"

definition try_as_move :: "data \<Rightarrow> move_object option" where
  "try_as_move d = (case d of Move m \<Rightarrow> Some m | Package _ \<Rightarrow> None)"

definition try_as_package :: "data \<Rightarrow> move_package option" where
  "try_as_package d = (case d of Move _ \<Rightarrow> None | Package p \<Rightarrow> Some p)"

text \<open>The id is the first 32 bytes of the contents; shorter contents panic.\<close>

definition id_opt :: "bytes \<Rightarrow> object_id option" where
  "id_opt contents =
     (if ID_END_INDEX > length contents then None
      else Some (foldl (\<lambda>acc b. acc * 256 + ucast b) 0 (take ID_END_INDEX contents)))"

definition MoveObject_id :: "move_object \<Rightarrow> object_id option" where
  "MoveObject_id m = id_opt (mo_contents m)"

definition object_id :: "object \<Rightarrow> object_id option" where
  "object_id obj = (case ob_data obj of Move m \<Rightarrow> MoveObject_id m | Package p \<Rightarrow> Some (mp_id p))"

definition object_version :: "object \<Rightarrow> sequence_number" where
  "object_version obj = (case ob_data obj of Move m \<Rightarrow> mo_version m | Package p \<Rightarrow> mp_version p)"

definition object_digest :: "object_platform \<Rightarrow> object \<Rightarrow> object_digest" where
  "object_digest P obj = op_hash P obj"

definition compute_object_reference :: "object_platform \<Rightarrow> object \<Rightarrow> object_ref option" where
  "compute_object_reference P obj =
     do { id \<leftarrow> object_id obj; Some (id, object_version obj, object_digest P obj) }"

definition is_package :: "object \<Rightarrow> bool" where
  "is_package obj = (case ob_data obj of Package _ \<Rightarrow> True | Move _ \<Rightarrow> False)"

definition is_immutable :: "object \<Rightarrow> bool" where
  "is_immutable obj = owner_is_immutable (ob_owner obj)"

definition is_address_owned :: "object \<Rightarrow> bool" where
  "is_address_owned obj = owner_is_address_owned (ob_owner obj)"

section \<open>The value of a coin\<close>

definition u64_to_le_bytes :: "u64 \<Rightarrow> bytes" where
  "u64_to_le_bytes v = map (\<lambda>i. word_of_nat (v div 256 ^ i)) [0..<8]"

definition u64_from_le_bytes :: "bytes \<Rightarrow> u64" where
  "u64_from_le_bytes bs = foldr (\<lambda>b acc. unat b + 256 * acc) bs 0"

text \<open>Both conversions of the slice panic: a slice that starts behind the end, and one that does not
  have eight bytes.\<close>

definition get_coin_value_unsafe :: "move_object \<Rightarrow> u64 option" where
  "get_coin_value_unsafe m =
     (if ID_END_INDEX > length (mo_contents m) then None
      else let rest = drop ID_END_INDEX (mo_contents m)
           in if length rest = 8 then Some (u64_from_le_bytes rest) else None)"

definition set_coin_value_unsafe :: "move_object \<Rightarrow> u64 \<Rightarrow> move_object option" where
  "set_coin_value_unsafe m value =
     (if ID_END_INDEX > length (mo_contents m) then None
      else Some (m\<lparr>mo_contents := take ID_END_INDEX (mo_contents m) @ u64_to_le_bytes value\<rparr>))"

section \<open>Sizes\<close>

definition MoveObject_size :: "object_platform \<Rightarrow> move_object \<Rightarrow> u64" where
  "MoveObject_size P m =
     add_u64 (add_u64 (add_u64 (length (mo_contents m)) (op_serialized_type_size P (mo_type m))) 1) 8"

definition MovePackage_size :: "move_package \<Rightarrow> u64" where
  "MovePackage_size p =
     (let module_map_size =
            sum_u64 (map (\<lambda>(name, module). add_u64 (length name) (length module)) (bt_entries (mp_module_map p)));
          type_origin_table_size =
            sum_u64 (map (\<lambda>t. add_u64 (add_u64 (length (to_module_name t)) (length (to_struct_name t))) ID_LENGTH)
                       (mp_type_origin_table p));
          linkage_table_size =
            mul_u64 (length (bt_entries (mp_linkage_table p))) (ID_LENGTH + (ID_LENGTH + 8))
      in add_u64 (add_u64 (add_u64 8 module_map_size) type_origin_table_size) linkage_table_size)"

text \<open>A digest has 32 bytes, a \<open>u64\<close> eight.\<close>

definition object_size_for_gas_metering :: "object_platform \<Rightarrow> object \<Rightarrow> u64" where
  "object_size_for_gas_metering P obj =
     (let meta_data_size = add_u64 (add_u64 (op_size_of_owner P) 32) 8;
          data_size = (case ob_data obj of Move m \<Rightarrow> MoveObject_size P m | Package p \<Rightarrow> MovePackage_size p)
      in add_u64 meta_data_size data_size)"

section \<open>Laws of coins\<close>

lemma from_le_digits: "foldr (\<lambda>b acc. unat (b :: 8 word) + 256 * acc)
    (map (\<lambda>i. word_of_nat (v div 256 ^ i)) [k..<k + n]) 0 = v div 256 ^ k mod 256 ^ n"
proof (induction n arbitrary: k)
  case (Suc n)
  have "[k..<k + Suc n] = k # [Suc k..<Suc k + n]" by (simp add: upt_conv_Cons)
  moreover have "v div 256 ^ Suc k = v div 256 ^ k div 256"
    by (simp only: power_Suc2 div_mult2_eq)
  moreover have "unat (word_of_nat x :: 8 word) = x mod 256" for x
    by (simp add: unsigned_of_nat take_bit_eq_mod)
  ultimately show ?case
    using Suc.IH [of "Suc k"] mod_mult2_eq [of "v div 256 ^ k" 256 "256 ^ n"] by simp
qed simp

lemma u64_le_bytes_roundtrip: "v < 2 ^ 64 \<Longrightarrow> u64_from_le_bytes (u64_to_le_bytes v) = v"
  using from_le_digits [of v 0 8] by (simp add: u64_from_le_bytes_def u64_to_le_bytes_def del: upt_Suc)

lemma u64_to_le_bytes_length [simp]: "length (u64_to_le_bytes v) = 8"
  by (simp add: u64_to_le_bytes_def)

lemma from_le_less: "foldr (\<lambda>b acc. unat (b :: 8 word) + 256 * acc) bs 0 < 256 ^ length bs"
proof (induction bs)
  case (Cons b bs)
  have "unat b < 256" using unsigned_less [of b, where 'a = nat] by simp
  with Cons show ?case by simp
qed simp

lemma coin_value_less: "get_coin_value_unsafe m = Some v \<Longrightarrow> v < 2 ^ 64"
  using from_le_less [of "drop ID_END_INDEX (mo_contents m)"]
  by (auto simp: get_coin_value_unsafe_def u64_from_le_bytes_def Let_def split: if_splits)

lemma set_coin_value:
  assumes "set_coin_value_unsafe m v = Some m'" and "v < 2 ^ 64"
  shows "get_coin_value_unsafe m' = Some v" and "MoveObject_id m' = MoveObject_id m"
    and "mo_type m' = mo_type m" and "mo_version m' = mo_version m"
  using assms
  by (auto simp: set_coin_value_unsafe_def get_coin_value_unsafe_def MoveObject_id_def id_opt_def
      u64_le_bytes_roundtrip Let_def split: if_splits)

lemma coin_settable: "get_coin_value_unsafe m = Some v \<Longrightarrow> \<exists>m'. set_coin_value_unsafe m w = Some m'"
  by (auto simp: get_coin_value_unsafe_def set_coin_value_unsafe_def split: if_splits)

lemma set_coin_size:
  assumes "get_coin_value_unsafe m = Some v" and "set_coin_value_unsafe m w = Some m'"
  shows "MoveObject_size P m' = MoveObject_size P m"
proof -
  from assms(1) have "length (mo_contents m) = ID_END_INDEX + 8"
    by (auto simp: get_coin_value_unsafe_def Let_def split: if_splits)
  with assms(2) show ?thesis by (auto simp: set_coin_value_unsafe_def MoveObject_size_def)
qed

end
