(* ===== verification/Input_Objects.thy ===== *)
theory Input_Objects
  imports Objects
begin

text \<open>
  The inputs of a transaction (\<open>crates/mgo-types/src/transaction.rs\<close>): how an object is referred to,
  what was read for it, which inputs may be mutated, and the version the transaction writes.
\<close>

datatype input_object_kind =
    MovePackage object_id
  | ImmOrOwnedMoveObject object_ref
  | SharedMoveObject (so_id: object_id) (so_initial_shared_version: sequence_number) (so_mutable: bool)

datatype object_read_result_kind =
    Object object
  | DeletedSharedObject sequence_number transaction_digest

record object_read_result =
  rr_input_object_kind :: input_object_kind
  rr_object :: object_read_result_kind

definition kind_object_id :: "input_object_kind \<Rightarrow> object_id" where
  "kind_object_id k =
     (case k of MovePackage i \<Rightarrow> i | ImmOrOwnedMoveObject r \<Rightarrow> fst r | SharedMoveObject i _ _ \<Rightarrow> i)"

text \<open>Only a shared object can be read as deleted.\<close>

definition ObjectReadResult_new ::
  "input_object_kind \<Rightarrow> object_read_result_kind \<Rightarrow> object_read_result option" where
  "ObjectReadResult_new kind obj =
     (case (kind, obj) of
        (ImmOrOwnedMoveObject _, DeletedSharedObject _ _) \<Rightarrow> None
      | _ \<Rightarrow> Some \<lparr>rr_input_object_kind = kind, rr_object = obj\<rparr>)"

definition as_object :: "object_read_result \<Rightarrow> object option" where
  "as_object r = (case rr_object r of Object obj \<Rightarrow> Some obj | DeletedSharedObject _ _ \<Rightarrow> None)"

definition read_id :: "object_read_result \<Rightarrow> object_id" where
  "read_id r = kind_object_id (rr_input_object_kind r)"

type_synonym input_refs = "(object_id, version_digest \<times> owner) btree_map"

text \<open>The entry an input has among the mutable inputs; the outer \<open>None\<close> is the unreachable case.\<close>

definition mutable_input ::
  "object_platform \<Rightarrow> object_read_result \<Rightarrow> (object_id \<times> version_digest \<times> owner) option option" where
  "mutable_input P r =
     (case (rr_input_object_kind r, rr_object r) of
        (MovePackage _, _) \<Rightarrow> Some None
      | (ImmOrOwnedMoveObject oref, Object obj) \<Rightarrow>
          if is_immutable obj then Some None
          else Some (Some (fst oref, (fst (snd oref), snd (snd oref)), ob_owner obj))
      | (ImmOrOwnedMoveObject _, DeletedSharedObject _ _) \<Rightarrow> None
      | (SharedMoveObject _ _ _, DeletedSharedObject _ _) \<Rightarrow> Some None
      | (SharedMoveObject _ _ mutable, Object obj) \<Rightarrow>
          if mutable
          then do { oref \<leftarrow> compute_object_reference P obj;
                    Some (Some (fst oref, (fst (snd oref), snd (snd oref)), ob_owner obj)) }
          else Some None)"

definition collect_map :: "('k::linorder \<times> 'v) list \<Rightarrow> ('k, 'v) btree_map" where
  "collect_map xs = fold (\<lambda>(k, v). bt_insert k v) xs bt_empty"

definition mutable_inputs :: "object_platform \<Rightarrow> object_read_result list \<Rightarrow> input_refs option" where
  "mutable_inputs P objects =
     do { entries \<leftarrow> those (map (mutable_input P) objects);
          Some (collect_map (List.map_filter id entries)) }"

definition read_version :: "object_read_result \<Rightarrow> sequence_number option" where
  "read_version r =
     (case rr_object r of
        Object obj \<Rightarrow> map_option mo_version (try_as_move (ob_data obj))
      | DeletedSharedObject v _ \<Rightarrow> Some v)"

definition lamport_timestamp :: "object_read_result list \<Rightarrow> object_ref list \<Rightarrow> sequence_number option" where
  "lamport_timestamp objects receiving_objects =
     lamport_increment (List.map_filter read_version objects @ map (\<lambda>r. fst (snd r)) receiving_objects)"

definition into_object_map :: "object_read_result list \<Rightarrow> (object_id, object) btree_map" where
  "into_object_map objects =
     collect_map (List.map_filter (\<lambda>r. map_option (\<lambda>obj. (read_id r, obj)) (as_object r)) objects)"

datatype shared_input =
    Existing object_ref
  | Deleted object_id sequence_number bool transaction_digest

definition to_shared_input :: "object_platform \<Rightarrow> object_read_result \<Rightarrow> shared_input option option" where
  "to_shared_input P r =
     (case rr_input_object_kind r of
        SharedMoveObject i _ mutable \<Rightarrow>
          (case rr_object r of
             Object obj \<Rightarrow> do { oref \<leftarrow> compute_object_reference P obj; Some (Some (Existing oref)) }
           | DeletedSharedObject seq digest \<Rightarrow> Some (Some (Deleted i seq mutable digest)))
      | _ \<Rightarrow> Some None)"

definition filter_shared_objects :: "object_platform \<Rightarrow> object_read_result list \<Rightarrow> shared_input list option" where
  "filter_shared_objects P objects =
     do { inputs \<leftarrow> those (map (to_shared_input P) objects); Some (List.map_filter id inputs) }"

definition transaction_dependencies :: "object_read_result list \<Rightarrow> (transaction_digest, unit) btree_map" where
  "transaction_dependencies objects =
     collect_map (map (\<lambda>r. (case rr_object r of Object obj \<Rightarrow> ob_previous_transaction obj
                              | DeletedSharedObject _ digest \<Rightarrow> digest, ())) objects)"

section \<open>Laws\<close>

lemma those_Some_set: "those xs = Some ys \<Longrightarrow> x \<in> set xs \<Longrightarrow> \<exists>y \<in> set ys. x = Some y"
  by (induction xs arbitrary: ys) (auto split: option.splits)

lemma those_map_Some: "those (map f xs) = Some ys \<longleftrightarrow> map f xs = map Some ys"
  by (induction xs arbitrary: ys) (auto split: option.splits)

lemma bt_get_fold_insert:
  "bt_get (fold (\<lambda>(k, v). bt_insert k v) xs m) = bt_get m ++ map_of (rev xs)"
  by (induction xs arbitrary: m) (auto simp: fun_eq_iff map_add_def split: option.splits)

lemma bt_get_collect: "bt_get (collect_map xs) = map_of (rev xs)"
  by (simp add: collect_map_def bt_get_fold_insert fun_eq_iff map_add_def split: option.splits)

lemma collect_map_in: "bt_get (collect_map xs) k = Some v \<Longrightarrow> (k, v) \<in> set xs"
  using map_of_SomeD [of "rev xs" k v] by (simp add: bt_get_collect)

lemma collect_map_key: "(k, v) \<in> set xs \<Longrightarrow> bt_get (collect_map xs) k \<noteq> None"
  using image_eqI [of k fst "(k, v)" "set xs"] by (simp add: bt_get_collect map_of_eq_None_iff)

text \<open>Each read result describes the object it was asked for.\<close>

definition read_ok :: "object_platform \<Rightarrow> object_read_result \<Rightarrow> bool" where
  "read_ok P r \<longleftrightarrow>
     (case (rr_input_object_kind r, rr_object r) of
        (ImmOrOwnedMoveObject oref, Object obj) \<Rightarrow> compute_object_reference P obj = Some oref
      | (ImmOrOwnedMoveObject _, DeletedSharedObject _ _) \<Rightarrow> False
      | (_, Object obj) \<Rightarrow> object_id obj = Some (read_id r)
      | (_, DeletedSharedObject _ _) \<Rightarrow> True)"

lemma read_ok_id:
  "read_ok P r \<Longrightarrow> as_object r = Some obj \<Longrightarrow> object_id obj = Some (read_id r)"
  by (auto simp: read_ok_def as_object_def read_id_def kind_object_id_def compute_object_reference_def
      split: input_object_kind.splits object_read_result_kind.splits bind_splits)

lemma mutable_input_of_read:
  assumes "read_ok P r" and "mutable_input P r = Some (Some (k, vd, w))"
  shows "k = read_id r" and "\<exists>obj. as_object r = Some obj \<and> ob_owner obj = w
    \<and> compute_object_reference P obj = Some (k, fst vd, snd vd)"
  using assms
  by (auto simp: read_ok_def mutable_input_def as_object_def read_id_def kind_object_id_def
      compute_object_reference_def split: input_object_kind.splits object_read_result_kind.splits
      bind_splits if_splits)

end
