(* ===== verification/Gas_Summary.thy ===== *)
theory Gas_Summary
  imports Gas_Status Input_Objects
begin

text \<open>
  Charging a transaction (\<open>crates/mgo-types/src/gas.rs\<close> and \<open>gas_model/gas_v2.rs\<close>): the cost summary,
  the gas status of a transaction with its buckets, budgets and storage records, and the deduction
  from a gas coin.  These files are compiled with checked arithmetic, so an overflow of \<open>+\<close>, \<open>-\<close> or
  \<open>*\<close> panics; a \<open>sum\<close> of an iterator is not rewritten and wraps.
\<close>

section \<open>Errors and configuration\<close>

text \<open>Of the errors of the source those that the modelled code raises; the kinds of the others are the
  type parameter.\<close>

datatype user_input_error =
    GasPriceUnderRGP u64 u64
  | GasPriceTooHigh u64
  | GasObjectNotOwnedObject owner
  | MissingGasPayment
  | GasBudgetTooHigh u64 u64
  | GasBudgetTooLow u64 u64
  | GasBalanceTooLow nat nat
  | InvalidGasObject object_id

datatype 'k execution_error = InsufficientGas | InvariantViolation | OtherKind 'k

text \<open>The fields of the protocol configuration that gas uses; the accessor of a field that is not set
  panics.\<close>

record protocol_config =
  pc_max_tx_gas :: "u64 option"
  pc_max_gas_price :: "u64 option"
  pc_max_gas_computation_bucket :: "u64 option"
  pc_gas_rounding_step :: "u64 option"
  pc_base_tx_cost_fixed :: "u64 option"
  pc_package_publish_cost_per_byte :: "u64 option"
  pc_obj_access_cost_read_per_byte :: "u64 option"
  pc_gas_model_version :: "u64 option"
  pc_obj_data_cost_refundable :: "u64 option"
  pc_storage_rebate_rate :: "u64 option"
  pc_storage_gas_price :: "u64 option"
  pc_txn_base_cost_as_multiplier :: bool

definition txn_base_cost_as_multiplier :: "protocol_config \<Rightarrow> bool" where
  "txn_base_cost_as_multiplier c = pc_txn_base_cost_as_multiplier c"

section \<open>The cost summary\<close>

record gas_cost_summary =
  gcs_computation_cost :: u64
  gcs_storage_cost :: u64
  gcs_storage_rebate :: u64
  gcs_non_refundable_storage_fee :: u64

definition GasCostSummary_new :: "u64 \<Rightarrow> u64 \<Rightarrow> u64 \<Rightarrow> u64 \<Rightarrow> gas_cost_summary" where
  "GasCostSummary_new computation_cost storage_cost storage_rebate non_refundable_storage_fee =
     \<lparr>gcs_computation_cost = computation_cost, gcs_storage_cost = storage_cost,
      gcs_storage_rebate = storage_rebate, gcs_non_refundable_storage_fee = non_refundable_storage_fee\<rparr>"

definition summary_default :: gas_cost_summary where
  "summary_default = GasCostSummary_new 0 0 0 0"

definition summary_gas_used :: "gas_cost_summary \<Rightarrow> u64 option" where
  "summary_gas_used s = checked_add_u64 (gcs_computation_cost s) (gcs_storage_cost s)"

definition BASIS_POINTS :: nat where
  "BASIS_POINTS = 10000"

text \<open>The product and the sum are taken in \<open>u128\<close>, where they cannot overflow.\<close>

definition sender_rebate :: "u64 \<Rightarrow> u64 \<Rightarrow> u64" where
  "sender_rebate storage_rebate storage_rebate_rate =
     ((storage_rebate * storage_rebate_rate + BASIS_POINTS div 2) div BASIS_POINTS) mod 2 ^ 64"

definition summary_sender_rebate :: "gas_cost_summary \<Rightarrow> u64 \<Rightarrow> u64" where
  "summary_sender_rebate s storage_rebate_rate =
     ((gcs_storage_rebate s * storage_rebate_rate + BASIS_POINTS div 2) div BASIS_POINTS) mod 2 ^ 64"

text \<open>A cast to \<open>i64\<close> reads the sign bit; subtraction and negation in \<open>i64\<close> are checked.\<close>

definition as_i64 :: "u64 \<Rightarrow> int" where
  "as_i64 n = (if n < 2 ^ 63 then int n else int n - 2 ^ 64)"

definition checked_i64 :: "int \<Rightarrow> int option" where
  "checked_i64 x = (if - (2 ^ 63) \<le> x \<and> x < 2 ^ 63 then Some x else None)"

definition net_gas_usage :: "gas_cost_summary \<Rightarrow> int option" where
  "net_gas_usage s =
     do { used \<leftarrow> summary_gas_used s; checked_i64 (as_i64 used - as_i64 (gcs_storage_rebate s)) }"

definition new_from_txn_effects :: "gas_cost_summary list \<Rightarrow> gas_cost_summary" where
  "new_from_txn_effects transactions =
     \<lparr>gcs_computation_cost = sum_u64 (map gcs_computation_cost transactions),
      gcs_storage_cost = sum_u64 (map gcs_storage_cost transactions),
      gcs_storage_rebate = sum_u64 (map gcs_storage_rebate transactions),
      gcs_non_refundable_storage_fee = sum_u64 (map gcs_non_refundable_storage_fee transactions)\<rparr>"

definition summary_add_assign :: "gas_cost_summary \<Rightarrow> gas_cost_summary \<Rightarrow> gas_cost_summary option" where
  "summary_add_assign a b =
     do { c \<leftarrow> checked_add_u64 (gcs_computation_cost a) (gcs_computation_cost b);
          s \<leftarrow> checked_add_u64 (gcs_storage_cost a) (gcs_storage_cost b);
          r \<leftarrow> checked_add_u64 (gcs_storage_rebate a) (gcs_storage_rebate b);
          n \<leftarrow> checked_add_u64 (gcs_non_refundable_storage_fee a) (gcs_non_refundable_storage_fee b);
          Some (GasCostSummary_new c s r n) }"

section \<open>Gas coins\<close>

definition deduct_gas :: "object \<Rightarrow> int \<Rightarrow> object option" where
  "deduct_gas gas_object charge_or_rebate =
     do { gas_coin \<leftarrow> try_as_move (ob_data gas_object);
          balance \<leftarrow> get_coin_value_unsafe gas_coin;
          new_balance \<leftarrow>
            (if charge_or_rebate < 0
             then do { rebate \<leftarrow> checked_i64 (- charge_or_rebate); checked_add_u64 balance (nat rebate) }
             else if \<not> balance \<ge> nat charge_or_rebate then None
             else checked_sub_u64 balance (nat charge_or_rebate));
          gas_coin \<leftarrow> set_coin_value_unsafe gas_coin new_balance;
          Some (gas_object\<lparr>ob_data := Move gas_coin\<rparr>) }"

definition get_gas_balance :: "object \<Rightarrow> (user_input_error + u64) option" where
  "get_gas_balance gas_object =
     (case try_as_move (ob_data gas_object) of
        Some move_obj \<Rightarrow>
          if \<not> is_gas_coin (mo_type move_obj)
          then map_option (\<lambda>id. Inl (InvalidGasObject id)) (object_id gas_object)
          else map_option Inr (get_coin_value_unsafe move_obj)
      | None \<Rightarrow> map_option (\<lambda>id. Inl (InvalidGasObject id)) (object_id gas_object))"

section \<open>Computation buckets\<close>

record computation_bucket =
  cb_min :: u64
  cb_max :: u64
  cb_cost :: u64

definition ComputationBucket_new :: "u64 \<Rightarrow> u64 \<Rightarrow> u64 \<Rightarrow> computation_bucket" where
  "ComputationBucket_new mn mx cost = \<lparr>cb_min = mn, cb_max = mx, cb_cost = cost\<rparr>"

definition ComputationBucket_simple :: "u64 \<Rightarrow> u64 \<Rightarrow> computation_bucket" where
  "ComputationBucket_simple mn mx = ComputationBucket_new mn mx mx"

definition get_bucket_cost :: "computation_bucket list \<Rightarrow> u64 \<Rightarrow> u64" where
  "get_bucket_cost table computation_cost =
     (case List.find (\<lambda>bucket. cb_max bucket \<ge> computation_cost) table of
        Some bucket \<Rightarrow> cb_cost bucket
      | None \<Rightarrow> if table = [] then 5000000 else cb_cost (List.last table))"

definition computation_buckets :: "u64 \<Rightarrow> computation_bucket list option" where
  "computation_buckets max_bucket_cost =
     (if \<not> max_bucket_cost \<ge> 5000000 then None
      else Some
        [ComputationBucket_simple 0 1000,
         ComputationBucket_simple 1000 5000,
         ComputationBucket_simple 5000 10000,
         ComputationBucket_simple 10000 20000,
         ComputationBucket_simple 20000 50000,
         ComputationBucket_simple 50000 200000,
         ComputationBucket_simple 200000 1000000,
         ComputationBucket_simple 1000000 max_bucket_cost])"

section \<open>The gas status of a transaction\<close>

record mgo_cost_table =
  mct_min_transaction_cost :: u64
  mct_max_gas_budget :: u64
  mct_package_publish_per_byte_cost :: u64
  mct_object_read_per_byte_cost :: u64
  mct_storage_per_byte_cost :: u64
  mct_execution_cost_table :: cost_table
  mct_computation_bucket :: "computation_bucket list"

definition MgoCostTable_new :: "protocol_config \<Rightarrow> u64 \<Rightarrow> mgo_cost_table option" where
  "MgoCostTable_new c gas_price =
     do { base \<leftarrow> pc_base_tx_cost_fixed c;
          min_transaction_cost \<leftarrow>
            (if txn_base_cost_as_multiplier c then checked_mul_u64 base gas_price else Some base);
          max_gas_budget \<leftarrow> pc_max_tx_gas c;
          package_publish \<leftarrow> pc_package_publish_cost_per_byte c;
          object_read \<leftarrow> pc_obj_access_cost_read_per_byte c;
          storage \<leftarrow> pc_obj_data_cost_refundable c;
          version \<leftarrow> pc_gas_model_version c;
          max_bucket \<leftarrow> pc_max_gas_computation_bucket c;
          buckets \<leftarrow> computation_buckets max_bucket;
          Some \<lparr>mct_min_transaction_cost = min_transaction_cost, mct_max_gas_budget = max_gas_budget,
            mct_package_publish_per_byte_cost = package_publish,
            mct_object_read_per_byte_cost = object_read, mct_storage_per_byte_cost = storage,
            mct_execution_cost_table = cost_table_for_version version,
            mct_computation_bucket = buckets\<rparr> }"

definition MgoCostTable_unmetered :: "mgo_cost_table option" where
  "MgoCostTable_unmetered =
     do { buckets \<leftarrow> computation_buckets 5000000;
          Some \<lparr>mct_min_transaction_cost = 0, mct_max_gas_budget = u64_MAX,
            mct_package_publish_per_byte_cost = 0, mct_object_read_per_byte_cost = 0,
            mct_storage_per_byte_cost = 0, mct_execution_cost_table = zero_cost_schedule,
            mct_computation_bucket = buckets\<rparr> }"

record per_object_storage =
  pos_storage_cost :: u64
  pos_storage_rebate :: u64
  pos_new_size :: u64

record mgo_gas_status =
  mgs_gas_status :: gas_status
  mgs_cost_table :: mgo_cost_table
  mgs_gas_budget :: u64
  mgs_computation_cost :: u64
  mgs_charge :: bool
  mgs_gas_price :: u64
  mgs_reference_gas_price :: u64
  mgs_storage_gas_price :: u64
  mgs_per_object_storage :: "(object_id \<times> per_object_storage) list"
  mgs_rebate_rate :: u64
  mgs_unmetered_storage_rebate :: u64
  mgs_gas_rounding_step :: "u64 option"

definition MgoGasStatusV2_new ::
  "gas_status \<Rightarrow> u64 \<Rightarrow> bool \<Rightarrow> u64 \<Rightarrow> u64 \<Rightarrow> u64 \<Rightarrow> u64 \<Rightarrow> u64 option \<Rightarrow> mgo_cost_table \<Rightarrow> mgo_gas_status" where
  "MgoGasStatusV2_new move_gas_status gas_budget charge gas_price reference_gas_price storage_gas_price
     rebate_rate gas_rounding_step cost_table =
     \<lparr>mgs_gas_status = move_gas_status, mgs_cost_table = cost_table, mgs_gas_budget = gas_budget,
      mgs_computation_cost = 0, mgs_charge = charge, mgs_gas_price = gas_price,
      mgs_reference_gas_price = reference_gas_price, mgs_storage_gas_price = storage_gas_price,
      mgs_per_object_storage = [], mgs_rebate_rate = rebate_rate, mgs_unmetered_storage_rebate = 0,
      mgs_gas_rounding_step = map_option (\<lambda>val. max val 1) gas_rounding_step\<rparr>"

definition new_with_budget :: "u64 \<Rightarrow> u64 \<Rightarrow> u64 \<Rightarrow> protocol_config \<Rightarrow> mgo_gas_status option" where
  "new_with_budget gas_budget gas_price reference_gas_price config =
     do { storage_gas_price \<leftarrow> pc_storage_gas_price config;
          max_bucket \<leftarrow> pc_max_gas_computation_bucket config;
          max_computation_budget \<leftarrow> checked_mul_u64 max_bucket gas_price;
          let computation_budget =
            (if gas_budget > max_computation_budget then max_computation_budget else gas_budget);
          mgo_cost_table \<leftarrow> MgoCostTable_new config gas_price;
          version \<leftarrow> pc_gas_model_version config;
          gas_status \<leftarrow>
            GasStatus_new (mct_execution_cost_table mgo_cost_table) computation_budget gas_price version;
          rebate_rate \<leftarrow> pc_storage_rebate_rate config;
          Some (MgoGasStatusV2_new gas_status gas_budget True gas_price reference_gas_price
            storage_gas_price rebate_rate (pc_gas_rounding_step config) mgo_cost_table) }"

definition MgoGasStatus_new_unmetered :: "mgo_gas_status option" where
  "MgoGasStatus_new_unmetered =
     do { cost_table \<leftarrow> MgoCostTable_unmetered;
          Some (MgoGasStatusV2_new GasStatus_new_unmetered 0 False 0 0 0 0 None cost_table) }"

definition MgoGasStatus_new ::
  "u64 \<Rightarrow> u64 \<Rightarrow> u64 \<Rightarrow> protocol_config \<Rightarrow> (user_input_error + mgo_gas_status) option" where
  "MgoGasStatus_new gas_budget gas_price reference_gas_price config =
     (if gas_price < reference_gas_price
      then Some (Inl (GasPriceUnderRGP gas_price reference_gas_price))
      else
        do { version \<leftarrow> pc_gas_model_version config;
             too_high \<leftarrow>
               (if gas_price_too_high version
                then do { max_gas_price \<leftarrow> pc_max_gas_price config;
                          Some (if gas_price \<ge> max_gas_price then Some max_gas_price else None) }
                else Some None);
             (case too_high of
                Some max_gas_price \<Rightarrow> Some (Inl (GasPriceTooHigh max_gas_price))
              | None \<Rightarrow>
                  do { status \<leftarrow> new_with_budget gas_budget gas_price reference_gas_price config;
                       Some (Inr status) }) })"

section \<open>Checking the payment\<close>

fun check_gas_owners :: "object_read_result list \<Rightarrow> user_input_error option" where
  "check_gas_owners [] = None"
| "check_gas_owners (gas_object # rest) =
     (case as_object gas_object of
        Some obj \<Rightarrow>
          if \<not> is_address_owned obj then Some (GasObjectNotOwnedObject (ob_owner obj))
          else check_gas_owners rest
      | None \<Rightarrow> Some MissingGasPayment)"

text \<open>The sum of the balances is taken in \<open>u128\<close>.\<close>

fun sum_gas_balances :: "nat \<Rightarrow> object_read_result list \<Rightarrow> (user_input_error + nat) option" where
  "sum_gas_balances gas_balance [] = Some (Inr gas_balance)"
| "sum_gas_balances gas_balance (gas_obj # rest) =
     do { obj \<leftarrow> as_object gas_obj;
          r \<leftarrow> get_gas_balance obj;
          (case r of
             Inl e \<Rightarrow> Some (Inl e)
           | Inr b \<Rightarrow> if gas_balance + b < 2 ^ 128 then sum_gas_balances (gas_balance + b) rest else None) }"

definition check_gas_balance ::
  "mgo_gas_status \<Rightarrow> object_read_result list \<Rightarrow> u64 \<Rightarrow> user_input_error option option" where
  "check_gas_balance st gas_objs gas_budget =
     (case check_gas_owners gas_objs of
        Some e \<Rightarrow> Some (Some e)
      | None \<Rightarrow>
          if gas_budget > mct_max_gas_budget (mgs_cost_table st)
          then Some (Some (GasBudgetTooHigh gas_budget (mct_max_gas_budget (mgs_cost_table st))))
          else if gas_budget < mct_min_transaction_cost (mgs_cost_table st)
          then Some (Some (GasBudgetTooLow gas_budget (mct_min_transaction_cost (mgs_cost_table st))))
          else do { r \<leftarrow> sum_gas_balances 0 gas_objs;
                    (case r of
                       Inl e \<Rightarrow> Some (Some e)
                     | Inr gas_balance \<Rightarrow>
                         Some (if gas_balance < gas_budget
                               then Some (GasBalanceTooLow gas_balance gas_budget) else None)) })"

section \<open>Charging\<close>

definition is_unmetered :: "mgo_gas_status \<Rightarrow> bool" where
  "is_unmetered st \<longleftrightarrow> \<not> mgs_charge st"

definition status_gas_used :: "mgo_gas_status \<Rightarrow> u64 option" where
  "status_gas_used st = gas_used_pre_gas_price (mgs_gas_status st)"

text \<open>The charge for the gas used: rounded up to the step, or to the bucket.\<close>

definition computation_charge :: "mgo_gas_status \<Rightarrow> u64 \<Rightarrow> u64 option" where
  "computation_charge st gas_used =
     (case mgs_gas_rounding_step st of
        Some gas_rounding \<Rightarrow>
          if gas_rounding = 0 then None
          else if gas_used > 0 \<and> gas_used mod gas_rounding = 0
          then checked_mul_u64 gas_used (mgs_gas_price st)
          else do { n \<leftarrow> checked_add_u64 (gas_used div gas_rounding) 1;
                    n \<leftarrow> checked_mul_u64 n gas_rounding;
                    checked_mul_u64 n (mgs_gas_price st) }
      | None \<Rightarrow>
          checked_mul_u64 (get_bucket_cost (mct_computation_bucket (mgs_cost_table st)) gas_used)
            (mgs_gas_price st))"

definition bucketize_computation ::
  "mgo_gas_status \<Rightarrow> (mgo_gas_status \<times> 'k execution_error option) option" where
  "bucketize_computation st =
     do { gas_used \<leftarrow> gas_used_pre_gas_price (mgs_gas_status st);
          gas_used \<leftarrow> computation_charge st gas_used;
          Some (if mgs_gas_budget st \<le> gas_used
                then (st\<lparr>mgs_computation_cost := mgs_gas_budget st\<rparr>, Some InsufficientGas)
                else (st\<lparr>mgs_computation_cost := gas_used\<rparr>, None)) }"

definition storage_gas_units :: "mgo_gas_status \<Rightarrow> u64" where
  "storage_gas_units st = sum_u64 (map (\<lambda>(_, per_object). pos_storage_cost per_object) (mgs_per_object_storage st))"

definition storage_rebate :: "mgo_gas_status \<Rightarrow> u64" where
  "storage_rebate st = sum_u64 (map (\<lambda>(_, per_object). pos_storage_rebate per_object) (mgs_per_object_storage st))"

definition storage_cost :: "mgo_gas_status \<Rightarrow> u64" where
  "storage_cost st = storage_gas_units st"

definition summary :: "mgo_gas_status \<Rightarrow> gas_cost_summary option" where
  "summary st =
     (let rebate = storage_rebate st; to_sender = sender_rebate rebate (mgs_rebate_rate st)
      in if \<not> to_sender \<le> rebate then None
         else do { non_refundable_storage_fee \<leftarrow> checked_sub_u64 rebate to_sender;
                   Some \<lparr>gcs_computation_cost = mgs_computation_cost st, gcs_storage_cost = storage_cost st,
                     gcs_storage_rebate = to_sender,
                     gcs_non_refundable_storage_fee = non_refundable_storage_fee\<rparr> })"

definition status_reset_storage_cost_and_rebate :: "mgo_gas_status \<Rightarrow> mgo_gas_status" where
  "status_reset_storage_cost_and_rebate st =
     st\<lparr>mgs_per_object_storage := [], mgs_unmetered_storage_rebate := 0\<rparr>"

text \<open>Every error of the meter is reported as a lack of gas.\<close>

definition insufficient_gas :: "mgo_gas_status \<Rightarrow> charge_result \<Rightarrow> mgo_gas_status \<times> 'k execution_error option" where
  "insufficient_gas st r =
     (st\<lparr>mgs_gas_status := fst r\<rparr>, case snd r of None \<Rightarrow> None | Some _ \<Rightarrow> Some InsufficientGas)"

definition charge_storage_read :: "mgo_gas_status \<Rightarrow> u64 \<Rightarrow> mgo_gas_status \<times> 'k execution_error option" where
  "charge_storage_read st n_bytes =
     insufficient_gas st
       (charge_bytes (mgs_gas_status st) n_bytes (mct_object_read_per_byte_cost (mgs_cost_table st)))"

definition status_charge_publish_package ::
  "mgo_gas_status \<Rightarrow> u64 \<Rightarrow> mgo_gas_status \<times> 'k execution_error option" where
  "status_charge_publish_package st n_bytes =
     insufficient_gas st
       (charge_bytes (mgs_gas_status st) n_bytes (mct_package_publish_per_byte_cost (mgs_cost_table st)))"

definition status_track_storage_mutation ::
  "mgo_gas_status \<Rightarrow> object_id \<Rightarrow> u64 \<Rightarrow> u64 \<Rightarrow> (u64 \<times> mgo_gas_status) option" where
  "status_track_storage_mutation st oid new_size rebate =
     (if is_unmetered st
      then do { total \<leftarrow> checked_add_u64 (mgs_unmetered_storage_rebate st) rebate;
                Some (0, st\<lparr>mgs_unmetered_storage_rebate := total\<rparr>) }
      else do { cost \<leftarrow> checked_mul_u64 new_size (mct_storage_per_byte_cost (mgs_cost_table st));
                cost \<leftarrow> checked_mul_u64 cost (mgs_storage_gas_price st);
                Some (cost, st\<lparr>mgs_per_object_storage := mgs_per_object_storage st @
                  [(oid, \<lparr>pos_storage_cost = cost, pos_storage_rebate = rebate,
                     pos_new_size = new_size\<rparr>)]\<rparr>) })"

definition charge_storage_and_rebate :: "mgo_gas_status \<Rightarrow> 'k execution_error option option" where
  "charge_storage_and_rebate st =
     (let rebate = storage_rebate st; cost = storage_cost st;
          to_sender = sender_rebate rebate (mgs_rebate_rate st)
      in if \<not> to_sender \<le> rebate then None
         else if to_sender \<ge> cost then Some None
         else do { gas_left \<leftarrow> checked_sub_u64 (mgs_gas_budget st) (mgs_computation_cost st);
                   net \<leftarrow> checked_sub_u64 cost to_sender;
                   Some (if gas_left < net then Some InsufficientGas else None) })"

definition adjust_computation_on_out_of_gas :: "mgo_gas_status \<Rightarrow> mgo_gas_status" where
  "adjust_computation_on_out_of_gas st =
     st\<lparr>mgs_per_object_storage := [], mgs_computation_cost := mgs_gas_budget st\<rparr>"

section \<open>What the operations compute\<close>

lemma checked_u64_simps:
  "checked_add_u64 a b = Some c \<longleftrightarrow> a + b < 2 ^ 64 \<and> c = a + b"
  "checked_sub_u64 a b = Some c \<longleftrightarrow> b \<le> a \<and> c = a - b"
  "checked_mul_u64 a b = Some c \<longleftrightarrow> a * b < 2 ^ 64 \<and> c = a * b"
  by (auto simp: checked_add_u64_def checked_sub_u64_def checked_mul_u64_def)

lemma sender_rebate_le:
  assumes "rate \<le> BASIS_POINTS" and "r < 2 ^ 64"
  shows "sender_rebate r rate \<le> r"
proof -
  have "r * rate \<le> r * BASIS_POINTS" using assms(1) by simp
  then have "(r * rate + BASIS_POINTS div 2) div BASIS_POINTS \<le> (r * BASIS_POINTS + BASIS_POINTS div 2) div BASIS_POINTS"
    by (intro div_le_mono) simp
  also have "\<dots> = r" by (simp add: BASIS_POINTS_def)
  finally show ?thesis
    using assms(2) by (simp add: sender_rebate_def le_less_trans [OF mod_less_eq_dividend])
qed

lemma sender_rebate_less: "sender_rebate r rate < 2 ^ 64"
  by (simp add: sender_rebate_def)

lemma storage_sums_less: "storage_rebate st < 2 ^ 64" "storage_cost st < 2 ^ 64"
  by (simp_all add: storage_rebate_def storage_cost_def storage_gas_units_def sum_u64_mod)

text \<open>The summary exists for a rate of at most 100 percent, and splits the rebate.\<close>

lemma summary_split:
  assumes "mgs_rebate_rate st \<le> BASIS_POINTS"
  shows "\<exists>s. summary st = Some s \<and> gcs_computation_cost s = mgs_computation_cost st
     \<and> gcs_storage_cost s = storage_cost st
     \<and> gcs_storage_rebate s = sender_rebate (storage_rebate st) (mgs_rebate_rate st)
     \<and> gcs_storage_rebate s + gcs_non_refundable_storage_fee s = storage_rebate st"
  using sender_rebate_le [OF assms storage_sums_less(1)]
  by (simp add: summary_def Let_def checked_sub_u64_def)

end
