(* ===== verification/Temporary_Store.thy ===== *)
theory Temporary_Store
  imports Gas_Summary
begin

text \<open>
  The store a transaction executes on (\<open>mgo-execution/latest/mgo-adapter/src/temporary_store.rs\<close>), with
  the execution results it collects (\<open>crates/mgo-types/src/execution.rs\<close>) and the part of the gas
  charger that the store calls (\<open>gas_charger.rs\<close>).  The backing store, an interface with many
  implementations, is a record of functions.  This file has no checked arithmetic, so its sums wrap.
\<close>

section \<open>Sets in key order\<close>

type_synonym 'k btree_set = "('k, unit) btree_map"

definition bs_insert :: "'k::linorder \<Rightarrow> 'k btree_set \<Rightarrow> 'k btree_set" where
  "bs_insert k s = bt_insert k () s"

definition bs_contains :: "'k::linorder btree_set \<Rightarrow> 'k \<Rightarrow> bool" where
  "bs_contains s k \<longleftrightarrow> bt_get s k \<noteq> None"

definition bt_extend :: "('k::linorder, 'v) btree_map \<Rightarrow> ('k, 'v) btree_map \<Rightarrow> ('k, 'v) btree_map" where
  "bt_extend m m' = fold (\<lambda>(k, v). bt_insert k v) (bt_entries m') m"

section \<open>Execution results\<close>

record event =
  ev_package_id :: object_id
  ev_transaction_module :: string
  ev_sender :: mgo_address
  ev_type :: struct_tag
  ev_contents :: bytes

record execution_results =
  er_written_objects :: "(object_id, object) btree_map"
  er_modified_objects :: "object_id btree_set"
  er_created_object_ids :: "object_id btree_set"
  er_deleted_object_ids :: "object_id btree_set"
  er_user_events :: "event list"

definition results_default :: execution_results where
  "results_default =
     \<lparr>er_written_objects = bt_empty, er_modified_objects = bt_empty, er_created_object_ids = bt_empty,
      er_deleted_object_ids = bt_empty, er_user_events = []\<rparr>"

definition results_drop_writes :: "execution_results \<Rightarrow> execution_results" where
  "results_drop_writes r =
     r\<lparr>er_written_objects := bt_empty, er_modified_objects := bt_empty, er_created_object_ids := bt_empty,
       er_deleted_object_ids := bt_empty, er_user_events := []\<rparr>"

definition merge_results :: "execution_results \<Rightarrow> execution_results \<Rightarrow> execution_results" where
  "merge_results r n =
     r\<lparr>er_written_objects := bt_extend (er_written_objects r) (er_written_objects n),
       er_modified_objects := bt_extend (er_modified_objects r) (er_modified_objects n),
       er_created_object_ids := bt_extend (er_created_object_ids r) (er_created_object_ids n),
       er_deleted_object_ids := bt_extend (er_deleted_object_ids r) (er_deleted_object_ids n),
       er_user_events := er_user_events r @ er_user_events n\<rparr>"

text \<open>The update of one written object.\<close>

definition update_written ::
  "execution_results \<Rightarrow> sequence_number \<Rightarrow> transaction_digest \<Rightarrow> object_id \<Rightarrow> object \<Rightarrow> object option" where
  "update_written r lamport_version prev_tx i obj =
     do { data \<leftarrow>
            (case ob_data obj of
               Move m \<Rightarrow> Some (Move (m\<lparr>mo_version := lamport_version\<rparr>))
             | Package pkg \<Rightarrow>
                 if bs_contains (er_modified_objects r) i
                 then do { v \<leftarrow> sequence_increment (mp_version pkg); Some (Package (pkg\<lparr>mp_version := v\<rparr>)) }
                 else Some (Package pkg));
          owner \<leftarrow>
            (case ob_owner obj of
               Shared initial_shared_version \<Rightarrow>
                 if bs_contains (er_created_object_ids r) i
                 then (if initial_shared_version = 0 then Some (Shared lamport_version) else None)
                 else Some (ob_owner obj)
             | _ \<Rightarrow> Some (ob_owner obj));
          Some (obj\<lparr>ob_data := data, ob_owner := owner, ob_previous_transaction := prev_tx\<rparr>) }"

fun update_loop ::
  "execution_results \<Rightarrow> sequence_number \<Rightarrow> transaction_digest \<Rightarrow> (object_id \<times> object) list
     \<Rightarrow> (object_id, object) btree_map \<Rightarrow> (object_id, object) btree_map option" where
  "update_loop r v tx [] written = Some written"
| "update_loop r v tx ((i, obj) # rest) written =
     do { obj' \<leftarrow> update_written r v tx i obj; update_loop r v tx rest (bt_insert i obj' written) }"

definition update_version_and_previous_tx ::
  "execution_results \<Rightarrow> sequence_number \<Rightarrow> transaction_digest \<Rightarrow> execution_results option" where
  "update_version_and_previous_tx r lamport_version prev_tx =
     do { written \<leftarrow> update_loop r lamport_version prev_tx (bt_entries (er_written_objects r)) (er_written_objects r);
          Some (r\<lparr>er_written_objects := written\<rparr>) }"

record loaded_metadata =
  md_version :: sequence_number
  md_digest :: object_digest
  md_owner :: owner
  md_storage_rebate :: u64
  md_previous_transaction :: transaction_digest

section \<open>The store\<close>

record backing_store =
  bk_get_package_object :: "object_id \<Rightarrow> object option"
  bk_get_object_by_key :: "object_id \<Rightarrow> sequence_number \<Rightarrow> object option"

record temporary_store =
  ts_store :: backing_store
  ts_tx_digest :: transaction_digest
  ts_input_objects :: "(object_id, object) btree_map"
  ts_lamport_timestamp :: sequence_number
  ts_mutable_input_refs :: input_refs
  ts_execution_results :: execution_results
  ts_loaded_runtime_objects :: "(object_id, loaded_metadata) btree_map"
  ts_wrapped_object_containers :: "(object_id, object_id) btree_map"
  ts_runtime_packages_loaded_from_db :: "(object_id, object) btree_map"
  ts_receiving_objects :: "object_ref list"

abbreviation written :: "temporary_store \<Rightarrow> (object_id, object) btree_map" where
  "written ts \<equiv> er_written_objects (ts_execution_results ts)"

abbreviation modified :: "temporary_store \<Rightarrow> object_id btree_set" where
  "modified ts \<equiv> er_modified_objects (ts_execution_results ts)"

abbreviation set_results :: "temporary_store \<Rightarrow> execution_results \<Rightarrow> temporary_store" where
  "set_results ts r \<equiv> ts\<lparr>ts_execution_results := r\<rparr>"

definition TemporaryStore_new ::
  "object_platform \<Rightarrow> backing_store \<Rightarrow> object_read_result list \<Rightarrow> object_ref list \<Rightarrow> transaction_digest
     \<Rightarrow> temporary_store option" where
  "TemporaryStore_new P store input_objects receiving_objects tx_digest =
     do { mutable_input_refs \<leftarrow> mutable_inputs P input_objects;
          timestamp \<leftarrow> lamport_timestamp input_objects receiving_objects;
          Some \<lparr>ts_store = store, ts_tx_digest = tx_digest, ts_input_objects = into_object_map input_objects,
            ts_lamport_timestamp = timestamp, ts_mutable_input_refs = mutable_input_refs,
            ts_execution_results = results_default, ts_loaded_runtime_objects = bt_empty,
            ts_wrapped_object_containers = bt_empty, ts_runtime_packages_loaded_from_db = bt_empty,
            ts_receiving_objects = receiving_objects\<rparr> }"

definition mutate_input_object :: "temporary_store \<Rightarrow> object \<Rightarrow> temporary_store option" where
  "mutate_input_object ts obj =
     do { i \<leftarrow> object_id obj;
          let r = ts_execution_results ts;
          Some (set_results ts (r\<lparr>er_modified_objects := bs_insert i (er_modified_objects r),
            er_written_objects := bt_insert i obj (er_written_objects r)\<rparr>)) }"

definition mutate_child_object ::
  "object_platform \<Rightarrow> temporary_store \<Rightarrow> object \<Rightarrow> object \<Rightarrow> temporary_store option" where
  "mutate_child_object P ts old_object new_object =
     do { i \<leftarrow> object_id new_object;
          old_ref \<leftarrow> compute_object_reference P old_object;
          let r = ts_execution_results ts;
          Some (ts\<lparr>ts_loaded_runtime_objects := bt_insert i
              \<lparr>md_version = fst (snd old_ref), md_digest = snd (snd old_ref), md_owner = ob_owner old_object,
               md_storage_rebate = ob_storage_rebate old_object,
               md_previous_transaction = ob_previous_transaction old_object\<rparr> (ts_loaded_runtime_objects ts),
            ts_execution_results := r\<lparr>er_modified_objects := bs_insert i (er_modified_objects r),
              er_written_objects := bt_insert i new_object (er_written_objects r)\<rparr>\<rparr>) }"

definition upgrade_system_package :: "temporary_store \<Rightarrow> object \<Rightarrow> temporary_store option" where
  "upgrade_system_package ts package =
     do { i \<leftarrow> object_id package;
          let r = ts_execution_results ts;
          (if is_package package \<and> is_system_package i
           then Some (set_results ts (r\<lparr>er_modified_objects := bs_insert i (er_modified_objects r),
             er_written_objects := bt_insert i package (er_written_objects r)\<rparr>))
           else None) }"

definition create_object :: "temporary_store \<Rightarrow> object \<Rightarrow> temporary_store option" where
  "create_object ts obj =
     do { i \<leftarrow> object_id obj;
          let r = ts_execution_results ts;
          Some (set_results ts (r\<lparr>er_created_object_ids := bs_insert i (er_created_object_ids r),
            er_written_objects := bt_insert i obj (er_written_objects r)\<rparr>)) }"

definition delete_input_object :: "temporary_store \<Rightarrow> object_id \<Rightarrow> temporary_store" where
  "delete_input_object ts i =
     (let r = ts_execution_results ts
      in set_results ts (r\<lparr>er_modified_objects := bs_insert i (er_modified_objects r),
           er_deleted_object_ids := bs_insert i (er_deleted_object_ids r)\<rparr>))"

definition drop_writes :: "temporary_store \<Rightarrow> temporary_store" where
  "drop_writes ts = set_results ts (results_drop_writes (ts_execution_results ts))"

definition record_execution_results :: "temporary_store \<Rightarrow> execution_results \<Rightarrow> temporary_store" where
  "record_execution_results ts results = set_results ts (merge_results (ts_execution_results ts) results)"

definition read_object :: "temporary_store \<Rightarrow> object_id \<Rightarrow> object option" where
  "read_object ts i =
     (case bt_get (written ts) i of Some obj \<Rightarrow> Some obj | None \<Rightarrow> bt_get (ts_input_objects ts) i)"

definition save_loaded_runtime_objects ::
  "temporary_store \<Rightarrow> (object_id, loaded_metadata) btree_map \<Rightarrow> temporary_store" where
  "save_loaded_runtime_objects ts loaded =
     ts\<lparr>ts_loaded_runtime_objects := bt_extend (ts_loaded_runtime_objects ts) loaded\<rparr>"

definition save_wrapped_object_containers ::
  "temporary_store \<Rightarrow> (object_id, object_id) btree_map \<Rightarrow> temporary_store" where
  "save_wrapped_object_containers ts containers =
     ts\<lparr>ts_wrapped_object_containers := bt_extend (ts_wrapped_object_containers ts) containers\<rparr>"

text \<open>Packages read from the backing store are remembered.\<close>

definition get_package_object :: "temporary_store \<Rightarrow> object_id \<Rightarrow> object option \<times> temporary_store" where
  "get_package_object ts package_id =
     (case bt_get (written ts) package_id of
        Some obj \<Rightarrow> (Some obj, ts)
      | None \<Rightarrow>
          (case bk_get_package_object (ts_store ts) package_id of
             Some v \<Rightarrow>
               (Some v, if bt_get (ts_runtime_packages_loaded_from_db ts) package_id = None
                        then ts\<lparr>ts_runtime_packages_loaded_from_db :=
                          bt_insert package_id v (ts_runtime_packages_loaded_from_db ts)\<rparr>
                        else ts)
           | None \<Rightarrow> (None, ts)))"

definition written_objects_size :: "object_platform \<Rightarrow> temporary_store \<Rightarrow> u64" where
  "written_objects_size P ts =
     fold (\<lambda>(_, obj) acc. add_u64 acc (object_size_for_gas_metering P obj)) (bt_entries (written ts)) 0"

definition update_object_version_and_prev_tx :: "temporary_store \<Rightarrow> temporary_store option" where
  "update_object_version_and_prev_tx ts =
     do { r \<leftarrow> update_version_and_previous_tx (ts_execution_results ts) (ts_lamport_timestamp ts) (ts_tx_digest ts);
          Some (set_results ts r) }"

text \<open>The first loop collects the inputs that execution did not touch, the second one writes them.\<close>

definition unmodified_inputs :: "temporary_store \<Rightarrow> object list option" where
  "unmodified_inputs ts =
     those (map (bt_get (ts_input_objects ts))
       (filter (\<lambda>i. \<not> bs_contains (modified ts) i) (bt_keys (ts_mutable_input_refs ts))))"

fun mutate_all :: "temporary_store \<Rightarrow> object list \<Rightarrow> temporary_store option" where
  "mutate_all ts [] = Some ts"
| "mutate_all ts (obj # rest) = do { ts' \<leftarrow> mutate_input_object ts obj; mutate_all ts' rest }"

definition ensure_active_inputs_mutated :: "temporary_store \<Rightarrow> temporary_store option" where
  "ensure_active_inputs_mutated ts =
     do { to_be_updated \<leftarrow> unmodified_inputs ts; mutate_all ts to_be_updated }"

definition conserve_unmetered_storage_rebate :: "temporary_store \<Rightarrow> u64 \<Rightarrow> temporary_store option" where
  "conserve_unmetered_storage_rebate ts unmetered_storage_rebate =
     (if unmetered_storage_rebate = 0 then Some ts
      else do { wrapper \<leftarrow> read_object ts MGO_SYSTEM_STATE_OBJECT_ID;
                (if ob_storage_rebate wrapper \<noteq> 0 then None
                 else mutate_input_object ts (wrapper\<lparr>ob_storage_rebate := unmetered_storage_rebate\<rparr>)) })"

text \<open>The state of an object before the transaction; the outer \<open>None\<close> is a panic.\<close>

definition get_object_modified_at ::
  "object_platform \<Rightarrow> temporary_store \<Rightarrow> object_id \<Rightarrow> loaded_metadata option option" where
  "get_object_modified_at P ts i =
     (if bs_contains (modified ts) i
      then (case bt_get (ts_mutable_input_refs ts) i of
              Some ((version, digest), owner) \<Rightarrow>
                do { obj \<leftarrow> bt_get (ts_input_objects ts) i;
                     Some (Some \<lparr>md_version = version, md_digest = digest, md_owner = owner,
                       md_storage_rebate = ob_storage_rebate obj,
                       md_previous_transaction = ob_previous_transaction obj\<rparr>) }
            | None \<Rightarrow>
                (case bt_get (ts_loaded_runtime_objects ts) i of
                   Some metadata \<Rightarrow> Some (Some metadata)
                 | None \<Rightarrow>
                     do { obj \<leftarrow> bk_get_package_object (ts_store ts) i;
                          Some (Some \<lparr>md_version = object_version obj, md_digest = object_digest P obj,
                            md_owner = ob_owner obj, md_storage_rebate = ob_storage_rebate obj,
                            md_previous_transaction = ob_previous_transaction obj\<rparr>) }))
      else Some None)"

section \<open>Collecting storage costs\<close>

record gas_charger =
  gc_tx_digest :: transaction_digest
  gc_gas_model_version :: u64
  gc_gas_coins :: "object_ref list"
  gc_smashed_gas_coin :: "object_id option"
  gc_gas_status :: mgo_gas_status

definition track_storage_mutation ::
  "gas_charger \<Rightarrow> object_id \<Rightarrow> u64 \<Rightarrow> u64 \<Rightarrow> (u64 \<times> gas_charger) option" where
  "track_storage_mutation gc oid new_size rebate =
     do { (cost, st) \<leftarrow> status_track_storage_mutation (gc_gas_status gc) oid new_size rebate;
          Some (cost, gc\<lparr>gc_gas_status := st\<rparr>) }"

fun collect_rebate_loop ::
  "object_platform \<Rightarrow> temporary_store \<Rightarrow> gas_charger \<Rightarrow> object_id list \<Rightarrow> gas_charger option" where
  "collect_rebate_loop P ts gc [] = Some gc"
| "collect_rebate_loop P ts gc (i # rest) =
     (if bt_get (written ts) i \<noteq> None then collect_rebate_loop P ts gc rest
      else do { metadata \<leftarrow> get_object_modified_at P ts i;
                metadata \<leftarrow> metadata;
                (_, gc') \<leftarrow> track_storage_mutation gc i 0 (md_storage_rebate metadata);
                collect_rebate_loop P ts gc' rest })"

definition collect_rebate ::
  "object_platform \<Rightarrow> temporary_store \<Rightarrow> gas_charger \<Rightarrow> gas_charger option" where
  "collect_rebate P ts gc = collect_rebate_loop P ts gc (bt_keys (modified ts))"

definition old_storage_rebate :: "object_platform \<Rightarrow> temporary_store \<Rightarrow> object_id \<Rightarrow> u64 option" where
  "old_storage_rebate P ts i =
     do { metadata \<leftarrow> get_object_modified_at P ts i;
          Some (case metadata of Some m \<Rightarrow> md_storage_rebate m | None \<Rightarrow> 0) }"

text \<open>The written objects are updated in place, in key order.\<close>

fun collect_storage_loop ::
  "object_platform \<Rightarrow> gas_charger \<Rightarrow> ((object_id \<times> object) \<times> u64) list \<Rightarrow> (object_id, object) btree_map
     \<Rightarrow> (gas_charger \<times> (object_id, object) btree_map) option" where
  "collect_storage_loop P gc [] w = Some (gc, w)"
| "collect_storage_loop P gc (((k, obj), old_rebate) # rest) w =
     do { i \<leftarrow> object_id obj;
          (new_rebate, gc') \<leftarrow> track_storage_mutation gc i (object_size_for_gas_metering P obj) old_rebate;
          collect_storage_loop P gc' rest (bt_insert k (obj\<lparr>ob_storage_rebate := new_rebate\<rparr>) w) }"

definition collect_storage_and_rebate ::
  "object_platform \<Rightarrow> temporary_store \<Rightarrow> gas_charger \<Rightarrow> (temporary_store \<times> gas_charger) option" where
  "collect_storage_and_rebate P ts gc =
     do { old_storage_rebates \<leftarrow> those (map (old_storage_rebate P ts) (bt_keys (written ts)));
          (gc, w) \<leftarrow> collect_storage_loop P gc (zip (bt_entries (written ts)) old_storage_rebates) (written ts);
          let ts = set_results ts ((ts_execution_results ts)\<lparr>er_written_objects := w\<rparr>);
          gc \<leftarrow> collect_rebate P ts gc;
          Some (ts, gc) }"

section \<open>Checks\<close>

definition check_execution_results_consistency :: "temporary_store \<Rightarrow> 'k execution_error option" where
  "check_execution_results_consistency ts =
     (let r = ts_execution_results ts
      in if \<not> list_all (\<lambda>i. \<not> bs_contains (er_deleted_object_ids r) i \<and> \<not> bs_contains (er_modified_objects r) i)
              (bt_keys (er_created_object_ids r))
         then Some InvariantViolation
         else if \<not> list_all (\<lambda>i. bt_get (ts_mutable_input_refs ts) i \<noteq> None
                   \<or> bt_get (ts_loaded_runtime_objects ts) i \<noteq> None \<or> is_system_package i)
              (bt_keys (er_modified_objects r))
         then Some InvariantViolation
         else None)"

type_synonym modified_object_info = "object_id \<times> loaded_metadata option \<times> object option"

definition get_modified_objects ::
  "object_platform \<Rightarrow> temporary_store \<Rightarrow> modified_object_info list option" where
  "get_modified_objects P ts =
     do { infos \<leftarrow> those (map (\<lambda>i. do { metadata \<leftarrow> get_object_modified_at P ts i;
                                     Some (i, metadata, bt_get (written ts) i) }) (bt_keys (modified ts)));
          Some (infos @ map (\<lambda>(i, obj). (i, None, Some obj))
            (filter (\<lambda>(i, _). \<not> bs_contains (modified ts) i) (bt_entries (written ts)))) }"

definition check_mgo_conserved ::
  "object_platform \<Rightarrow> temporary_store \<Rightarrow> bool \<Rightarrow> gas_cost_summary \<Rightarrow> 'k execution_error option option" where
  "check_mgo_conserved P ts simple_conservation_checks gas_summary =
     (if \<not> simple_conservation_checks then Some None
      else do { infos \<leftarrow> get_modified_objects P ts;
                let total_input_rebate =
                  fold (\<lambda>(_, input, _) acc. case input of Some m \<Rightarrow> add_u64 acc (md_storage_rebate m) | None \<Rightarrow> acc) infos 0;
                let total_output_rebate =
                  fold (\<lambda>(_, _, output) acc. case output of Some obj \<Rightarrow> add_u64 acc (ob_storage_rebate obj) | None \<Rightarrow> acc) infos 0;
                Some (if gcs_storage_cost gas_summary = 0
                      then (if total_input_rebate \<noteq> add_u64 (add_u64 total_output_rebate
                                 (gcs_storage_rebate gas_summary)) (gcs_non_refundable_storage_fee gas_summary)
                            then Some InvariantViolation else None)
                      else if total_input_rebate \<noteq>
                          add_u64 (gcs_storage_rebate gas_summary) (gcs_non_refundable_storage_fee gas_summary)
                      then Some InvariantViolation
                      else if gcs_storage_cost gas_summary \<noteq> total_output_rebate
                      then Some InvariantViolation else None) })"

end
