(* ===== verification/Gas_Charger.thy ===== *)
theory Gas_Charger
  imports Temporary_Store
begin

text \<open>
  Gas accounting of one transaction (\<open>mgo-execution/latest/mgo-adapter/src/gas_charger.rs\<close>): smashing the
  gas coins into the first one, charging for reads and packages, and the final charge with its two
  ways to recover from a lack of gas.  The file has checked arithmetic except for sums of iterators.
\<close>

section \<open>Construction and access\<close>

definition GasCharger_new ::
  "transaction_digest \<Rightarrow> object_ref list \<Rightarrow> mgo_gas_status \<Rightarrow> protocol_config \<Rightarrow> gas_charger option" where
  "GasCharger_new tx_digest gas_coins gas_status config =
     do { version \<leftarrow> pc_gas_model_version config;
          Some \<lparr>gc_tx_digest = tx_digest, gc_gas_model_version = version, gc_gas_coins = gas_coins,
            gc_smashed_gas_coin = None, gc_gas_status = gas_status\<rparr> }"

definition GasCharger_new_unmetered :: "transaction_digest \<Rightarrow> gas_charger option" where
  "GasCharger_new_unmetered tx_digest =
     do { status \<leftarrow> MgoGasStatus_new_unmetered;
          Some \<lparr>gc_tx_digest = tx_digest, gc_gas_model_version = 6, gc_gas_coins = [],
            gc_smashed_gas_coin = None, gc_gas_status = status\<rparr> }"

definition no_charges :: "gas_charger \<Rightarrow> bool option" where
  "no_charges gc =
     do { used \<leftarrow> status_gas_used (gc_gas_status gc);
          Some (used = 0 \<and> storage_rebate (gc_gas_status gc) = 0 \<and> storage_gas_units (gc_gas_status gc) = 0) }"

definition charger_summary :: "gas_charger \<Rightarrow> gas_cost_summary option" where
  "charger_summary gc = summary (gc_gas_status gc)"

section \<open>Smashing\<close>

text \<open>The balance of a gas coin; a missing object and one that is not a gas coin panic.\<close>

definition gas_coin_value :: "temporary_store \<Rightarrow> object_ref \<Rightarrow> u64 option" where
  "gas_coin_value ts obj_ref =
     do { obj \<leftarrow> bt_get (ts_input_objects ts) (fst obj_ref);
          (case ob_data obj of
             Move move_obj \<Rightarrow>
               if \<not> is_gas_coin (mo_type move_obj) then None else get_coin_value_unsafe move_obj
           | Package _ \<Rightarrow> None) }"

definition smash_gas ::
  "gas_charger \<Rightarrow> temporary_store \<Rightarrow> (gas_charger \<times> temporary_store) option" where
  "smash_gas gc ts =
     (case gc_gas_coins gc of
        [] \<Rightarrow> Some (gc, ts)
      | primary # others \<Rightarrow>
          if others = [] \<and> fst primary = ID_ZERO then Some (gc, ts)
          else
            let gas_coin_id = fst primary; gc = gc\<lparr>gc_smashed_gas_coin := Some gas_coin_id\<rparr>
            in if others = [] then Some (gc, ts)
               else do { balances \<leftarrow> those (map (gas_coin_value ts) (primary # others));
                         let new_balance = sum_u64 balances;
                         primary_gas_object \<leftarrow> bt_get (ts_input_objects ts) gas_coin_id;
                         let ts = fold (\<lambda>r ts. delete_input_object ts (fst r)) others ts;
                         gas_coin \<leftarrow> try_as_move (ob_data primary_gas_object);
                         gas_coin \<leftarrow> set_coin_value_unsafe gas_coin new_balance;
                         ts \<leftarrow> mutate_input_object ts (primary_gas_object\<lparr>ob_data := Move gas_coin\<rparr>);
                         Some (gc, ts) })"

section \<open>Charging operations\<close>

definition reset_storage_cost_and_rebate :: "gas_charger \<Rightarrow> gas_charger" where
  "reset_storage_cost_and_rebate gc =
     gc\<lparr>gc_gas_status := status_reset_storage_cost_and_rebate (gc_gas_status gc)\<rparr>"

definition charge_publish_package :: "gas_charger \<Rightarrow> u64 \<Rightarrow> gas_charger \<times> 'k execution_error option" where
  "charge_publish_package gc n_bytes =
     (let (st, e) = status_charge_publish_package (gc_gas_status gc) n_bytes in (gc\<lparr>gc_gas_status := st\<rparr>, e))"

definition charge_upgrade_package :: "gas_charger \<Rightarrow> u64 \<Rightarrow> gas_charger \<times> 'k execution_error option" where
  "charge_upgrade_package gc n_bytes =
     (if charge_upgrades (gc_gas_model_version gc) then charge_publish_package gc n_bytes else (gc, None))"

definition charge_input_objects ::
  "object_platform \<Rightarrow> gas_charger \<Rightarrow> temporary_store \<Rightarrow> gas_charger \<times> 'k execution_error option" where
  "charge_input_objects P gc ts =
     (let total_size = sum_u64 (map (\<lambda>(_, obj). object_size_for_gas_metering P obj)
            (filter (\<lambda>(i, _). \<not> is_system_package i) (bt_entries (ts_input_objects ts))));
          (st, e) = charge_storage_read (gc_gas_status gc) total_size
      in (gc\<lparr>gc_gas_status := st\<rparr>, e))"

definition charger_reset ::
  "gas_charger \<Rightarrow> temporary_store \<Rightarrow> (gas_charger \<times> temporary_store) option" where
  "charger_reset gc ts =
     (let ts = drop_writes ts;
          gc = gc\<lparr>gc_gas_status := status_reset_storage_cost_and_rebate (gc_gas_status gc)\<rparr>
      in smash_gas gc ts)"

section \<open>The final charge\<close>

type_synonym ('k, 't) execution_result = "'k execution_error + 't"

text \<open>An error of charging replaces a result that is not an error already.\<close>

definition fail_with :: "('k, 't) execution_result \<Rightarrow> 'k execution_error \<Rightarrow> ('k, 't) execution_result" where
  "fail_with res err = (case res of Inr _ \<Rightarrow> Inl err | Inl e \<Rightarrow> Inl e)"

type_synonym ('k, 't) charging_state = "gas_charger \<times> temporary_store \<times> ('k, 't) execution_result"

definition handle_storage_and_rebate_v1 ::
  "object_platform \<Rightarrow> ('k, 't) charging_state \<Rightarrow> ('k, 't) charging_state option" where
  "handle_storage_and_rebate_v1 P s =
     (case s of (gc, ts, res) \<Rightarrow>
        do { e \<leftarrow> charge_storage_and_rebate (gc_gas_status gc);
             (case e of
                None \<Rightarrow> Some (gc, ts, res)
              | Some err \<Rightarrow>
                  do { (gc, ts) \<leftarrow> charger_reset gc ts;
                       let gc = gc\<lparr>gc_gas_status := adjust_computation_on_out_of_gas (gc_gas_status gc)\<rparr>;
                       ts \<leftarrow> ensure_active_inputs_mutated ts;
                       gc \<leftarrow> collect_rebate P ts gc;
                       Some (gc, ts, fail_with res err) }) })"

definition handle_storage_and_rebate_v2 ::
  "object_platform \<Rightarrow> ('k, 't) charging_state \<Rightarrow> ('k, 't) charging_state option" where
  "handle_storage_and_rebate_v2 P s =
     (case s of (gc, ts, res) \<Rightarrow>
        do { e \<leftarrow> charge_storage_and_rebate (gc_gas_status gc);
             (case e of
                None \<Rightarrow> Some (gc, ts, res)
              | Some err \<Rightarrow>
                  do { (gc, ts) \<leftarrow> charger_reset gc ts;
                       ts \<leftarrow> ensure_active_inputs_mutated ts;
                       (ts, gc) \<leftarrow> collect_storage_and_rebate P ts gc;
                       e' \<leftarrow> charge_storage_and_rebate (gc_gas_status gc);
                       (case e' of
                          Some err' \<Rightarrow>
                            do { (gc, ts) \<leftarrow> charger_reset gc ts;
                                 let gc = gc\<lparr>gc_gas_status := adjust_computation_on_out_of_gas (gc_gas_status gc)\<rparr>;
                                 ts \<leftarrow> ensure_active_inputs_mutated ts;
                                 gc \<leftarrow> collect_rebate P ts gc;
                                 Some (gc, ts, fail_with res err') }
                        | None \<Rightarrow> Some (gc, ts, fail_with res err)) }) })"

text \<open>Bucketizing, and dropping the writes of a failed execution.\<close>

definition charge_computation :: "('k, 't) charging_state \<Rightarrow> ('k, 't) charging_state option" where
  "charge_computation s =
     (case s of (gc, ts, res) \<Rightarrow>
        if gc_smashed_gas_coin gc = None then Some (gc, ts, res)
        else do { (st, e) \<leftarrow> bucketize_computation (gc_gas_status gc);
                  let gc = gc\<lparr>gc_gas_status := st\<rparr>;
                  let res = (case e of Some err \<Rightarrow> fail_with res err | None \<Rightarrow> res);
                  (case res of
                     Inl _ \<Rightarrow> do { (gc, ts) \<leftarrow> charger_reset gc ts; Some (gc, ts, res) }
                   | Inr _ \<Rightarrow> Some (gc, ts, res)) })"

text \<open>The net charge is taken from the smashed coin.\<close>

definition deduct_charges ::
  "object_id \<Rightarrow> ('k, 't) charging_state \<Rightarrow> (gas_cost_summary \<times> ('k, 't) charging_state) option" where
  "deduct_charges gas_object_id s =
     (case s of (gc, ts, res) \<Rightarrow>
        do { cost_summary \<leftarrow> summary (gc_gas_status gc);
             gas_used \<leftarrow> net_gas_usage cost_summary;
             gas_object \<leftarrow> read_object ts gas_object_id;
             gas_object \<leftarrow> deduct_gas gas_object gas_used;
             ts \<leftarrow> mutate_input_object ts gas_object;
             Some (cost_summary, gc, ts, res) })"

definition charge_gas ::
  "object_platform \<Rightarrow> ('k, 't) charging_state \<Rightarrow> (gas_cost_summary \<times> ('k, 't) charging_state) option" where
  "charge_gas P s =
     do { (gc, ts, res) \<leftarrow> charge_computation s;
          ts \<leftarrow> ensure_active_inputs_mutated ts;
          (ts, gc) \<leftarrow> collect_storage_and_rebate P ts gc;
          (case gc_smashed_gas_coin gc of
             Some gas_object_id \<Rightarrow>
               do { s \<leftarrow> (if dont_charge_budget_on_storage_oog (gc_gas_model_version gc)
                          then handle_storage_and_rebate_v2 P (gc, ts, res)
                          else handle_storage_and_rebate_v1 P (gc, ts, res));
                    deduct_charges gas_object_id s }
           | None \<Rightarrow> Some (summary_default, gc, ts, res)) }"

end
