(* ===== verification/Storage_Ledger.thy ===== *)
theory Storage_Ledger
  imports Gas_Charger
begin

text \<open>
  What the temporary store and the gas charger do to the storage rebates, stated without their
  loops: which objects an operation writes and marks as modified, and the sums of costs and rebates
  that the gas status records.
\<close>

section \<open>Sums over maps\<close>

lemma bt_keys_distinct: "distinct (bt_keys m)"
  by (simp add: bt_keys_def al_sorted_distinct)

lemma sum_list_keys: "sum_list (map f (bt_keys m)) = sum f (dom (bt_get m))"
  by (simp add: sum_list_distinct_conv_sum_set bt_keys_distinct bt_keys_set)

lemma entries_by_key: "bt_entries m = map (\<lambda>k. (k, the (bt_get m k))) (bt_keys m)"
proof -
  have "x = (fst x, the (bt_get m (fst x)))" if "x \<in> set (bt_entries m)" for x
    using that bt_get_iff_entry [of m "fst x" "snd x"] by simp
  then have "map (\<lambda>x. (fst x, the (bt_get m (fst x)))) (bt_entries m) = bt_entries m"
    by (intro map_idI) metis
  then show ?thesis by (simp add: bt_keys_def o_def)
qed

lemma bs_contains_iff: "bs_contains s i \<longleftrightarrow> i \<in> dom (bt_get s)"
  by (auto simp: bs_contains_def)

lemma dom_bs_insert [simp]: "dom (bt_get (bs_insert i s)) = insert i (dom (bt_get s))"
  by (simp add: bs_insert_def)

lemma fold_add_u64_sum:
  "fold (\<lambda>x acc. add_u64 acc (f x)) xs a mod 2 ^ 64 = (a + sum_list (map f xs)) mod 2 ^ 64"
  by (induction xs arbitrary: a) (simp_all add: add_u64_def mod_add_left_eq add.assoc)

lemma fold_add_u64_eq: "fold (\<lambda>x acc. add_u64 acc (f x)) xs 0 = sum_list (map f xs) mod 2 ^ 64"
proof -
  have "fold (\<lambda>x acc. add_u64 acc (f x)) xs a < 2 ^ 64" if "a < 2 ^ 64" for a
    using that by (induction xs arbitrary: a) (simp_all add: add_u64_def)
  from this [of 0] fold_add_u64_sum [of f xs 0] show ?thesis by simp
qed

section \<open>Well-formed stores\<close>

text \<open>The storage rebate an object had before the transaction.\<close>

definition prior_rebate :: "temporary_store \<Rightarrow> object_id \<Rightarrow> u64" where
  "prior_rebate ts i =
     (if i \<in> dom (bt_get (ts_mutable_input_refs ts))
      then ob_storage_rebate (the (bt_get (ts_input_objects ts) i))
      else if i \<in> dom (bt_get (ts_loaded_runtime_objects ts))
      then md_storage_rebate (the (bt_get (ts_loaded_runtime_objects ts) i))
      else ob_storage_rebate (the (bk_get_package_object (ts_store ts) i)))"

abbreviation active :: "temporary_store \<Rightarrow> object_id set" where
  "active ts \<equiv> dom (bt_get (ts_mutable_input_refs ts))"

abbreviation touched :: "temporary_store \<Rightarrow> object_id set" where
  "touched ts \<equiv> dom (bt_get (modified ts))"

definition inputs_ok :: "temporary_store \<Rightarrow> bool" where
  "inputs_ok ts \<longleftrightarrow>
     (\<forall>i \<in> active ts. \<exists>obj. bt_get (ts_input_objects ts) i = Some obj \<and> object_id obj = Some i)"

definition written_ok :: "temporary_store \<Rightarrow> bool" where
  "written_ok ts \<longleftrightarrow> (\<forall>i obj. bt_get (written ts) i = Some obj \<longrightarrow> object_id obj = Some i)"

definition modified_ok :: "temporary_store \<Rightarrow> bool" where
  "modified_ok ts \<longleftrightarrow>
     touched ts \<subseteq> active ts \<union> dom (bt_get (ts_loaded_runtime_objects ts)) \<union> dom (bk_get_package_object (ts_store ts))"

definition store_ok :: "temporary_store \<Rightarrow> bool" where
  "store_ok ts \<longleftrightarrow> inputs_ok ts \<and> written_ok ts \<and> modified_ok ts"

lemmas store_defs = store_ok_def inputs_ok_def written_ok_def modified_ok_def

lemma input_present:
  assumes "inputs_ok ts" and "i \<in> active ts"
  shows "bt_get (ts_input_objects ts) i = Some (the (bt_get (ts_input_objects ts) i))"
    and "object_id (the (bt_get (ts_input_objects ts) i)) = Some i"
proof -
  from assms obtain obj where "bt_get (ts_input_objects ts) i = Some obj" "object_id obj = Some i"
    unfolding inputs_ok_def by blast
  then show "bt_get (ts_input_objects ts) i = Some (the (bt_get (ts_input_objects ts) i))"
    "object_id (the (bt_get (ts_input_objects ts) i)) = Some i" by simp_all
qed

lemma store_okD: "store_ok ts \<Longrightarrow> inputs_ok ts" "store_ok ts \<Longrightarrow> written_ok ts" "store_ok ts \<Longrightarrow> modified_ok ts"
  by (simp_all add: store_ok_def)

text \<open>Operations change the execution results only.\<close>

definition same_base :: "temporary_store \<Rightarrow> temporary_store \<Rightarrow> bool" where
  "same_base ts ts' \<longleftrightarrow> ts' = set_results ts (ts_execution_results ts')"

lemma same_base_fields:
  assumes "same_base ts ts'"
  shows "ts_mutable_input_refs ts' = ts_mutable_input_refs ts" "ts_input_objects ts' = ts_input_objects ts"
    "ts_loaded_runtime_objects ts' = ts_loaded_runtime_objects ts" "ts_store ts' = ts_store ts"
    "prior_rebate ts' = prior_rebate ts" "inputs_ok ts' \<longleftrightarrow> inputs_ok ts"
proof -
  obtain r where "ts' = set_results ts r" using assms unfolding same_base_def by blast
  then show "ts_mutable_input_refs ts' = ts_mutable_input_refs ts" "ts_input_objects ts' = ts_input_objects ts"
    "ts_loaded_runtime_objects ts' = ts_loaded_runtime_objects ts" "ts_store ts' = ts_store ts" by simp_all
  then show "prior_rebate ts' = prior_rebate ts" "inputs_ok ts' \<longleftrightarrow> inputs_ok ts"
    by (simp_all add: prior_rebate_def fun_eq_iff inputs_ok_def)
qed

lemma same_base_refl [simp]: "same_base ts ts"
  by (simp add: same_base_def)

lemma same_base_set [simp]: "same_base ts (set_results ts r)"
  by (simp add: same_base_def)

lemma same_base_trans:
  assumes "same_base a b" and "same_base b c"
  shows "same_base a c"
proof -
  obtain r where "b = set_results a r" using assms(1) unfolding same_base_def by blast
  moreover obtain r' where "c = set_results b r'" using assms(2) unfolding same_base_def by blast
  ultimately show ?thesis by (simp add: same_base_def)
qed

lemma modified_at_touched:
  assumes "store_ok ts" and "i \<in> touched ts"
  shows "\<exists>m. get_object_modified_at P ts i = Some (Some m) \<and> md_storage_rebate m = prior_rebate ts i"
proof -
  have c: "bs_contains (modified ts) i" using assms(2) by (simp add: bs_contains_iff)
  consider (input) "i \<in> active ts" | (loaded) m where "bt_get (ts_mutable_input_refs ts) i = None" "bt_get (ts_loaded_runtime_objects ts) i = Some m"
    | (package) obj where "bt_get (ts_mutable_input_refs ts) i = None" "bt_get (ts_loaded_runtime_objects ts) i = None"
        "bk_get_package_object (ts_store ts) i = Some obj"
    using assms unfolding store_ok_def modified_ok_def
    by (cases "bt_get (ts_mutable_input_refs ts) i"; cases "bt_get (ts_loaded_runtime_objects ts) i") auto
  then show ?thesis
  proof cases
    case input
    then obtain vd w where "bt_get (ts_mutable_input_refs ts) i = Some (vd, w)" by auto
    moreover obtain obj where "bt_get (ts_input_objects ts) i = Some obj"
      using input_present(1) [OF store_okD(1) [OF assms(1)] input] by blast
    ultimately show ?thesis
      using c input by (cases vd) (simp add: get_object_modified_at_def prior_rebate_def)
  qed (use c in \<open>simp_all add: get_object_modified_at_def prior_rebate_def dom_def\<close>)
qed

lemma modified_at_untouched: "i \<notin> touched ts \<Longrightarrow> get_object_modified_at P ts i = Some None"
  by (simp add: get_object_modified_at_def bs_contains_iff)

section \<open>Writing inputs\<close>

lemma mutate_input_object_eq:
  assumes "object_id obj = Some i"
  shows "\<exists>ts'. mutate_input_object ts obj = Some ts' \<and> same_base ts ts'
    \<and> bt_get (written ts') = (bt_get (written ts))(i \<mapsto> obj)
    \<and> dom (bt_get (modified ts')) = insert i (dom (bt_get (modified ts)))"
  using assms by (simp add: mutate_input_object_def Let_def)

lemma mutate_all_eq:
  assumes "list_all2 (\<lambda>i obj. object_id obj = Some i) is objs"
  shows "\<exists>ts'. mutate_all ts objs = Some ts' \<and> same_base ts ts'
    \<and> bt_get (written ts') = bt_get (written ts) ++ map_of (rev (zip is objs))
    \<and> dom (bt_get (modified ts')) = set is \<union> dom (bt_get (modified ts))"
  using assms
proof (induction arbitrary: ts)
  case (Cons i "is" obj objs)
  obtain t where t: "mutate_input_object ts obj = Some t" "same_base ts t"
    "bt_get (written t) = (bt_get (written ts))(i \<mapsto> obj)"
    "dom (bt_get (modified t)) = insert i (dom (bt_get (modified ts)))"
    using mutate_input_object_eq [OF Cons.hyps(1), of ts] by blast
  from Cons.IH [of t] obtain ts' where ts': "mutate_all t objs = Some ts'" "same_base t ts'"
    "bt_get (written ts') = bt_get (written t) ++ map_of (rev (zip is objs))"
    "dom (bt_get (modified ts')) = set is \<union> dom (bt_get (modified t))" by blast
  show ?case
    using t ts' same_base_trans [OF t(2) ts'(2)] by (intro exI [of _ ts']) (simp add: map_add_def fun_eq_iff split: option.splits)
qed simp

text \<open>All inputs that may be mutated count as modified, and those not touched are written back.\<close>

definition after_ensure :: "temporary_store \<Rightarrow> object_id \<Rightarrow> object option" where
  "after_ensure ts i = (if i \<in> active ts - touched ts then bt_get (ts_input_objects ts) i else bt_get (written ts) i)"

lemma map_of_rev_graph:
  "map_of (rev (map (\<lambda>i. (i, f i)) is)) i = (if i \<in> set is then Some (f i) else None)"
proof -
  have "map_of (map (\<lambda>i. (i, f i)) js) i = (if i \<in> set js then Some (f i) else None)" for js
    by (induction js) auto
  from this [of "rev is"] show ?thesis by (simp add: rev_map)
qed

lemma ensure_eq:
  assumes "store_ok ts"
  shows "\<exists>ts'. ensure_active_inputs_mutated ts = Some ts' \<and> same_base ts ts'
    \<and> bt_get (written ts') = after_ensure ts \<and> touched ts' = active ts \<union> touched ts"
proof -
  define ids where "ids = filter (\<lambda>i. \<not> bs_contains (modified ts) i) (bt_keys (ts_mutable_input_refs ts))"
  define ob where "ob i = the (bt_get (ts_input_objects ts) i)" for i
  have set_ids: "set ids = active ts - touched ts"
    by (auto simp: ids_def bs_contains_iff bt_keys_set)
  have obj: "bt_get (ts_input_objects ts) i = Some (ob i)" "object_id (ob i) = Some i" if "i \<in> set ids" for i
    using input_present [OF store_okD(1) [OF assms], of i] that by (simp_all add: set_ids ob_def)
  have "unmodified_inputs ts = Some (map ob ids)"
    unfolding unmodified_inputs_def those_map_Some ids_def [symmetric] using obj(1) by simp
  moreover have "list_all2 (\<lambda>i obj. object_id obj = Some i) ids (map ob ids)"
    using obj(2) by (auto simp: list_all2_conv_all_nth)
  from mutate_all_eq [OF this, of ts] obtain ts' where ts': "mutate_all ts (map ob ids) = Some ts'" "same_base ts ts'"
    "bt_get (written ts') = bt_get (written ts) ++ map_of (rev (zip ids (map ob ids)))"
    "touched ts' = set ids \<union> touched ts" by blast
  moreover have "bt_get (written ts') i = after_ensure ts i" for i
  proof -
    have "zip ids (map ob ids) = map (\<lambda>i. (i, ob i)) ids" by (simp add: zip_map2 zip_same_conv_map)
    then show ?thesis
      using ts'(3) obj(1) [of i] by (simp add: map_add_def map_of_rev_graph after_ensure_def set_ids)
  qed
  ultimately show ?thesis
    using set_ids by (intro exI [of _ ts']) (auto simp: ensure_active_inputs_mutated_def fun_eq_iff)
qed

lemma ensure_ok:
  assumes "store_ok ts" and "ensure_active_inputs_mutated ts = Some ts'"
  shows "store_ok ts'"
proof -
  from ensure_eq [OF assms(1)] assms(2) have e: "same_base ts ts'"
    "bt_get (written ts') = after_ensure ts" "touched ts' = active ts \<union> touched ts" by auto
  have "written_ok ts'"
    unfolding written_ok_def e(2)
  proof (intro allI impI)
    fix i obj
    assume "after_ensure ts i = Some obj"
    then show "object_id obj = Some i"
      using input_present [OF store_okD(1) [OF assms(1)], of i] store_okD(2) [OF assms(1)]
      by (auto simp: after_ensure_def written_ok_def split: if_splits)
  qed
  then show ?thesis
    using assms(1) same_base_fields [OF e(1)] e(3) by (auto simp: store_ok_def modified_ok_def)
qed

section \<open>Recording costs and rebates\<close>

definition object_cost :: "object_platform \<Rightarrow> mgo_gas_status \<Rightarrow> object \<Rightarrow> nat" where
  "object_cost P st obj = object_size_for_gas_metering P obj * mct_storage_per_byte_cost (mgs_cost_table st)
     * mgs_storage_gas_price st"

definition affordable :: "object_platform \<Rightarrow> mgo_gas_status \<Rightarrow> object \<Rightarrow> bool" where
  "affordable P st obj \<longleftrightarrow>
     object_size_for_gas_metering P obj * mct_storage_per_byte_cost (mgs_cost_table st) < 2 ^ 64
     \<and> object_cost P st obj < 2 ^ 64"

definition storage_record :: "u64 \<Rightarrow> u64 \<Rightarrow> u64 \<Rightarrow> per_object_storage" where
  "storage_record cost rebate new_size =
     \<lparr>pos_storage_cost = cost, pos_storage_rebate = rebate, pos_new_size = new_size\<rparr>"

definition add_records :: "gas_charger \<Rightarrow> (object_id \<times> per_object_storage) list \<Rightarrow> gas_charger" where
  "add_records gc L = gc\<lparr>gc_gas_status := (gc_gas_status gc)\<lparr>mgs_per_object_storage :=
     mgs_per_object_storage (gc_gas_status gc) @ L\<rparr>\<rparr>"

lemma add_records_simps [simp]:
  "add_records gc [] = gc" "add_records (add_records gc L) L' = add_records gc (L @ L')"
  "object_cost P (gc_gas_status (add_records gc L)) = object_cost P (gc_gas_status gc)"
  "affordable P (gc_gas_status (add_records gc L)) = affordable P (gc_gas_status gc)"
  "mgs_charge (gc_gas_status (add_records gc L)) = mgs_charge (gc_gas_status gc)"
  by (simp_all add: add_records_def object_cost_def affordable_def fun_eq_iff)

lemma track_object:
  assumes "mgs_charge (gc_gas_status gc)" and "affordable P (gc_gas_status gc) obj"
  shows "track_storage_mutation gc i (object_size_for_gas_metering P obj) r =
    Some (object_cost P (gc_gas_status gc) obj,
      add_records gc [(i, storage_record (object_cost P (gc_gas_status gc) obj) r (object_size_for_gas_metering P obj))])"
  using assms
  by (simp add: track_storage_mutation_def status_track_storage_mutation_def is_unmetered_def affordable_def
      object_cost_def checked_mul_u64_def add_records_def storage_record_def)

lemma track_deleted:
  assumes "mgs_charge (gc_gas_status gc)"
  shows "track_storage_mutation gc i 0 r = Some (0, add_records gc [(i, storage_record 0 r 0)])"
  using assms
  by (simp add: track_storage_mutation_def status_track_storage_mutation_def is_unmetered_def
      checked_mul_u64_def add_records_def storage_record_def)

definition repriced :: "object_platform \<Rightarrow> mgo_gas_status \<Rightarrow> object \<Rightarrow> object" where
  "repriced P st obj = obj\<lparr>ob_storage_rebate := object_cost P st obj\<rparr>"

lemma repriced_simps [simp]:
  "object_id (repriced P st obj) = object_id obj" "ob_data (repriced P st obj) = ob_data obj"
  "ob_owner (repriced P st obj) = ob_owner obj" "ob_storage_rebate (repriced P st obj) = object_cost P st obj"
  by (simp_all add: repriced_def object_id_def)

lemma collect_storage_loop_eq:
  assumes "mgs_charge (gc_gas_status gc)"
    and "\<forall>k \<in> set ks. object_id (ob k) = Some k \<and> affordable P (gc_gas_status gc) (ob k)"
  shows "\<exists>w'. collect_storage_loop P gc (map (\<lambda>k. ((k, ob k), f k)) ks) w =
      Some (add_records gc (map (\<lambda>k. (k, storage_record (object_cost P (gc_gas_status gc) (ob k)) (f k)
              (object_size_for_gas_metering P (ob k)))) ks), w')
    \<and> bt_get w' = (\<lambda>k. if k \<in> set ks then Some (repriced P (gc_gas_status gc) (ob k)) else bt_get w k)"
  using assms
proof (induction ks arbitrary: gc w)
  case (Cons k ks)
  define gc' where "gc' = add_records gc [(k, storage_record (object_cost P (gc_gas_status gc) (ob k)) (f k)
    (object_size_for_gas_metering P (ob k)))]"
  have same: "object_cost P (gc_gas_status gc') = object_cost P (gc_gas_status gc)"
    "affordable P (gc_gas_status gc') = affordable P (gc_gas_status gc)"
    "mgs_charge (gc_gas_status gc') = mgs_charge (gc_gas_status gc)"
    "repriced P (gc_gas_status gc') = repriced P (gc_gas_status gc)"
    by (simp_all add: gc'_def fun_eq_iff repriced_def)
  from Cons.IH [of gc' "bt_insert k (repriced P (gc_gas_status gc) (ob k)) w", unfolded same] Cons.prems
  obtain w' where
    "collect_storage_loop P gc' (map (\<lambda>k. ((k, ob k), f k)) ks) (bt_insert k (repriced P (gc_gas_status gc) (ob k)) w) =
      Some (add_records gc' (map (\<lambda>k. (k, storage_record (object_cost P (gc_gas_status gc) (ob k)) (f k)
        (object_size_for_gas_metering P (ob k)))) ks), w')"
    and "bt_get w' = (\<lambda>i. if i \<in> set ks then Some (repriced P (gc_gas_status gc) (ob i))
      else bt_get (bt_insert k (repriced P (gc_gas_status gc) (ob k)) w) i)"
    by auto
  moreover have "collect_storage_loop P gc (((k, ob k), f k) # xs) w =
      collect_storage_loop P gc' xs (bt_insert k (repriced P (gc_gas_status gc) (ob k)) w)" for xs
    using Cons.prems track_object [of gc P "ob k" k "f k"] by (simp add: gc'_def repriced_def)
  moreover have "add_records gc' L = add_records gc ((k, storage_record (object_cost P (gc_gas_status gc) (ob k)) (f k)
    (object_size_for_gas_metering P (ob k))) # L)" for L
    by (simp add: gc'_def)
  ultimately show ?case
    by (intro exI [of _ w']) (simp add: fun_eq_iff)
qed simp

lemma collect_rebate_loop_eq:
  assumes "mgs_charge (gc_gas_status gc)" and "store_ok ts" and "set is \<subseteq> touched ts"
  shows "collect_rebate_loop P ts gc is = Some (add_records gc
    (map (\<lambda>i. (i, storage_record 0 (prior_rebate ts i) 0)) (filter (\<lambda>i. bt_get (written ts) i = None) is)))"
  using assms
proof (induction "is" arbitrary: gc)
  case (Cons i "is")
  from Cons.prems modified_at_touched [OF assms(2), of i P] obtain m where
    "get_object_modified_at P ts i = Some (Some m)" "md_storage_rebate m = prior_rebate ts i" by auto
  with Cons track_deleted [of gc i "prior_rebate ts i"] show ?case by simp
qed simp

lemma set_written_ok:
  assumes "store_ok ts" and "\<And>i obj. bt_get w i = Some obj \<Longrightarrow> object_id obj = Some i"
  shows "store_ok (set_results ts ((ts_execution_results ts)\<lparr>er_written_objects := w\<rparr>))"
  using assms by (simp add: store_defs)

definition cost_sum :: "(object_id \<times> per_object_storage) list \<Rightarrow> nat" where
  "cost_sum L = sum_list (map (\<lambda>(_, r). pos_storage_cost r) L)"

definition rebate_sum :: "(object_id \<times> per_object_storage) list \<Rightarrow> nat" where
  "rebate_sum L = sum_list (map (\<lambda>(_, r). pos_storage_rebate r) L)"

lemma storage_sums_eq:
  "storage_cost st = cost_sum (mgs_per_object_storage st) mod 2 ^ 64"
  "storage_rebate st = rebate_sum (mgs_per_object_storage st) mod 2 ^ 64"
  by (simp_all add: storage_cost_def storage_gas_units_def storage_rebate_def cost_sum_def rebate_sum_def sum_u64_mod)

lemma sums_append [simp]:
  "cost_sum (L @ L') = cost_sum L + cost_sum L'" "rebate_sum (L @ L') = rebate_sum L + rebate_sum L'"
  "cost_sum [] = 0" "rebate_sum [] = 0"
  by (simp_all add: cost_sum_def rebate_sum_def)

lemma sums_map:
  "cost_sum (map (\<lambda>i. (g i, storage_record (c i) (r i) (n i))) xs) = sum_list (map c xs)"
  "rebate_sum (map (\<lambda>i. (g i, storage_record (c i) (r i) (n i))) xs) = sum_list (map r xs)"
  by (simp_all add: cost_sum_def rebate_sum_def storage_record_def o_def case_prod_beta)

text \<open>Rebates of the objects that are modified but not written again.\<close>

definition gone_records :: "temporary_store \<Rightarrow> (object_id \<times> per_object_storage) list" where
  "gone_records ts = map (\<lambda>i. (i, storage_record 0 (prior_rebate ts i) 0))
     (filter (\<lambda>i. bt_get (written ts) i = None) (bt_keys (modified ts)))"

lemma gone_sums:
  "cost_sum (gone_records ts) = 0"
  "rebate_sum (gone_records ts) = sum (prior_rebate ts) (touched ts - dom (bt_get (written ts)))"
proof -
  let ?ks = "filter (\<lambda>i. bt_get (written ts) i = None) (bt_keys (modified ts))"
  have "set ?ks = touched ts - dom (bt_get (written ts))" by (auto simp: bt_keys_set)
  then show "rebate_sum (gone_records ts) = sum (prior_rebate ts) (touched ts - dom (bt_get (written ts)))"
    using sum_list_distinct_conv_sum_set [of ?ks "prior_rebate ts"]
    by (simp add: gone_records_def sums_map bt_keys_distinct)
qed (simp add: gone_records_def sums_map)

lemma collect_rebate_eq:
  assumes "mgs_charge (gc_gas_status gc)" and "store_ok ts"
  shows "collect_rebate P ts gc = Some (add_records gc (gone_records ts))"
  unfolding collect_rebate_def gone_records_def
  by (rule collect_rebate_loop_eq [OF assms]) (simp add: bt_keys_set)

lemma collect_storage_eq:
  assumes ok: "store_ok ts" and charge: "mgs_charge (gc_gas_status gc)"
    and small: "\<And>i obj. bt_get (written ts) i = Some obj \<Longrightarrow> affordable P (gc_gas_status gc) obj"
  shows "\<exists>ts' L. collect_storage_and_rebate P ts gc = Some (ts', add_records gc L)
    \<and> same_base ts ts' \<and> store_ok ts' \<and> touched ts' = touched ts
    \<and> bt_get (written ts') = map_option (repriced P (gc_gas_status gc)) \<circ> bt_get (written ts)
    \<and> cost_sum L = (\<Sum>i \<in> dom (bt_get (written ts)). object_cost P (gc_gas_status gc) (the (bt_get (written ts) i)))
    \<and> rebate_sum L = sum (prior_rebate ts) (touched ts)"
proof -
  let ?W = "dom (bt_get (written ts))" and ?st = "gc_gas_status gc"
  define ob where "ob i = the (bt_get (written ts) i)" for i
  define old where "old i = (if i \<in> touched ts then prior_rebate ts i else 0)" for i
  have old: "old_storage_rebate P ts i = Some (old i)" for i
    using modified_at_touched [OF ok, of i P] modified_at_untouched [of i ts P]
    by (cases "i \<in> touched ts") (auto simp: old_storage_rebate_def old_def)
  have olds: "those (map (old_storage_rebate P ts) (bt_keys (written ts))) = Some (map old (bt_keys (written ts)))"
    by (simp add: those_map_Some old)
  have zip: "zip (bt_entries (written ts)) (map old (bt_keys (written ts))) =
      map (\<lambda>k. ((k, ob k), old k)) (bt_keys (written ts))"
    unfolding entries_by_key ob_def by (simp add: zip_map_map zip_same_conv_map)
  have keys: "\<forall>k \<in> set (bt_keys (written ts)). object_id (ob k) = Some k \<and> affordable P ?st (ob k)"
    using store_okD(2) [OF ok] small by (auto simp: bt_keys_set ob_def written_ok_def)
  define L1 where "L1 = map (\<lambda>k. (k, storage_record (object_cost P ?st (ob k)) (old k)
      (object_size_for_gas_metering P (ob k)))) (bt_keys (written ts))"
  from collect_storage_loop_eq [OF charge keys, of old "written ts"] obtain w' where w':
    "collect_storage_loop P gc (map (\<lambda>k. ((k, ob k), old k)) (bt_keys (written ts))) (written ts) =
      Some (add_records gc L1, w')"
    "bt_get w' = (\<lambda>k. if k \<in> ?W then Some (repriced P ?st (ob k)) else bt_get (written ts) k)"
    by (auto simp: L1_def bt_keys_set)
  define ts' where "ts' = set_results ts ((ts_execution_results ts)\<lparr>er_written_objects := w'\<rparr>)"
  have get': "bt_get w' = map_option (repriced P ?st) \<circ> bt_get (written ts)"
    unfolding w'(2) by (rule ext) (auto simp: ob_def domIff)
  have ok': "store_ok ts'"
    unfolding ts'_def using store_okD(2) [OF ok] by (intro set_written_ok [OF ok]) (auto simp: get' written_ok_def)
  have dom': "dom (bt_get w') = ?W" by (auto simp: get')
  have base: "same_base ts ts'" by (simp add: ts'_def)
  let ?L = "L1 @ gone_records ts'"
  have "collect_storage_and_rebate P ts gc = Some (ts', add_records gc ?L)"
    using w'(1) collect_rebate_eq [of "add_records gc L1" ts' P] charge ok'
    by (simp add: collect_storage_and_rebate_def olds zip ts'_def [symmetric] Let_def)
  moreover have "cost_sum ?L = (\<Sum>i \<in> ?W. object_cost P ?st (ob i))"
    by (simp add: L1_def sums_map gone_sums sum_list_keys)
  moreover have "rebate_sum ?L = sum old ?W + sum (prior_rebate ts) (touched ts - ?W)"
    using same_base_fields(5) [OF base] dom'
    by (simp add: L1_def sums_map gone_sums sum_list_keys) (simp add: ts'_def)
  moreover have "sum old ?W = sum (prior_rebate ts) (touched ts \<inter> ?W)"
    unfolding old_def by (subst sum.inter_restrict [symmetric]) (simp_all add: Int_commute)
  moreover have "sum (prior_rebate ts) (touched ts \<inter> ?W) + sum (prior_rebate ts) (touched ts - ?W) =
      sum (prior_rebate ts) (touched ts)"
    by (subst sum.Int_Diff [of "touched ts" _ ?W]) simp_all
  ultimately show ?thesis
    using ok' base get' by (intro exI [of _ ts'] exI [of _ ?L]) (simp add: ob_def ts'_def)
qed

end
