(* ===== verification/Gas_Meter_Budget.thy ===== *)
theory Gas_Meter_Budget
  imports Gas_Status
begin

text \<open>
  What the gas meter promises.  Every call of the trait \<open>GasMeter\<close> charges for at most one
  instruction; a charge that succeeds pays at least one unit of internal gas for it, in every
  version of the cost tables, so a metered run executes no more instructions than it has gas.
  The multipliers follow the tables.
\<close>

section \<open>Every instruction is paid for\<close>

text \<open>What the steps of a charge leave alone.\<close>

definition same_budget :: "gas_status \<Rightarrow> gas_status \<Rightarrow> bool" where
  "same_budget gs gs' \<longleftrightarrow> gs_cost_table gs' = gs_cost_table gs \<and> gs_charge gs' = gs_charge gs
     \<and> gs_initial_budget gs' = gs_initial_budget gs \<and> gs_gas_price gs' = gs_gas_price gs
     \<and> gs_gas_model_version gs' = gs_gas_model_version gs"

lemma same_budget_trans: "same_budget a b \<Longrightarrow> same_budget b c \<Longrightarrow> same_budget a c"
  by (simp add: same_budget_def)

lemma push_stack_frame:
  "push_stack gs n = (gs', r) \<Longrightarrow>
     same_budget gs gs' \<and> gs_gas_left gs' = gs_gas_left gs \<and> gs_instructions_executed gs' = gs_instructions_executed gs
     \<and> r \<noteq> Some OUT_OF_GAS"
  by (auto simp: push_stack_eq Let_def same_budget_def split: if_splits)

lemma increase_stack_size_frame:
  "increase_stack_size gs n = (gs', r) \<Longrightarrow>
     same_budget gs gs' \<and> gs_gas_left gs' = gs_gas_left gs \<and> gs_instructions_executed gs' = gs_instructions_executed gs
     \<and> r \<noteq> Some OUT_OF_GAS"
  by (auto simp: increase_stack_size_eq Let_def same_budget_def split: if_splits)

lemma increase_instruction_count_frame:
  "increase_instruction_count gs n = (gs', r) \<Longrightarrow>
     same_budget gs gs' \<and> gs_gas_left gs' = gs_gas_left gs
     \<and> gs_instructions_executed gs' = (if r = None then gs_instructions_executed gs + n else gs_instructions_executed gs)
     \<and> r \<noteq> Some OUT_OF_GAS"
  by (auto simp: increase_instruction_count_eq Let_def same_budget_def split: if_splits)

lemma deduct_frame:
  "deduct_gas_units gs a = (gs', r) \<Longrightarrow>
     same_budget gs gs' \<and> gs_instructions_executed gs' = gs_instructions_executed gs
     \<and> (gs_charge gs \<longrightarrow> r = None \<longrightarrow> gs_gas_left gs' + a = gs_gas_left gs)
     \<and> gs_gas_left gs' \<le> gs_gas_left gs \<and> (r \<noteq> None \<longrightarrow> gs_gas_left gs' = 0 \<and> r = Some OUT_OF_GAS)"
  by (auto simp: deduct_gas_units_eq same_budget_def split: if_splits)

lemma deduct_zero: "deduct_gas_units gs 0 = (gs, None)"
  by (cases gs) (simp add: deduct_gas_units_eq)

lemma pop_frame:
  "same_budget gs (pop_stack gs n)" "gs_gas_left (pop_stack gs n) = gs_gas_left gs"
  "gs_instructions_executed (pop_stack gs n) = gs_instructions_executed gs"
  by (simp_all add: pop_stack_def same_budget_def)

text \<open>A table is priced when its costs are between 1 and 1000; the schedules of all versions are.\<close>

definition priced :: "tiers \<Rightarrow> bool" where
  "priced t \<longleftrightarrow> (\<forall>e \<in> set (bt_entries t). 1 \<le> snd e \<and> snd e \<le> 1000)"

definition priced_table :: "cost_table \<Rightarrow> bool" where
  "priced_table ct \<longleftrightarrow> priced (ct_instruction_tiers ct) \<and> priced (ct_stack_height_tiers ct)
     \<and> priced (ct_stack_size_tiers ct)"

lemma schedules_priced: "priced_table (cost_table_for_version g)"
proof -
  have "priced_table initial_cost_schedule_v1" "priced_table initial_cost_schedule_v2"
    "priced_table initial_cost_schedule_v3" "priced_table initial_cost_schedule_v4"
    "priced_table initial_cost_schedule_v5"
    unfolding initial_cost_schedule_v1_def initial_cost_schedule_v2_def initial_cost_schedule_v3_def
      initial_cost_schedule_v4_def initial_cost_schedule_v5_def
    by (simp_all add: priced_table_def priced_def bt_collect_def)
  then show ?thesis by (simp add: cost_table_for_version_def)
qed

lemma priced_cost: "priced t \<Longrightarrow> 1 \<le> tier_cost t 1 n \<and> tier_cost t 1 n \<le> 1000"
proof -
  assume p: "priced t"
  let ?xs = "bt_select (\<lambda>k. k \<le> n) t"
  show ?thesis
  proof (cases "?xs = []")
    case False
    then have "last ?xs \<in> set (bt_entries t)" using last_in_set [OF False] by (auto simp: bt_select_def)
    with p False show ?thesis by (simp add: tier_cost_alt priced_def)
  qed (simp add: tier_cost_alt)
qed

lemma mult_priced:
  assumes "gs_inv gs" and "priced_table (gs_cost_table gs)"
  shows "1 \<le> gs_instructions_current_tier_mult gs" "gs_instructions_current_tier_mult gs \<le> 1000"
    "gs_stack_size_current_tier_mult gs \<le> 1000" "gs_stack_height_current_tier_mult gs \<le> 1000"
  using assms priced_cost
  by (auto simp: inv_defs tier_tracked_def priced_table_def INSTRUCTION_TIER_DEFAULT_def
      STACK_SIZE_TIER_DEFAULT_def STACK_HEIGHT_TIER_DEFAULT_def)

text \<open>When the sizes are small, the sum of the cost does not wrap, and it covers the instructions.\<close>

lemma instruction_cost_covers:
  assumes "gs_inv gs" and "priced_table (gs_cost_table gs)"
    and "n \<le> 1" and "pu \<le> 2 ^ 50" and "i \<le> 2 ^ 50" and "instruction_cost gs n pu i = Some a"
  shows "n \<le> a"
proof -
  note m = mult_priced [OF assms(1,2)]
  have "gs_instructions_current_tier_mult gs * n \<le> 1000 * 1"
    using m(2) assms(3) by (rule mult_le_mono)
  moreover have "gs_stack_size_current_tier_mult gs * i \<le> 1000 * 2 ^ 50"
    using m(3) assms(5) by (rule mult_le_mono)
  moreover have "gs_stack_height_current_tier_mult gs * pu \<le> 1000 * 2 ^ 50"
    using m(4) assms(4) by (rule mult_le_mono)
  ultimately have "gs_instructions_current_tier_mult gs * n + gs_stack_size_current_tier_mult gs * i
      + gs_stack_height_current_tier_mult gs * pu < 2 ^ 64"
    by simp
  then have a: "a = gs_instructions_current_tier_mult gs * n + gs_stack_size_current_tier_mult gs * i
      + gs_stack_height_current_tier_mult gs * pu"
    using assms(6)
    by (auto simp: instruction_cost_def checked_mul_u64_def total_internal_def GasCost_new_def
        add_u64_small split: if_splits Option.bind_splits)
  have "1 * n \<le> gs_instructions_current_tier_mult gs * n" using m(1) by (rule mult_le_mono1)
  then show ?thesis unfolding a by linarith
qed

lemma charge_instr_paid:
  assumes "gs_inv gs" and "priced_table (gs_cost_table gs)" and "gs_charge gs"
    and "n \<le> 1" and "pu \<le> 2 ^ 50" and "i \<le> 2 ^ 50" and "charge_instr gs n pu po i d = (gs', r)"
  shows "same_budget gs gs'" and "gs_gas_left gs' \<le> gs_gas_left gs"
    and "gs_instructions_executed gs' \<le> gs_instructions_executed gs + n"
    and "r = None \<Longrightarrow> gs_gas_left gs' + gs_instructions_executed gs' \<le> gs_gas_left gs + gs_instructions_executed gs"
    and "r = Some OUT_OF_GAS \<Longrightarrow> gs_gas_left gs' = 0"
proof -
  have "same_budget gs gs' \<and> gs_gas_left gs' \<le> gs_gas_left gs
    \<and> gs_instructions_executed gs' \<le> gs_instructions_executed gs + n
    \<and> (r = None \<longrightarrow> gs_gas_left gs' + gs_instructions_executed gs' \<le> gs_gas_left gs + gs_instructions_executed gs)
    \<and> (r = Some OUT_OF_GAS \<longrightarrow> gs_gas_left gs' = 0)"
    using assms(7)
  proof (cases rule: charge_instr_cases)
    case (push e)
    then show ?thesis using push_stack_frame [OF push(1)] by simp
  next
    case (count gs1 e)
    then show ?thesis
      using push_stack_frame [OF count(1)] increase_instruction_count_frame [OF count(2)]
      by (simp add: same_budget_def)
  next
    case (stack_size gs1 gs2 e)
    then show ?thesis
      using push_stack_frame [OF stack_size(1)] increase_instruction_count_frame [OF stack_size(2)]
        increase_stack_size_frame [OF stack_size(3)] by (simp add: same_budget_def)
  next
    case (cost gs1 gs2)
    then show ?thesis
      using push_stack_frame [OF cost(1)] increase_instruction_count_frame [OF cost(2)]
        increase_stack_size_frame [OF cost(3)] by (simp add: same_budget_def)
  next
    case (deducted gs1 gs2 gs3 gs4 a s)
    note frames = push_stack_frame [OF deducted(1)] increase_instruction_count_frame [OF deducted(2)]
      increase_stack_size_frame [OF deducted(3)] deduct_frame [OF deducted(5)]
    have inv3: "gs_inv gs3"
      by (rule increase_stack_size_inv [OF increase_instruction_count_inv [OF push_stack_inv
            [OF assms(1) deducted(1)] deducted(2)] deducted(3)])
    have b3: "same_budget gs gs3" using frames by (simp add: same_budget_def)
    then have "n \<le> a"
      using instruction_cost_covers [OF inv3 _ assms(4-6) deducted(4)] assms(2) by (simp add: same_budget_def)
    moreover have "gs_charge gs3" using b3 assms(3) by (simp add: same_budget_def)
    moreover have "same_budget gs gs4" using b3 frames by (simp add: same_budget_def)
    ultimately show ?thesis using frames deducted(6,7) same_budget_trans [OF _ pop_frame(1), of gs gs4 po]
      by (cases s) (simp_all add: pop_frame)
  qed
  then show "same_budget gs gs'" and "gs_gas_left gs' \<le> gs_gas_left gs"
    and "gs_instructions_executed gs' \<le> gs_instructions_executed gs + n"
    and "r = None \<Longrightarrow> gs_gas_left gs' + gs_instructions_executed gs' \<le> gs_gas_left gs + gs_instructions_executed gs"
    and "r = Some OUT_OF_GAS \<Longrightarrow> gs_gas_left gs' = 0" by blast+
qed

section \<open>Calls of the meter\<close>

text \<open>A call is small when its values are, as those of a machine with limits on stack and value sizes
  are: sizes up to \<open>2 ^ 32\<close> and up to \<open>2 ^ 16\<close> values.\<close>

definition small_view :: "value_view \<Rightarrow> bool" where
  "small_view v \<longleftrightarrow> vv_legacy_abstract_memory_size v \<le> 2 ^ 32 \<and> vv_abstract_memory_size v \<le> 2 ^ 32"

fun call_views :: "meter_call \<Rightarrow> value_view list" where
  "call_views (MC_pop v) = [v]"
| "call_views (MC_native_function _ (Some vs)) = vs"
| "call_views (MC_native_function_before_execution vs) = vs"
| "call_views (MC_call vs) = vs"
| "call_views (MC_call_generic vs) = vs"
| "call_views (MC_copy_loc v) = [v]"
| "call_views (MC_move_loc v) = [v]"
| "call_views (MC_store_loc v) = [v]"
| "call_views (MC_pack vs) = vs"
| "call_views (MC_unpack vs) = vs"
| "call_views (MC_read_ref v) = [v]"
| "call_views (MC_write_ref v w) = [v, w]"
| "call_views (MC_eq v w) = [v, w]"
| "call_views (MC_neq v w) = [v, w]"
| "call_views (MC_vec_pack vs) = vs"
| "call_views _ = []"

fun call_count :: "meter_call \<Rightarrow> nat" where
  "call_count (MC_ld_const n) = n"
| "call_count (MC_vec_unpack n) = n"
| "call_count _ = 0"

definition small_call :: "meter_call \<Rightarrow> bool" where
  "small_call c \<longleftrightarrow> (\<forall>v \<in> set (call_views c). small_view v) \<and> length (call_views c) \<le> 2 ^ 16
     \<and> call_count c \<le> 2 ^ 32"

lemma small_size: "small_view v \<Longrightarrow> abstract_memory_size gs v \<le> 2 ^ 32"
  by (simp add: small_view_def abstract_memory_size_def)

lemma quantity_add_le: "quantity_add a b \<le> a + b"
  by (simp add: quantity_add_def saturating_add_def)

lemma sizes_from_le:
  "\<forall>v \<in> set vs. small_view v \<Longrightarrow> sizes_from gs start vs \<le> start + length vs * 2 ^ 32"
proof (induction vs arbitrary: start)
  case (Cons v vs)
  have "sizes_from gs start (v # vs) = sizes_from gs (quantity_add start (abstract_memory_size gs v)) vs"
    by (simp add: sizes_from_def)
  also have "\<dots> \<le> quantity_add start (abstract_memory_size gs v) + length vs * 2 ^ 32"
    using Cons by simp
  finally show ?case
    using quantity_add_le [of start "abstract_memory_size gs v"] small_size [of v gs] Cons.prems by simp
qed (simp add: sizes_from_def)

lemma and_then_deduct_zero: "r = and_then r (\<lambda>g. deduct_gas_units g 0)"
  by (cases r; cases "snd r") (simp_all add: deduct_zero)

text \<open>Every call is a charge for at most one instruction, and possibly a deduction.\<close>

definition call_shape :: "gas_status \<Rightarrow> meter_call \<Rightarrow> u64 \<times> u64 \<times> u64 \<times> u64 \<times> u64 \<times> gas_quantity \<Rightarrow> bool" where
  "call_shape gs c = (\<lambda>(n, pu, po, i, d, a).
     meter_step gs c = and_then (charge_instr gs n pu po i d) (\<lambda>g. deduct_gas_units g a)
     \<and> n \<le> 1 \<and> (small_call c \<longrightarrow> pu \<le> 2 ^ 50 \<and> i \<le> 2 ^ 50))"

lemma charge_shape:
  assumes "meter_step gs c = charge_instr gs 1 pu po i d"
    and "small_call c \<Longrightarrow> pu \<le> 2 ^ 50 \<and> i \<le> 2 ^ 50"
  shows "\<exists>x. call_shape gs c x"
  using assms and_then_deduct_zero [of "charge_instr gs 1 pu po i d"]
  by (intro exI [of _ "(1, pu, po, i, d, 0)"]) (auto simp: call_shape_def)

lemma small_sizes:
  assumes "small_call c" and "set vs \<subseteq> set (call_views c)" and "length vs \<le> length (call_views c)"
  shows "sizes_from gs 0 vs \<le> 2 ^ 50" "length vs \<le> 2 ^ 50"
    "\<And>v. v \<in> set vs \<Longrightarrow> abstract_memory_size gs v \<le> 2 ^ 32"
proof -
  have small: "\<forall>v \<in> set vs. small_view v" and len: "length vs \<le> 2 ^ 16"
    using assms by (auto simp: small_call_def)
  from len have "length vs * 2 ^ 32 \<le> 2 ^ 16 * 2 ^ 32" by (rule mult_le_mono1)
  then show "sizes_from gs 0 vs \<le> 2 ^ 50" using sizes_from_le [OF small, of gs 0] by simp
  show "length vs \<le> 2 ^ 50" using len by simp
  show "\<And>v. v \<in> set vs \<Longrightarrow> abstract_memory_size gs v \<le> 2 ^ 32" using small small_size by blast
qed

lemma meter_step_shape: "\<exists>x. call_shape gs c x"
proof (cases c)
  case (MC_simple_instr i)
  obtain pops pushes pop_size push_size where e: "get_simple_instruction_stack_change i = (pops, pushes, pop_size, push_size)"
    by (metis prod_cases4)
  have "pushes \<le> 1 \<and> push_size \<le> 8"
    using e by (cases i) (auto simp: scalar_size_def REFERENCE_SIZE_def)
  then show ?thesis
    by (intro charge_shape [of _ _ pushes pops push_size pop_size])
      (auto simp: MC_simple_instr charge_simple_instr_def e)
next
  case (MC_native_function a r)
  show ?thesis
  proof (cases r)
    case None
    then show ?thesis unfolding MC_native_function
      by (intro exI [of _ "(0, 0, 0, 0, 0, a)"]) (simp add: call_shape_def charge_native_function_def)
  next
    case (Some vs)
    then show ?thesis unfolding MC_native_function
      using small_sizes(1) [of "MC_native_function a (Some vs)" vs gs] small_sizes(2) [of "MC_native_function a (Some vs)" vs]
      by (intro exI [of _ "(0, length vs, 0, sizes_from gs 0 vs, 0, a)"])
        (auto simp: call_shape_def charge_native_function_def Let_def)
  qed
next
  case (MC_ld_const n)
  then show ?thesis by (intro charge_shape [of _ _ 1 0 n 0]) (auto simp: charge_ld_const_def small_call_def)
next
  case (MC_vec_unpack n)
  then show ?thesis
    by (intro charge_shape [of _ _ n 1 0 VEC_SIZE]) (auto simp: charge_vec_unpack_def small_call_def)
next
  case (MC_unpack vs)
  then show ?thesis using small_sizes(2) [of c vs]
    by (intro charge_shape [of _ _ "length vs" 1 0 STRUCT_SIZE]) (auto simp: charge_unpack_def)
next
  case (MC_copy_loc v)
  then show ?thesis using small_sizes(3) [of c "[v]" v gs]
    by (intro charge_shape [of _ _ 1 0 "abstract_memory_size gs v" 0]) (auto simp: charge_copy_loc_def)
next
  case (MC_move_loc v)
  then show ?thesis using small_sizes(3) [of c "[v]" v gs]
    by (intro charge_shape [of _ _ 1 0 "abstract_memory_size gs v" 0]) (auto simp: charge_move_loc_def)
next
  case (MC_read_ref v)
  then show ?thesis using small_sizes(3) [of c "[v]" v gs]
    by (intro charge_shape [of _ _ 1 1 "abstract_memory_size gs v" REFERENCE_SIZE]) (auto simp: charge_read_ref_def)
next
  case (MC_write_ref v w)
  then show ?thesis using small_sizes(3) [of c "[v]" v gs]
    by (intro charge_shape [of _ _ 1 2 "abstract_memory_size gs v" "abstract_memory_size gs w"])
      (auto simp: charge_write_ref_def)
next
  case (MC_eq v w)
  have "quantity_add scalar_size (quantity_add a b) \<le> 2 ^ 50" if "a \<le> 2 ^ 32" "b \<le> 2 ^ 32" for a b
    using quantity_add_le [of scalar_size "quantity_add a b"] quantity_add_le [of a b] that
    by (simp add: scalar_size_def)
  then show ?thesis using small_sizes(3) [of c "[v, w]" _ gs] MC_eq
    by (intro charge_shape [of _ _ 1 2 "quantity_add scalar_size (quantity_add (abstract_memory_size gs v)
            (abstract_memory_size gs w))" "quantity_add (abstract_memory_size gs v) (abstract_memory_size gs w)"])
      (auto simp: charge_eq_def Let_def)
qed (rule charge_shape,
    simp only: meter_step.simps Let_def charge_pop_def charge_native_function_before_execution_def
      charge_call_def charge_call_generic_def charge_store_loc_def charge_pack_def charge_neq_def
      charge_vec_pack_def charge_vec_len_def charge_vec_borrow_def charge_vec_push_back_def
      charge_vec_pop_back_def charge_vec_swap_def,
    simp add: scalar_size_def STRUCT_SIZE_def VEC_SIZE_def REFERENCE_SIZE_def)+

section \<open>Runs\<close>

text \<open>A machine whose steps are paid from a fuel: each step that succeeds takes at least as much fuel
  as it adds to a count, and a step that fails adds at most one.\<close>

locale metered =
  fixes step :: "gas_status \<Rightarrow> 'c \<Rightarrow> charge_result" and ok :: "'c \<Rightarrow> bool" and inv :: "gas_status \<Rightarrow> bool"
    and fuel count :: "gas_status \<Rightarrow> nat"
  assumes step_inv: "inv s \<Longrightarrow> ok c \<Longrightarrow> step s c = (s', r) \<Longrightarrow> inv s'"
    and step_pays: "inv s \<Longrightarrow> ok c \<Longrightarrow> step s c = (s', None) \<Longrightarrow> fuel s' + count s' \<le> fuel s + count s"
    and step_fails: "inv s \<Longrightarrow> ok c \<Longrightarrow> step s c = (s', Some e) \<Longrightarrow>
      fuel s' \<le> fuel s \<and> count s' \<le> count s + 1 \<and> (e = OUT_OF_GAS \<longrightarrow> fuel s' = 0)"
begin

fun run :: "gas_status \<Rightarrow> 'c list \<Rightarrow> charge_result" where
  "run s [] = (s, None)"
| "run s (c # cs) = and_then (step s c) (\<lambda>s. run s cs)"

lemma run_inv: "inv s \<Longrightarrow> \<forall>c \<in> set cs. ok c \<Longrightarrow> run s cs = (s', r) \<Longrightarrow> inv s'"
  by (induction cs arbitrary: s) (auto simp: and_then_eq dest: step_inv)

lemma run_paid:
  assumes "inv s" and "\<forall>c \<in> set cs. ok c" and "run s cs = (s', r)"
  shows "r = None \<longrightarrow> fuel s' + count s' \<le> fuel s + count s"
    and "count s' \<le> fuel s + count s + 1"
    and "r = Some OUT_OF_GAS \<longrightarrow> fuel s' = 0"
proof -
  have "(r = None \<longrightarrow> fuel s' + count s' \<le> fuel s + count s) \<and> count s' \<le> fuel s + count s + 1
      \<and> (r = Some OUT_OF_GAS \<longrightarrow> fuel s' = 0)"
    using assms
  proof (induction cs arbitrary: s)
    case (Cons c cs)
    from Cons.prems(3) consider s1 where "step s c = (s1, None)" "run s1 cs = (s', r)"
      | e where "step s c = (s', Some e)" "r = Some e"
      by (auto simp: and_then_eq)
    then show ?case
    proof cases
      case (1 s1)
      have "inv s1" using step_inv [OF Cons.prems(1) _ 1(1)] Cons.prems(2) by simp
      from Cons.IH [OF this _ 1(2)] Cons.prems(2) step_pays [OF Cons.prems(1) _ 1(1)]
      show ?thesis by fastforce
    next
      case (2 e)
      from step_fails [OF Cons.prems(1) _ 2(1)] Cons.prems(2) 2(2) show ?thesis by auto
    qed
  qed auto
  then show "r = None \<longrightarrow> fuel s' + count s' \<le> fuel s + count s"
    and "count s' \<le> fuel s + count s + 1" and "r = Some OUT_OF_GAS \<longrightarrow> fuel s' = 0" by blast+
qed

end

definition metered_inv :: "gas_status \<Rightarrow> bool" where
  "metered_inv gs \<longleftrightarrow> gs_inv gs \<and> priced_table (gs_cost_table gs) \<and> gs_charge gs"

lemma meter_step_paid:
  assumes "metered_inv gs" and "small_call c" and "meter_step gs c = (gs', r)"
  shows "metered_inv gs'" and "gs_initial_budget gs' = gs_initial_budget gs" and "same_budget gs gs'"
    and "r = None \<Longrightarrow> gs_gas_left gs' + gs_instructions_executed gs' \<le> gs_gas_left gs + gs_instructions_executed gs"
    and "gs_gas_left gs' \<le> gs_gas_left gs" and "gs_instructions_executed gs' \<le> gs_instructions_executed gs + 1"
    and "r = Some OUT_OF_GAS \<Longrightarrow> gs_gas_left gs' = 0"
proof -
  obtain n pu po i d a where step: "meter_step gs c = and_then (charge_instr gs n pu po i d) (\<lambda>g. deduct_gas_units g a)"
    and n: "n \<le> 1" and small: "pu \<le> 2 ^ 50" "i \<le> 2 ^ 50"
    using meter_step_shape [of gs c] assms(2) by (auto simp: call_shape_def)
  obtain gs1 r1 where c: "charge_instr gs n pu po i d = (gs1, r1)" by fastforce
  have inv: "gs_inv gs" and ct: "priced_table (gs_cost_table gs)" and ch: "gs_charge gs"
    using assms(1) by (simp_all add: metered_inv_def)
  note paid = charge_instr_paid [OF inv ct ch n small c]
  note inv1 = charge_instr_inv [OF inv c]
  have "gs_inv gs' \<and> same_budget gs gs'
    \<and> (r = None \<longrightarrow> gs_gas_left gs' + gs_instructions_executed gs' \<le> gs_gas_left gs + gs_instructions_executed gs)
    \<and> gs_gas_left gs' \<le> gs_gas_left gs \<and> gs_instructions_executed gs' \<le> gs_instructions_executed gs + 1
    \<and> (r = Some OUT_OF_GAS \<longrightarrow> gs_gas_left gs' = 0)"
  proof (cases r1)
    case None
    with step c assms(3) have d: "deduct_gas_units gs1 a = (gs', r)" by simp
    have b1: "same_budget gs gs1" by (rule paid(1))
    then have "gs_charge gs1" using ch by (simp add: same_budget_def)
    with deduct_frame [OF d] have f: "same_budget gs1 gs'"
      "gs_instructions_executed gs' = gs_instructions_executed gs1"
      "gs_gas_left gs' \<le> gs_gas_left gs1" "r \<noteq> None \<Longrightarrow> gs_gas_left gs' = 0" by simp_all
    show ?thesis
      using deduct_inv [OF inv1 d] same_budget_trans [OF b1 f(1)] f(2-4) paid(2,3) paid(4) [OF None] n
      by auto
  next
    case (Some e)
    with step c assms(3) have "gs' = gs1" "r = Some e" by simp_all
    with Some paid inv1 n show ?thesis by auto
  qed
  with ct ch show "metered_inv gs'" and "gs_initial_budget gs' = gs_initial_budget gs" and "same_budget gs gs'"
    and "r = None \<Longrightarrow> gs_gas_left gs' + gs_instructions_executed gs' \<le> gs_gas_left gs + gs_instructions_executed gs"
    and "gs_gas_left gs' \<le> gs_gas_left gs" and "gs_instructions_executed gs' \<le> gs_instructions_executed gs + 1"
    and "r = Some OUT_OF_GAS \<Longrightarrow> gs_gas_left gs' = 0"
    by (auto simp: metered_inv_def same_budget_def)
qed

interpretation gm: metered meter_step small_call metered_inv gs_gas_left gs_instructions_executed
proof
  fix gs c gs' r assume inv: "metered_inv gs" and ok: "small_call c" and step: "meter_step gs c = (gs', r)"
  show "metered_inv gs'" by (rule meter_step_paid(1) [OF inv ok step])
next
  fix gs c gs' assume inv: "metered_inv gs" and ok: "small_call c" and step: "meter_step gs c = (gs', None)"
  show "gs_gas_left gs' + gs_instructions_executed gs' \<le> gs_gas_left gs + gs_instructions_executed gs"
    by (rule meter_step_paid(4) [OF inv ok step]) simp
next
  fix gs c gs' e assume inv: "metered_inv gs" and ok: "small_call c" and step: "meter_step gs c = (gs', Some e)"
  show "gs_gas_left gs' \<le> gs_gas_left gs \<and> gs_instructions_executed gs' \<le> gs_instructions_executed gs + 1
      \<and> (e = OUT_OF_GAS \<longrightarrow> gs_gas_left gs' = 0)"
    using meter_step_paid(5-7) [OF inv ok step] by simp
qed

lemma meter_run_is: "meter_run gs cs = gm.run gs cs"
  by (induction cs arbitrary: gs) simp_all

lemma meter_run_same: "metered_inv gs \<Longrightarrow> \<forall>c \<in> set cs. small_call c \<Longrightarrow> meter_run gs cs = (gs', r) \<Longrightarrow> same_budget gs gs'"
proof (induction cs arbitrary: gs)
  case (Cons c cs)
  have ok: "small_call c" "\<forall>c \<in> set cs. small_call c" using Cons.prems(2) by simp_all
  from Cons.prems(3) consider gs1 where "meter_step gs c = (gs1, None)" "meter_run gs1 cs = (gs', r)"
    | e where "meter_step gs c = (gs', Some e)"
    by (auto simp: and_then_eq)
  then show ?case
  proof cases
    case (1 gs1)
    note step = meter_step_paid [OF Cons.prems(1) ok(1) 1(1)]
    from step(3) Cons.IH [OF step(1) ok(2) 1(2)] show ?thesis by (rule same_budget_trans)
  next
    case (2 e)
    show ?thesis by (rule meter_step_paid(3) [OF Cons.prems(1) ok(1) 2])
  qed
qed (simp add: same_budget_def)

lemma GasStatus_new_metered:
  assumes "GasStatus_new (cost_table_for_version v) b p v = Some gs"
  shows "metered_inv gs"
  using GasStatus_new_inv [OF assms] GasStatus_new_fields [OF assms] schedules_priced
  by (simp add: metered_inv_def)

lemma gas_used_within:
  assumes "gs_inv gs'" and "gs_initial_budget gs' = to_internal_units (b div p)" and "gs_gas_price gs' = p"
  shows "\<exists>used. gas_used_pre_gas_price gs' = Some used \<and> used * p \<le> b"
proof -
  have left: "gs_gas_left gs' \<le> gs_initial_budget gs'" and lt: "gs_initial_budget gs' < 2 ^ 64"
    using assms(1) by (simp_all add: inv_defs)
  then have "gas_used_pre_gas_price gs' = Some ((gs_initial_budget gs' - gs_gas_left gs') div 1000)"
    by (simp add: gas_used_pre_gas_price_def quantity_checked_sub_def checked_sub_u64_def to_unit_round_down_is)
  moreover have "(gs_initial_budget gs' - gs_gas_left gs') div 1000 \<le> b div p"
  proof -
    have "gs_initial_budget gs' - gs_gas_left gs' \<le> b div p * 1000"
      using assms(2) by (simp add: to_internal_units_def mul_u64_def INTERNAL_UNIT_MULTIPLIER_def le_diff_conv trans_le_add1)
    then show ?thesis by (metis div_le_mono nonzero_mult_div_cancel_right zero_neq_numeral)
  qed
  then have "(gs_initial_budget gs' - gs_gas_left gs') div 1000 * p \<le> b div p * p" by (rule mult_le_mono1)
  then have "(gs_initial_budget gs' - gs_gas_left gs') div 1000 * p \<le> b"
    using div_times_less_eq_dividend order_trans by blast
  ultimately show ?thesis by blast
qed

section \<open>Properties\<close>

text \<open>(C27) A metered run pays for every instruction: from a new meter of any version, after any
  sequence of calls with values of bounded size, the gas left and the number of executed
  instructions together stay within the initial budget; a run that stops has executed at most one
  instruction more, and out of gas means that no gas is left.  The gas used, at the gas price, is
  within the budget of the transaction.\<close>

theorem meter_run_within_budget:
  assumes "GasStatus_new (cost_table_for_version v) budget price v = Some gs"
    and "\<forall>c \<in> set calls. small_call c" and "meter_run gs calls = (gs', r)"
  shows "(r = None \<longrightarrow> gs_gas_left gs' + gs_instructions_executed gs' \<le> gs_initial_budget gs)
    \<and> gs_instructions_executed gs' \<le> gs_initial_budget gs + 1
    \<and> (r = Some OUT_OF_GAS \<longrightarrow> gs_gas_left gs' = 0)
    \<and> (\<exists>used. gas_used_pre_gas_price gs' = Some used \<and> used * price \<le> budget)"
proof -
  note new = GasStatus_new_fields [OF assms(1)]
  note inv = GasStatus_new_metered [OF assms(1)]
  note run = assms(3) [unfolded meter_run_is]
  have "same_budget gs gs'" by (rule meter_run_same [OF inv assms(2,3)])
  moreover have "gs_inv gs'" using gm.run_inv [OF inv assms(2) run] by (simp add: metered_inv_def)
  ultimately have "\<exists>used. gas_used_pre_gas_price gs' = Some used \<and> used * price \<le> budget"
    using new by (intro gas_used_within) (simp_all add: same_budget_def)
  with gm.run_paid [OF inv assms(2) run] new show ?thesis by simp
qed

theorem meter_run_within_budget_witness:
  "\<exists>gs gs' r. GasStatus_new (cost_table_for_version 8) 5000000 1000 8 = Some gs
    \<and> meter_run gs [MC_simple_instr SI_Add, MC_vec_len] = (gs', r)
    \<and> gs_instructions_executed gs' \<le> gs_initial_budget gs + 1"
proof -
  obtain gs where gs: "GasStatus_new (cost_table_for_version 8) 5000000 1000 8 = Some gs"
    by (simp add: GasStatus_new_def tier_defs Let_def)
  obtain gs' r where run: "meter_run gs [MC_simple_instr SI_Add, MC_vec_len] = (gs', r)" by fastforce
  have "\<forall>c \<in> set [MC_simple_instr SI_Add, MC_vec_len]. small_call c" by (simp add: small_call_def)
  from meter_run_within_budget [OF gs this run] gs run show ?thesis by blast
qed

text \<open>(C28) The multipliers follow the cost tables: after any such run, each of the three multipliers
  is at least the cost that the table gives one unit below the high-water mark, and at most the cost
  at the mark.  A tier is never left again, and never applied early.\<close>

theorem multipliers_follow_tables:
  assumes "GasStatus_new (cost_table_for_version v) budget price v = Some gs"
    and "\<forall>c \<in> set calls. small_call c" and "meter_run gs calls = (gs', r)"
  shows "fst (instruction_tier (gs_cost_table gs') (gs_instructions_executed gs' - 1)) \<le> gs_instructions_current_tier_mult gs'
    \<and> gs_instructions_current_tier_mult gs' \<le> fst (instruction_tier (gs_cost_table gs') (gs_instructions_executed gs'))
    \<and> fst (stack_height_tier (gs_cost_table gs') (gs_stack_height_high_water_mark gs' - 1)) \<le> gs_stack_height_current_tier_mult gs'
    \<and> gs_stack_height_current_tier_mult gs' \<le> fst (stack_height_tier (gs_cost_table gs') (gs_stack_height_high_water_mark gs'))
    \<and> fst (stack_size_tier (gs_cost_table gs') (gs_stack_size_high_water_mark gs' - 1)) \<le> gs_stack_size_current_tier_mult gs'
    \<and> gs_stack_size_current_tier_mult gs' \<le> fst (stack_size_tier (gs_cost_table gs') (gs_stack_size_high_water_mark gs'))"
proof -
  note inv = GasStatus_new_metered [OF assms(1)]
  have "gs_inv gs'"
    using gm.run_inv [OF inv assms(2) assms(3) [unfolded meter_run_is]] by (simp add: metered_inv_def)
  moreover have "gs_cost_table gs' = cost_table_for_version v"
    using meter_run_same [OF inv assms(2,3)] GasStatus_new_fields(2) [OF assms(1)] by (simp add: same_budget_def)
  ultimately show ?thesis
    unfolding tier_defs fst_conv inv_defs using schedules_ascending [of v]
    by (auto intro: tier_tracked_bounds tier_tracked_bounds(1) [simplified])
qed

theorem multipliers_follow_tables_witness:
  "\<exists>gs gs' r. GasStatus_new (cost_table_for_version 8) 5000000 1000 8 = Some gs
    \<and> meter_run gs [MC_ld_const 200000] = (gs', r)
    \<and> gs_stack_size_current_tier_mult gs' \<le> fst (stack_size_tier (gs_cost_table gs') (gs_stack_size_high_water_mark gs'))"
proof -
  obtain gs where gs: "GasStatus_new (cost_table_for_version 8) 5000000 1000 8 = Some gs"
    by (simp add: GasStatus_new_def tier_defs Let_def)
  obtain gs' r where run: "meter_run gs [MC_ld_const 200000] = (gs', r)" by fastforce
  have "\<forall>c \<in> set [MC_ld_const 200000]. small_call c" by (simp add: small_call_def)
  from multipliers_follow_tables [OF gs this run] gs run show ?thesis by blast
qed

text \<open>The sum of a cost wraps although its products are checked: a charge whose parts add up to
  \<open>2 ^ 64\<close> costs nothing.\<close>

lemma total_internal_wraps: "total_internal (GasCost_new (2 ^ 63) (2 ^ 63) 0) = 0"
  by (simp add: total_internal_def GasCost_new_def add_u64_def)

text \<open>The two entries of one start in the size tiers of the first version leave only the second.\<close>

lemma size_tier_replaced:
  "(11500, 29) \<notin> set (bt_entries (ct_stack_size_tiers initial_cost_schedule_v1))"
  unfolding initial_cost_schedule_v1_def cost_table.simps by (simp add: bt_collect_def)

end
