(* ===== verification/Gas_Conservation.thy ===== *)
theory Gas_Conservation
  imports Storage_Ledger Gas_Meter_Budget
begin

text \<open>
  Charging a transaction conserves the storage rebates.  Whatever the execution did and however the
  charge ends, on the path of success, after dropping the writes of a failed execution, or after
  running out of gas while paying for storage, the check of conservation passes and the net charge is
  within the budget.
\<close>

section \<open>The check of conservation\<close>

lemma fold_option_add:
  assumes "a < 2 ^ 64"
  shows "fold (\<lambda>x acc. case g x of Some y \<Rightarrow> add_u64 acc (h y) | None \<Rightarrow> acc) xs a =
    (a + sum_list (map (\<lambda>x. case g x of Some y \<Rightarrow> h y | None \<Rightarrow> 0) xs)) mod 2 ^ 64"
  using assms
proof (induction xs arbitrary: a)
  case (Cons x xs)
  show ?case
  proof (cases "g x")
    case (Some y)
    with Cons.IH [of "add_u64 a (h y)"] show ?thesis
      using add_u64_less [of a "h y"] by (simp add: add_u64_def mod_add_left_eq add.assoc)
  qed (use Cons in simp)
qed simp

lemma modified_objects_eq:
  assumes ok: "store_ok ts"
  shows "\<exists>infos. get_modified_objects P ts = Some infos
    \<and> sum_list (map (\<lambda>x. case fst (snd x) of Some m \<Rightarrow> md_storage_rebate m | None \<Rightarrow> 0) infos) =
        sum (prior_rebate ts) (touched ts)
    \<and> sum_list (map (\<lambda>x. case snd (snd x) of Some obj \<Rightarrow> ob_storage_rebate obj | None \<Rightarrow> 0) infos) =
        (\<Sum>i \<in> dom (bt_get (written ts)). ob_storage_rebate (the (bt_get (written ts) i)))"
proof -
  let ?W = "dom (bt_get (written ts))"
  define reb where "reb i = ob_storage_rebate (the (bt_get (written ts) i))" for i
  define md where "md i = the (the (get_object_modified_at P ts i))" for i
  have md: "get_object_modified_at P ts i = Some (Some (md i))" "md_storage_rebate (md i) = prior_rebate ts i"
    if "i \<in> touched ts" for i
    using modified_at_touched [OF ok that, of P] by (auto simp: md_def)
  define xs where "xs = map (\<lambda>i. (i, Some (md i), bt_get (written ts) i)) (bt_keys (modified ts))"
  define new where "new = filter (\<lambda>i. \<not> bs_contains (modified ts) i) (bt_keys (written ts))"
  define ys where "ys = map (\<lambda>i. (i, None :: loaded_metadata option, bt_get (written ts) i)) new"
  have "map (\<lambda>(i, obj). (i, None, Some obj)) (filter (\<lambda>(i, _). \<not> bs_contains (modified ts) i) (bt_entries (written ts))) = ys"
    unfolding ys_def new_def entries_by_key by (auto simp: filter_map o_def bt_keys_set)
  moreover have "those (map (\<lambda>i. do { metadata \<leftarrow> get_object_modified_at P ts i;
      Some (i, metadata, bt_get (written ts) i) }) (bt_keys (modified ts))) = Some xs"
    unfolding those_map_Some xs_def using md(1) by (simp add: bt_keys_set)
  ultimately have infos: "get_modified_objects P ts = Some (xs @ ys)"
    by (simp add: get_modified_objects_def)
  have "sum_list (map (\<lambda>x. case fst (snd x) of Some m \<Rightarrow> md_storage_rebate m | None \<Rightarrow> 0) (xs @ ys)) =
      sum (prior_rebate ts) (touched ts)"
    using md(2) by (simp add: xs_def ys_def o_def sum_list_keys cong: sum.cong)
  moreover have "sum_list (map (\<lambda>x. case snd (snd x) of Some obj \<Rightarrow> ob_storage_rebate obj | None \<Rightarrow> 0) (xs @ ys)) =
      sum reb (touched ts \<inter> ?W) + sum reb (?W - touched ts)"
  proof -
    let ?f = "\<lambda>i. case bt_get (written ts) i of Some obj \<Rightarrow> ob_storage_rebate obj | None \<Rightarrow> 0"
    have f: "?f i = (if i \<in> ?W then reb i else 0)" for i by (auto simp: reb_def split: option.split)
    have "set new = ?W - touched ts" "distinct new"
      by (auto simp: new_def bs_contains_iff bt_keys_set bt_keys_distinct)
    then have "sum_list (map ?f new) = sum reb (?W - touched ts)"
      by (simp add: sum_list_distinct_conv_sum_set f)
    moreover have "sum ?f (touched ts) = sum reb (touched ts \<inter> ?W)"
      unfolding f by (subst sum.inter_restrict [symmetric]) simp_all
    ultimately show ?thesis by (simp add: xs_def ys_def o_def sum_list_keys)
  qed
  moreover have "sum reb (touched ts \<inter> ?W) + sum reb (?W - touched ts) = sum reb ?W"
    by (subst sum.Int_Diff [of ?W _ "touched ts"]) (simp_all add: Int_commute)
  ultimately show ?thesis
    using infos by (intro exI [of _ "xs @ ys"]) (simp add: reb_def)
qed

text \<open>Sums of the rebates before and after the transaction.\<close>

definition input_rebates :: "temporary_store \<Rightarrow> nat" where
  "input_rebates ts = sum (prior_rebate ts) (touched ts)"

definition output_rebates :: "temporary_store \<Rightarrow> nat" where
  "output_rebates ts = (\<Sum>i \<in> dom (bt_get (written ts)). ob_storage_rebate (the (bt_get (written ts) i)))"

text \<open>The gas status accounts for the store: either every written object has been paid for and every
  old rebate is recorded, or storage is free and the rebates stay where they were.\<close>

definition accounts_for :: "mgo_gas_status \<Rightarrow> temporary_store \<Rightarrow> bool" where
  "accounts_for st ts \<longleftrightarrow>
     (storage_rebate st = input_rebates ts mod 2 ^ 64 \<and> storage_cost st = output_rebates ts mod 2 ^ 64)
     \<or> (storage_cost st = 0 \<and> input_rebates ts mod 2 ^ 64 = (output_rebates ts + storage_rebate st) mod 2 ^ 64)"

lemma conserved:
  assumes "store_ok ts" and "accounts_for st ts" and "summary st = Some s" and "mgs_rebate_rate st \<le> BASIS_POINTS"
  shows "check_mgo_conserved P ts True s = Some None"
proof -
  obtain infos where infos: "get_modified_objects P ts = Some infos"
    "sum_list (map (\<lambda>x. case fst (snd x) of Some m \<Rightarrow> md_storage_rebate m | None \<Rightarrow> 0) infos) = input_rebates ts"
    "sum_list (map (\<lambda>x. case snd (snd x) of Some obj \<Rightarrow> ob_storage_rebate obj | None \<Rightarrow> 0) infos) = output_rebates ts"
    using modified_objects_eq [OF assms(1), of P] by (auto simp: input_rebates_def output_rebates_def)
  have total_in: "fold (\<lambda>(_, input, _) acc. case input of Some m \<Rightarrow> add_u64 acc (md_storage_rebate m) | None \<Rightarrow> acc) infos 0
      = input_rebates ts mod 2 ^ 64"
    using fold_option_add [where a = 0 and g = "\<lambda>x. fst (snd x)" and h = md_storage_rebate and xs = infos] infos(2) by (simp add: case_prod_beta')
  have total_out: "fold (\<lambda>(_, _, output) acc. case output of Some obj \<Rightarrow> add_u64 acc (ob_storage_rebate obj) | None \<Rightarrow> acc) infos 0
      = output_rebates ts mod 2 ^ 64"
    using fold_option_add [where a = 0 and g = "\<lambda>x. snd (snd x)" and h = ob_storage_rebate and xs = infos] infos(3) by (simp add: case_prod_beta')
  from summary_split [OF assms(4)] assms(3) have s: "gcs_storage_cost s = storage_cost st"
    "gcs_storage_rebate s + gcs_non_refundable_storage_fee s = storage_rebate st" by auto
  have rebates: "add_u64 (gcs_storage_rebate s) (gcs_non_refundable_storage_fee s) = storage_rebate st"
    using storage_sums_less(1) [of st] s(2) by (simp add: add_u64_def)
  have sum: "add_u64 (add_u64 x (gcs_storage_rebate s)) (gcs_non_refundable_storage_fee s) =
      (x + storage_rebate st) mod 2 ^ 64" for x
    by (simp add: add_u64_def mod_add_left_eq add.assoc s(2))
  have eq: "check_mgo_conserved P ts True s =
      Some (if storage_cost st = 0
            then (if input_rebates ts mod 2 ^ 64 \<noteq> (output_rebates ts + storage_rebate st) mod 2 ^ 64
                  then Some InvariantViolation else None)
            else if input_rebates ts mod 2 ^ 64 \<noteq> storage_rebate st then Some InvariantViolation
            else if storage_cost st \<noteq> output_rebates ts mod 2 ^ 64 then Some InvariantViolation else None)"
    unfolding check_mgo_conserved_def infos(1)
    by (simp add: Let_def total_in total_out s(1) rebates sum mod_add_left_eq del: power_numeral)
  have zero: "(output_rebates ts + storage_rebate st) mod 2 ^ 64 = storage_rebate st"
    if "output_rebates ts mod 2 ^ 64 = 0"
    using storage_sums_less(1) [of st] that mod_add_left_eq [of "output_rebates ts" "2 ^ 64" "storage_rebate st"]
    by (simp del: power_numeral)
  from assms(2) show ?thesis unfolding accounts_for_def eq
  proof (elim disjE conjE)
    assume a: "storage_rebate st = input_rebates ts mod 2 ^ 64" "storage_cost st = output_rebates ts mod 2 ^ 64"
    show "Some (if storage_cost st = 0
            then (if input_rebates ts mod 2 ^ 64 \<noteq> (output_rebates ts + storage_rebate st) mod 2 ^ 64
                  then Some InvariantViolation else None)
            else if input_rebates ts mod 2 ^ 64 \<noteq> storage_rebate st then Some InvariantViolation
            else if storage_cost st \<noteq> output_rebates ts mod 2 ^ 64 then Some InvariantViolation else None) = Some None"
      using zero a(2) unfolding a(1) [symmetric] by (cases "storage_cost st = 0") simp_all
  qed simp
qed

section \<open>Taking the charge from the coin\<close>

definition coin_at :: "temporary_store \<Rightarrow> object_id \<Rightarrow> u64 \<Rightarrow> bool" where
  "coin_at ts i v \<longleftrightarrow>
     (\<exists>obj m. bt_get (written ts) i = Some obj \<and> ob_data obj = Move m \<and> get_coin_value_unsafe m = Some v)"

text \<open>The parameters of the charge: metered, a rebate rate of at most 100 percent, and a budget far from
  the limits of the integers.\<close>

definition status_ok :: "mgo_gas_status \<Rightarrow> bool" where
  "status_ok st \<longleftrightarrow> mgs_charge st \<and> mgs_rebate_rate st \<le> BASIS_POINTS \<and> 0 < mgs_storage_gas_price st
     \<and> mgs_gas_budget st < 2 ^ 62"

text \<open>Everything is accounted for and the coin covers the budget.\<close>

definition settled :: "mgo_gas_status \<Rightarrow> temporary_store \<Rightarrow> object_id \<Rightarrow> u64 \<Rightarrow> bool" where
  "settled st ts g v \<longleftrightarrow> store_ok ts \<and> g \<in> touched ts \<and> coin_at ts g v \<and> mgs_gas_budget st \<le> v \<and> v < 2 ^ 63
     \<and> accounts_for st ts \<and> storage_cost st < 2 ^ 62 \<and> storage_rebate st < 2 ^ 62
     \<and> mgs_computation_cost st \<le> mgs_gas_budget st"

definition within_budget :: "mgo_gas_status \<Rightarrow> bool" where
  "within_budget st \<longleftrightarrow> mgs_computation_cost st + storage_cost st
     \<le> mgs_gas_budget st + sender_rebate (storage_rebate st) (mgs_rebate_rate st)"

lemma deduct_gas_eq:
  assumes "ob_data obj = Move m" and "get_coin_value_unsafe m = Some v" and "v < 2 ^ 63"
    and "c < 2 ^ 63" and "r < 2 ^ 63" and "c \<le> v + r"
  shows "\<exists>m'. deduct_gas obj (int c - int r) = Some (obj\<lparr>ob_data := Move m'\<rparr>)
    \<and> get_coin_value_unsafe m' = Some (v + r - c) \<and> MoveObject_id m' = MoveObject_id m"
proof -
  let ?x = "int c - int r"
  have bal: "(if ?x < 0 then do { rebate \<leftarrow> checked_i64 (- ?x); checked_add_u64 v (nat rebate) }
      else if \<not> v \<ge> nat ?x then None else checked_sub_u64 v (nat ?x)) = Some (v + r - c)"
  proof (cases "c < r")
    case True
    then have n: "nat (- ?x) = r - c" by simp
    from True assms(5) have i: "checked_i64 (- ?x) = Some (- ?x)" by (simp add: checked_i64_def)
    from True n i assms(3,5) show ?thesis by (simp add: checked_add_u64_def)
  next
    case False
    then have n: "nat ?x = c - r" by simp
    from False n assms(6) show ?thesis by (simp add: checked_sub_u64_def)
  qed
  obtain m' where m': "set_coin_value_unsafe m (v + r - c) = Some m'" using coin_settable [OF assms(2)] by blast
  have "v + r - c < 2 ^ 64" using assms(3,5) by simp
  from set_coin_value [OF m' this] m' bal assms(1,2) show ?thesis
    by (intro exI [of _ m']) (simp add: deduct_gas_def try_as_move_def)
qed

lemma net_gas_usage_eq:
  assumes "gcs_computation_cost s + gcs_storage_cost s < 2 ^ 63" and "gcs_storage_rebate s < 2 ^ 63"
  shows "net_gas_usage s =
    Some (int (gcs_computation_cost s + gcs_storage_cost s) - int (gcs_storage_rebate s))"
  using assms by (simp add: net_gas_usage_def summary_gas_used_def checked_add_u64_def as_i64_def checked_i64_def)

lemma replace_same_rebate:
  assumes "store_ok ts" and "i \<in> touched ts" and "bt_get (written ts) i = Some obj"
    and "object_id obj' = Some i" and "ob_storage_rebate obj' = ob_storage_rebate obj"
  shows "\<exists>ts'. mutate_input_object ts obj' = Some ts' \<and> same_base ts ts' \<and> store_ok ts'
    \<and> bt_get (written ts') = (bt_get (written ts))(i \<mapsto> obj')
    \<and> input_rebates ts' = input_rebates ts \<and> output_rebates ts' = output_rebates ts"
proof -
  from mutate_input_object_eq [OF assms(4), of ts] obtain ts' where ts': "mutate_input_object ts obj' = Some ts'"
    "same_base ts ts'" "bt_get (written ts') = (bt_get (written ts))(i \<mapsto> obj')" "touched ts' = insert i (touched ts)"
    by blast
  note base = same_base_fields [OF ts'(2)]
  have touched: "touched ts' = touched ts" using ts'(4) assms(2) by auto
  have "store_ok ts'"
    using assms(1,4) ts'(3) touched base by (auto simp: store_ok_def written_ok_def modified_ok_def)
  moreover have "dom (bt_get (written ts')) = dom (bt_get (written ts))" using ts'(3) assms(3) by auto
  then have "output_rebates ts' = output_rebates ts"
    unfolding output_rebates_def using ts'(3) assms(3,5) by (intro sum.cong) auto
  ultimately show ?thesis
    using ts' touched base by (intro exI [of _ ts']) (simp add: input_rebates_def)
qed

lemma deduct_charges_eq:
  fixes gc :: gas_charger and ts :: temporary_store and res :: "('k, 't) execution_result"
  defines "st \<equiv> gc_gas_status gc"
  assumes ok: "status_ok st" and set: "settled st ts g v" and paid: "within_budget st"
  shows "\<exists>s ts'. deduct_charges g (gc, ts, res) = Some (s, gc, ts', res)
    \<and> summary st = Some s \<and> check_mgo_conserved P ts' True s = Some (None :: 'k execution_error option)
    \<and> coin_at ts' g (v + gcs_storage_rebate s - (gcs_computation_cost s + gcs_storage_cost s))
    \<and> gcs_computation_cost s \<le> mgs_gas_budget st
    \<and> gcs_computation_cost s + gcs_storage_cost s \<le> mgs_gas_budget st + gcs_storage_rebate s
    \<and> same_base ts ts' \<and> (\<forall>i. i \<noteq> g \<longrightarrow> bt_get (written ts') i = bt_get (written ts) i)"
proof -
  from set obtain obj m where obj: "bt_get (written ts) g = Some obj" "ob_data obj = Move m"
    "get_coin_value_unsafe m = Some v" by (auto simp: settled_def coin_at_def)
  from ok have rate: "mgs_rebate_rate st \<le> BASIS_POINTS" and budget: "mgs_gas_budget st < 2 ^ 62"
    by (simp_all add: status_ok_def)
  from summary_split [OF rate] obtain s where s: "summary st = Some s"
    "gcs_computation_cost s = mgs_computation_cost st" "gcs_storage_cost s = storage_cost st"
    "gcs_storage_rebate s = sender_rebate (storage_rebate st) (mgs_rebate_rate st)" by auto
  have reb: "gcs_storage_rebate s \<le> storage_rebate st"
    unfolding s(4) by (rule sender_rebate_le [OF rate storage_sums_less(1)])
  let ?c = "gcs_computation_cost s + gcs_storage_cost s"
  have small: "?c < 2 ^ 63" "gcs_storage_rebate s < 2 ^ 63"
    using set budget reb s(2,3) unfolding settled_def by simp_all
  have le: "?c \<le> mgs_gas_budget st + gcs_storage_rebate s"
    using paid s by (simp add: within_budget_def)
  have v: "mgs_gas_budget st \<le> v" "v < 2 ^ 63" using set by (simp_all add: settled_def)
  from le v(1) have "?c \<le> v + gcs_storage_rebate s" by simp
  from deduct_gas_eq [OF obj(2,3) v(2) small this] obtain m' where m':
    "deduct_gas obj (int ?c - int (gcs_storage_rebate s)) = Some (obj\<lparr>ob_data := Move m'\<rparr>)"
    "get_coin_value_unsafe m' = Some (v + gcs_storage_rebate s - ?c)" "MoveObject_id m' = MoveObject_id m" by blast
  from set obj(1) have "object_id obj = Some g" "store_ok ts" "g \<in> touched ts"
    by (auto simp: settled_def store_ok_def written_ok_def)
  moreover from this have "object_id (obj\<lparr>ob_data := Move m'\<rparr>) = Some g"
    using obj(2) m'(3) by (simp add: object_id_def)
  ultimately obtain ts' where ts': "mutate_input_object ts (obj\<lparr>ob_data := Move m'\<rparr>) = Some ts'"
    "same_base ts ts'" "store_ok ts'" "bt_get (written ts') = (bt_get (written ts))(g \<mapsto> obj\<lparr>ob_data := Move m'\<rparr>)"
    "input_rebates ts' = input_rebates ts" "output_rebates ts' = output_rebates ts"
    using replace_same_rebate [of ts g obj "obj\<lparr>ob_data := Move m'\<rparr>"] obj(1) by auto
  have "accounts_for st ts'" using set ts'(5,6) by (simp add: settled_def accounts_for_def)
  from conserved [OF ts'(3) this s(1) rate, of P] have "check_mgo_conserved P ts' True s = Some (None :: 'k execution_error option)" .
  moreover have "deduct_charges g (gc, ts, res) = Some (s, gc, ts', res)"
    using s(1) net_gas_usage_eq [OF small] obj(1) m'(1) ts'(1)
    by (simp add: deduct_charges_def st_def read_object_def)
  moreover have "coin_at ts' g (v + gcs_storage_rebate s - ?c)"
    using ts'(4) m'(2) by (simp add: coin_at_def)
  moreover have "gcs_computation_cost s \<le> mgs_gas_budget st" using set s(2) by (simp add: settled_def)
  ultimately show ?thesis
    using s(1) le ts'(2,4) by (intro exI [of _ s] exI [of _ ts']) simp
qed

section \<open>Back to the start: dropping writes and smashing the coins\<close>

definition coins_ok :: "temporary_store \<Rightarrow> object_ref list \<Rightarrow> bool" where
  "coins_ok ts coins \<longleftrightarrow> coins \<noteq> [] \<and> distinct (map fst coins) \<and> fst (hd coins) \<noteq> ID_ZERO
     \<and> (\<forall>r \<in> set coins. fst r \<in> active ts \<and> gas_coin_value ts r \<noteq> None)"

definition coin_total :: "temporary_store \<Rightarrow> object_ref list \<Rightarrow> nat" where
  "coin_total ts coins = sum_list (map (\<lambda>r. the (gas_coin_value ts r)) coins)"

text \<open>The state before the execution: the inputs are written back unchanged, except that the first
  coin holds the value of all and the others are deleted.\<close>

definition start_state :: "object_platform \<Rightarrow> temporary_store \<Rightarrow> object_ref list \<Rightarrow> temporary_store \<Rightarrow> bool" where
  "start_state P ts coins ts' \<longleftrightarrow> same_base ts ts' \<and> store_ok ts' \<and> touched ts' = active ts
     \<and> dom (bt_get (written ts')) = active ts - fst ` set (tl coins)
     \<and> (\<forall>i obj. bt_get (written ts') i = Some obj \<longrightarrow> ob_storage_rebate obj = prior_rebate ts i
          \<and> object_size_for_gas_metering P obj = object_size_for_gas_metering P (the (bt_get (ts_input_objects ts) i)))
     \<and> (\<forall>i. i \<noteq> fst (hd coins) \<longrightarrow> bt_get (written ts') i \<noteq> None
          \<longrightarrow> bt_get (written ts') i = bt_get (ts_input_objects ts) i)
     \<and> coin_at ts' (fst (hd coins)) (coin_total ts coins)"

lemma drop_writes_eq:
  "same_base ts (drop_writes ts)" "bt_get (written (drop_writes ts)) = Map.empty" "touched (drop_writes ts) = {}"
  by (simp_all add: drop_writes_def results_drop_writes_def fun_eq_iff)

lemma fold_delete_eq:
  fixes others :: "object_ref list"
  defines "del \<equiv> fold (\<lambda>r ts. delete_input_object ts (fst r))"
  shows "same_base ts (del others ts) \<and> written (del others ts) = written ts
    \<and> touched (del others ts) = fst ` set others \<union> touched ts"
  unfolding del_def
proof (induction others arbitrary: ts)
  case (Cons r others)
  have d: "same_base ts (delete_input_object ts (fst r))" "written (delete_input_object ts (fst r)) = written ts"
    "touched (delete_input_object ts (fst r)) = insert (fst r) (touched ts)"
    by (simp_all add: delete_input_object_def Let_def)
  with Cons.IH [of "delete_input_object ts (fst r)"] same_base_trans [OF d(1)] show ?case by auto
qed simp

lemma gas_coin_valueD:
  assumes "gas_coin_value ts r = Some v"
  obtains obj m where "bt_get (ts_input_objects ts) (fst r) = Some obj" and "ob_data obj = Move m"
    and "get_coin_value_unsafe m = Some v"
  using assms by (auto simp: gas_coin_value_def split: bind_splits data.splits if_splits)

text \<open>Smashing on a store without writes.\<close>

lemma smash_gas_eq:
  assumes inp: "inputs_ok ts" and coins: "coins_ok ts (gc_gas_coins gc)"
    and total: "coin_total ts (gc_gas_coins gc) < 2 ^ 64"
    and t0: "same_base ts t0" "bt_get (written t0) = Map.empty" "touched t0 = {}"
    and hd: "gc_gas_coins gc = p # others"
  shows "\<exists>t1. smash_gas gc t0 = Some (gc\<lparr>gc_smashed_gas_coin := Some (fst p)\<rparr>, t1) \<and> same_base ts t1
    \<and> (if others = [] then touched t1 = {} \<and> bt_get (written t1) = Map.empty
       else touched t1 = fst ` set (p # others)
         \<and> (\<exists>obj m m'. bt_get (ts_input_objects ts) (fst p) = Some obj \<and> ob_data obj = Move m
              \<and> set_coin_value_unsafe m (coin_total ts (p # others)) = Some m'
              \<and> bt_get (written t1) = [fst p \<mapsto> obj\<lparr>ob_data := Move m'\<rparr>]))"
proof (cases "others = []")
  case True
  with coins hd t0 show ?thesis
    by (intro exI [of _ t0]) (simp add: smash_gas_def coins_ok_def)
next
  case False
  note same = same_base_fields [OF t0(1)]
  have val: "gas_coin_value t0 r = gas_coin_value ts r" for r by (simp add: gas_coin_value_def same)
  have "those (map (gas_coin_value t0) (p # others)) = Some (map (\<lambda>r. the (gas_coin_value ts r)) (p # others))"
    unfolding those_map_Some val using coins by (auto simp: coins_ok_def hd)
  moreover have "sum_u64 (map (\<lambda>r. the (gas_coin_value ts r)) (p # others)) = coin_total ts (p # others)"
    using total by (simp add: coin_total_def hd sum_u64_mod)
  moreover obtain v where "gas_coin_value ts p = Some v" using coins by (auto simp: coins_ok_def hd)
  then obtain obj m where obj: "bt_get (ts_input_objects ts) (fst p) = Some obj" "ob_data obj = Move m"
    "get_coin_value_unsafe m = Some v" by (rule gas_coin_valueD)
  moreover obtain m' where m': "set_coin_value_unsafe m (coin_total ts (p # others)) = Some m'"
    using coin_settable [OF obj(3)] by blast
  moreover have "object_id obj = Some (fst p)"
    using input_present(2) [OF inp, of "fst p"] coins obj(1) by (auto simp: coins_ok_def hd)
  then have "object_id (obj\<lparr>ob_data := Move m'\<rparr>) = Some (fst p)"
    using set_coin_value(2) [OF m'] total obj(2) by (simp add: object_id_def hd)
  moreover define d where "d = fold (\<lambda>r ts. delete_input_object ts (fst r)) others t0"
  from fold_delete_eq [of t0 others] have d: "same_base t0 d" "written d = written t0"
    "touched d = fst ` set others" using t0(3) by (simp_all add: d_def)
  ultimately obtain t1 where "mutate_input_object d (obj\<lparr>ob_data := Move m'\<rparr>) = Some t1" "same_base d t1"
    "bt_get (written t1) = (bt_get (written d))(fst p \<mapsto> obj\<lparr>ob_data := Move m'\<rparr>)"
    "touched t1 = insert (fst p) (touched d)"
    using mutate_input_object_eq [of "obj\<lparr>ob_data := Move m'\<rparr>" "fst p" d] by blast
  moreover have "same_base ts t1"
    using same_base_trans [OF t0(1) same_base_trans [OF d(1) calculation(2)]] .
  ultimately show ?thesis
    using False hd obj m' d t0(2) same \<open>those _ = _\<close> \<open>sum_u64 _ = _\<close>
    by (intro exI [of _ t1]) (simp add: smash_gas_def Let_def try_as_move_def d_def [symmetric])
qed

lemma set_coin_object_size:
  assumes "ob_data obj = Move m" and "get_coin_value_unsafe m = Some v" and "set_coin_value_unsafe m w = Some m'"
  shows "object_size_for_gas_metering P (obj\<lparr>ob_data := Move m'\<rparr>) = object_size_for_gas_metering P obj"
  using set_coin_size [OF assms(2,3), of P] assms(1) by (simp add: object_size_for_gas_metering_def)

lemma reset_eq:
  assumes inp: "inputs_ok ts" and coins: "coins_ok ts (gc_gas_coins gc)"
    and total: "coin_total ts (gc_gas_coins gc) < 2 ^ 64"
  shows "\<exists>t1 t2. charger_reset gc ts = Some (gc\<lparr>gc_smashed_gas_coin := Some (fst (hd (gc_gas_coins gc))),
      gc_gas_status := status_reset_storage_cost_and_rebate (gc_gas_status gc)\<rparr>, t1)
    \<and> store_ok t1 \<and> ensure_active_inputs_mutated t1 = Some t2 \<and> start_state P ts (gc_gas_coins gc) t2"
proof -
  obtain p others where hd: "gc_gas_coins gc = p # others"
    using coins by (cases "gc_gas_coins gc") (auto simp: coins_ok_def)
  define gc' where "gc' = gc\<lparr>gc_gas_status := status_reset_storage_cost_and_rebate (gc_gas_status gc)\<rparr>"
  have gc': "gc_gas_coins gc' = p # others" by (simp add: gc'_def hd)
  note cs = coins [unfolded hd] and tot = total [unfolded hd]
  from smash_gas_eq [of ts gc' "drop_writes ts", unfolded gc', OF inp cs tot drop_writes_eq refl] obtain t1 where t1:
    "smash_gas gc' (drop_writes ts) = Some (gc'\<lparr>gc_smashed_gas_coin := Some (fst p)\<rparr>, t1)" "same_base ts t1"
    and t1': "if others = [] then touched t1 = {} \<and> bt_get (written t1) = Map.empty
       else touched t1 = fst ` set (p # others)
         \<and> (\<exists>obj m m'. bt_get (ts_input_objects ts) (fst p) = Some obj \<and> ob_data obj = Move m
              \<and> set_coin_value_unsafe m (coin_total ts (p # others)) = Some m'
              \<and> bt_get (written t1) = [fst p \<mapsto> obj\<lparr>ob_data := Move m'\<rparr>])" by blast
  obtain v where "gas_coin_value ts p = Some v" using cs by (auto simp: coins_ok_def)
  then obtain obj m where obj: "bt_get (ts_input_objects ts) (fst p) = Some obj" "ob_data obj = Move m"
    "get_coin_value_unsafe m = Some v" by (rule gas_coin_valueD)
  have ids: "fst ` set (p # others) \<subseteq> active ts" "fst p \<notin> fst ` set others" "fst p \<in> active ts"
    using cs by (auto simp: coins_ok_def)
  have objid: "object_id obj = Some (fst p)" using input_present(2) [OF inp ids(3)] obj(1) by simp
  obtain w where w: "bt_get (written t1) = (\<lambda>i. if i = fst p \<and> others \<noteq> [] then Some w else None)"
    "object_id w = Some (fst p)" "ob_storage_rebate w = ob_storage_rebate obj"
    "object_size_for_gas_metering P w = object_size_for_gas_metering P obj"
    "\<exists>m. ob_data w = Move m \<and> get_coin_value_unsafe m = Some (coin_total ts (p # others))"
  proof (cases "others = []")
    case True
    with t1' obj objid \<open>gas_coin_value ts p = Some v\<close> show ?thesis
      by (intro that [of obj]) (simp_all add: fun_eq_iff coin_total_def)
  next
    case False
    with t1' obj obtain m' where m': "set_coin_value_unsafe m (coin_total ts (p # others)) = Some m'"
      "bt_get (written t1) = [fst p \<mapsto> obj\<lparr>ob_data := Move m'\<rparr>]" by auto
    with set_coin_value(1,2) [OF m'(1) tot] set_coin_object_size [OF obj(2,3) m'(1)] obj(2) objid False show ?thesis
      by (intro that [of "obj\<lparr>ob_data := Move m'\<rparr>"]) (auto simp: fun_eq_iff object_id_def)
  qed
  have touched: "touched t1 = (if others = [] then {} else fst ` set (p # others))" using t1' by auto
  note same = same_base_fields [OF t1(2)]
  have ok1: "store_ok t1"
    using inp w(1,2) touched ids(1) by (auto simp: store_ok_def written_ok_def modified_ok_def same split: if_splits)
  from ensure_eq [OF this] obtain t2 where t2: "ensure_active_inputs_mutated t1 = Some t2" "same_base t1 t2"
    "bt_get (written t2) = after_ensure t1" "touched t2 = active t1 \<union> touched t1" by blast
  have get: "bt_get (written t2) i = (if i = fst p then Some (if others = [] then obj else w)
      else if i \<in> active ts - fst ` set others then bt_get (ts_input_objects ts) i else None)" for i
    using obj(1) ids unfolding t2(3) after_ensure_def same w(1) touched by auto
  have "start_state P ts (p # others) t2"
    unfolding start_state_def
  proof (intro conjI allI impI)
    show "same_base ts t2" using t1(2) t2(2) by (rule same_base_trans)
    show "store_ok t2" using ok1 t2(1) by (rule ensure_ok)
    show "touched t2 = active ts" using t2(4) touched ids(1) by (auto simp: same)
    show "dom (bt_get (written t2)) = active ts - fst ` set (tl (p # others))"
    proof (rule set_eqI)
      fix i
      have "bt_get (ts_input_objects ts) i \<noteq> None" if "i \<in> active ts"
        using inp that unfolding inputs_ok_def by blast
      then show "i \<in> dom (bt_get (written t2)) \<longleftrightarrow> i \<in> active ts - fst ` set (tl (p # others))"
        unfolding domIff [of i "bt_get (written t2)"] get using ids(2,3) by (auto simp del: domIff)
    qed
    show "coin_at t2 (fst (hd (p # others))) (coin_total ts (p # others))"
      using w(5) obj \<open>gas_coin_value ts p = Some v\<close> by (auto simp: coin_at_def get coin_total_def)
    show "bt_get (written t2) i = bt_get (ts_input_objects ts) i"
      if "i \<noteq> fst (hd (p # others))" "bt_get (written t2) i \<noteq> None" for i
      using that by (auto simp: get split: if_splits)
    show "ob_storage_rebate ob = prior_rebate ts i"
      "object_size_for_gas_metering P ob = object_size_for_gas_metering P (the (bt_get (ts_input_objects ts) i))"
      if "bt_get (written t2) i = Some ob" for i ob
      using that w(3,4) obj(1) ids(3) by (auto simp: get prior_rebate_def split: if_splits)
  qed
  moreover have "charger_reset gc ts = Some (gc'\<lparr>gc_smashed_gas_coin := Some (fst p)\<rparr>, t1)"
    using t1(1) by (simp add: charger_reset_def Let_def gc'_def)
  ultimately show ?thesis
    using ok1 t2(1) by (intro exI [of _ t1] exI [of _ t2]) (simp add: hd gc'_def)
qed

section \<open>The paths of the final charge\<close>

definition written_cost :: "object_platform \<Rightarrow> mgo_gas_status \<Rightarrow> temporary_store \<Rightarrow> nat" where
  "written_cost P st ts = (\<Sum>i \<in> dom (bt_get (written ts)). object_cost P st (the (bt_get (written ts) i)))"

text \<open>The store can be charged: the coin covers the budget, and no sum leaves the range of the integers.\<close>

definition payable :: "object_platform \<Rightarrow> mgo_gas_status \<Rightarrow> temporary_store \<Rightarrow> object_id \<Rightarrow> u64 \<Rightarrow> bool" where
  "payable P st ts g v \<longleftrightarrow> store_ok ts \<and> g \<in> touched ts \<and> coin_at ts g v \<and> mgs_gas_budget st \<le> v \<and> v < 2 ^ 63
     \<and> written_cost P st ts < 2 ^ 62 \<and> input_rebates ts < 2 ^ 62"

text \<open>The same for the inputs alone, to which the charge goes back when something fails.\<close>

definition inputs_payable :: "object_platform \<Rightarrow> mgo_gas_status \<Rightarrow> temporary_store \<Rightarrow> object_ref list \<Rightarrow> bool" where
  "inputs_payable P st ts coins \<longleftrightarrow> inputs_ok ts \<and> coins_ok ts coins \<and> mgs_gas_budget st \<le> coin_total ts coins
     \<and> coin_total ts coins < 2 ^ 63
     \<and> (\<Sum>i \<in> active ts. object_cost P st (the (bt_get (ts_input_objects ts) i))) < 2 ^ 62
     \<and> sum (prior_rebate ts) (active ts) < 2 ^ 62"

text \<open>Statuses with the same parameters.\<close>

definition same_terms :: "mgo_gas_status \<Rightarrow> mgo_gas_status \<Rightarrow> bool" where
  "same_terms st st' \<longleftrightarrow> mgs_gas_budget st' = mgs_gas_budget st \<and> mgs_cost_table st' = mgs_cost_table st
     \<and> mgs_storage_gas_price st' = mgs_storage_gas_price st \<and> mgs_rebate_rate st' = mgs_rebate_rate st
     \<and> mgs_charge st' = mgs_charge st"

lemma same_terms_eqs:
  assumes "same_terms st st'"
  shows "object_cost P st' = object_cost P st" "status_ok st' = status_ok st"
    "payable P st' ts g v = payable P st ts g v" "inputs_payable P st' ts coins = inputs_payable P st ts coins"
proof -
  show c: "object_cost P st' = object_cost P st"
    using assms by (simp add: same_terms_def object_cost_def fun_eq_iff)
  show "status_ok st' = status_ok st" using assms by (simp add: same_terms_def status_ok_def)
  show "payable P st' ts g v = payable P st ts g v" "inputs_payable P st' ts coins = inputs_payable P st ts coins"
    using assms by (simp_all add: same_terms_def payable_def inputs_payable_def written_cost_def c)
qed

lemma same_terms_updates [simp]:
  "same_terms st st" "same_terms st (st\<lparr>mgs_computation_cost := c\<rparr>)"
  "same_terms st (status_reset_storage_cost_and_rebate st)"
  "same_terms st (adjust_computation_on_out_of_gas (status_reset_storage_cost_and_rebate st))"
  "same_terms (gc_gas_status gc) (gc_gas_status (add_records gc L))"
  by (simp_all add: same_terms_def status_reset_storage_cost_and_rebate_def adjust_computation_on_out_of_gas_def
      add_records_def)

lemma same_terms_trans: "same_terms a b \<Longrightarrow> same_terms b c \<Longrightarrow> same_terms a c"
  by (simp add: same_terms_def)

lemma inputs_payable_base:
  assumes "same_base ts ts'"
  shows "inputs_payable P st ts' coins = inputs_payable P st ts coins"
proof -
  note same = same_base_fields [OF assms]
  have "gas_coin_value ts' = gas_coin_value ts" by (simp add: gas_coin_value_def same fun_eq_iff)
  then show ?thesis by (simp add: inputs_payable_def coins_ok_def coin_total_def same)
qed

text \<open>What is left of a failed execution: the inputs as they were but for the storage rebate, which the
  charge sets anew, without the coins that were smashed.\<close>

definition reverted :: "temporary_store \<Rightarrow> object_ref list \<Rightarrow> temporary_store \<Rightarrow> bool" where
  "reverted ts coins ts' \<longleftrightarrow> dom (bt_get (written ts')) = active ts - fst ` set (tl coins)
     \<and> (\<forall>i obj. bt_get (written ts') i = Some obj \<longrightarrow> i \<noteq> fst (hd coins) \<longrightarrow>
          (\<exists>old c. bt_get (ts_input_objects ts) i = Some old \<and> obj = old\<lparr>ob_storage_rebate := c\<rparr>))"

lemma start_reverted:
  assumes "start_state P ts coins t"
  shows "reverted ts coins t"
  unfolding reverted_def
proof (intro conjI allI impI)
  show "dom (bt_get (written t)) = active ts - fst ` set (tl coins)" using assms by (simp add: start_state_def)
  fix i obj
  assume "bt_get (written t) i = Some obj" "i \<noteq> fst (hd coins)"
  with assms have "bt_get (ts_input_objects ts) i = Some obj" unfolding start_state_def by (metis option.distinct(1))
  then show "\<exists>old c. bt_get (ts_input_objects ts) i = Some old \<and> obj = old\<lparr>ob_storage_rebate := c\<rparr>"
    by (intro exI [of _ obj] exI [of _ "ob_storage_rebate obj"]) simp
qed

lemma start_payable:
  assumes inp: "inputs_payable P st ts coins" and start: "start_state P ts coins t"
  shows "payable P st t (fst (hd coins)) (coin_total ts coins)"
proof -
  from start have base: "same_base ts t" and dom: "dom (bt_get (written t)) \<subseteq> active ts"
    and touched: "touched t = active ts" by (auto simp: start_state_def)
  have "written_cost P st t \<le> (\<Sum>i \<in> active ts. object_cost P st (the (bt_get (ts_input_objects ts) i)))"
    unfolding written_cost_def
  proof (rule order_trans [OF eq_refl sum_mono2])
    have "object_cost P st (the (bt_get (written t) i)) = object_cost P st (the (bt_get (ts_input_objects ts) i))"
      if "i \<in> dom (bt_get (written t))" for i
    proof -
      from that obtain obj where "bt_get (written t) i = Some obj" by auto
      moreover from this start have "object_size_for_gas_metering P obj =
          object_size_for_gas_metering P (the (bt_get (ts_input_objects ts) i))"
        unfolding start_state_def by blast
      ultimately show ?thesis by (simp add: object_cost_def)
    qed
    then show "(\<Sum>i \<in> dom (bt_get (written t)). object_cost P st (the (bt_get (written t) i))) =
        (\<Sum>i \<in> dom (bt_get (written t)). object_cost P st (the (bt_get (ts_input_objects ts) i)))"
      by (intro sum.cong) simp_all
  qed (use dom in simp_all)
  moreover have "fst (hd coins) \<in> active ts"
    using inp by (cases coins) (auto simp: inputs_payable_def coins_ok_def)
  ultimately show ?thesis
    using inp start same_base_fields(5) [OF base] touched
    by (simp add: payable_def inputs_payable_def start_state_def input_rebates_def)
qed

lemma collect_settles:
  fixes gc :: gas_charger
  defines "st \<equiv> gc_gas_status gc"
  assumes pay: "payable P st ts g v" and ok: "status_ok st" and empty: "mgs_per_object_storage st = []"
    and comp: "mgs_computation_cost st \<le> mgs_gas_budget st"
  shows "\<exists>ts' L. collect_storage_and_rebate P ts gc = Some (ts', add_records gc L)
    \<and> settled (gc_gas_status (add_records gc L)) ts' g v \<and> same_base ts ts'
    \<and> (\<forall>base coins. reverted base coins ts \<longrightarrow> reverted base coins ts')"
proof -
  from pay have st: "store_ok ts" and cost: "written_cost P st ts < 2 ^ 62" and reb: "input_rebates ts < 2 ^ 62"
    by (simp_all add: payable_def)
  have small: "affordable P st obj" if "bt_get (written ts) i = Some obj" for i obj
  proof -
    have "object_cost P st obj \<le> written_cost P st ts"
      using member_le_sum [of i "dom (bt_get (written ts))" "\<lambda>i. object_cost P st (the (bt_get (written ts) i))"] that
      by (auto simp: written_cost_def)
    moreover have "object_size_for_gas_metering P obj * mct_storage_per_byte_cost (mgs_cost_table st) \<le> object_cost P st obj"
      using ok by (simp add: object_cost_def status_ok_def)
    ultimately show ?thesis using cost by (simp add: affordable_def)
  qed
  from collect_storage_eq [OF st, of gc P] small ok obtain ts' L where c:
    "collect_storage_and_rebate P ts gc = Some (ts', add_records gc L)" "same_base ts ts'" "store_ok ts'"
    "touched ts' = touched ts" "bt_get (written ts') = map_option (repriced P st) \<circ> bt_get (written ts)"
    "cost_sum L = written_cost P st ts" "rebate_sum L = input_rebates ts"
    by (auto simp: st_def status_ok_def written_cost_def input_rebates_def)
  let ?st = "gc_gas_status (add_records gc L)"
  have pos: "mgs_per_object_storage ?st = L" using empty by (simp add: add_records_def st_def)
  have sums: "storage_cost ?st = written_cost P st ts" "storage_rebate ?st = input_rebates ts"
    using cost reb by (simp_all add: storage_sums_eq pos c(6,7))
  have dom: "dom (bt_get (written ts')) = dom (bt_get (written ts))" by (auto simp: c(5))
  have "output_rebates ts' = written_cost P st ts"
    unfolding output_rebates_def written_cost_def dom by (intro sum.cong) (auto simp: c(5))
  moreover have "input_rebates ts' = input_rebates ts"
    using c(4) same_base_fields(5) [OF c(2)] by (simp add: input_rebates_def)
  ultimately have "accounts_for ?st ts'"
    using cost reb by (simp add: accounts_for_def sums)
  moreover have "coin_at ts' g v" using pay by (auto simp: payable_def coin_at_def c(5))
  ultimately have "settled ?st ts' g v"
    using pay c(3,4) comp cost reb by (simp add: settled_def payable_def sums) (simp add: add_records_def st_def)
  moreover have "reverted base coins ts'" if "reverted base coins ts" for base coins
    using that unfolding reverted_def dom c(5) by (fastforce simp: repriced_def)
  ultimately show ?thesis using c(1,2) by (intro exI [of _ ts'] exI [of _ L]) simp
qed

text \<open>Without gas for storage the inputs keep their rebates and the deleted coins return theirs.\<close>

lemma out_of_gas_settles:
  fixes gc :: gas_charger
  defines "st \<equiv> gc_gas_status gc"
  assumes inp: "inputs_payable P st ts coins" and start: "start_state P ts coins t" and ok: "status_ok st"
    and empty: "mgs_per_object_storage st = []" and comp: "mgs_computation_cost st = mgs_gas_budget st"
  shows "\<exists>L. collect_rebate P t gc = Some (add_records gc L)
    \<and> settled (gc_gas_status (add_records gc L)) t (fst (hd coins)) (coin_total ts coins)
    \<and> within_budget (gc_gas_status (add_records gc L))"
proof -
  let ?L = "gone_records t" and ?W = "dom (bt_get (written t))"
  let ?st = "gc_gas_status (add_records gc ?L)"
  have pay: "payable P st t (fst (hd coins)) (coin_total ts coins)" by (rule start_payable [OF inp start])
  then have stok: "store_ok t" and reb: "input_rebates t < 2 ^ 62" by (simp_all add: payable_def)
  from start have base: "same_base ts t" and touched: "touched t = active ts" and sub: "?W \<subseteq> touched t"
    by (auto simp: start_state_def)
  have prior: "prior_rebate t = prior_rebate ts" by (rule same_base_fields(5) [OF base])
  have "output_rebates t = sum (prior_rebate t) ?W"
    unfolding output_rebates_def prior
  proof (intro sum.cong refl)
    fix i assume "i \<in> ?W"
    then obtain obj where "bt_get (written t) i = Some obj" by auto
    moreover from this start have "ob_storage_rebate obj = prior_rebate ts i" unfolding start_state_def by blast
    ultimately show "ob_storage_rebate (the (bt_get (written t) i)) = prior_rebate ts i" by simp
  qed
  moreover have "rebate_sum ?L = sum (prior_rebate t) (touched t - ?W)" "cost_sum ?L = 0"
    by (simp_all add: gone_sums)
  moreover have "sum (prior_rebate t) (touched t) = sum (prior_rebate t) (touched t - ?W) + sum (prior_rebate t) ?W"
    by (rule sum.subset_diff [OF sub]) simp
  ultimately have split: "input_rebates t = output_rebates t + rebate_sum ?L" "cost_sum ?L = 0"
    by (simp_all add: input_rebates_def)
  have pos: "mgs_per_object_storage ?st = ?L" using empty by (simp add: add_records_def st_def)
  have sums: "storage_cost ?st = 0" "storage_rebate ?st = rebate_sum ?L"
    using split reb by (simp_all add: storage_sums_eq pos)
  have "accounts_for ?st t" using split(1) by (simp add: accounts_for_def sums)
  then have "settled ?st t (fst (hd coins)) (coin_total ts coins)"
    using pay split reb comp by (simp add: settled_def payable_def sums) (simp add: add_records_def st_def)
  moreover have "within_budget ?st"
    using comp by (simp add: within_budget_def sums) (simp add: add_records_def st_def)
  moreover have "collect_rebate P t gc = Some (add_records gc ?L)"
    using ok by (intro collect_rebate_eq [OF _ stok]) (simp add: status_ok_def st_def)
  ultimately show ?thesis by blast
qed

lemma charge_storage_cases:
  assumes ok: "status_ok st" and comp: "mgs_computation_cost st \<le> mgs_gas_budget st"
  obtains (paid) "charge_storage_and_rebate st = Some (None :: 'k execution_error option)" and "within_budget st"
  | (failed) e :: "'k execution_error" where "charge_storage_and_rebate st = Some (Some e)"
proof -
  have "sender_rebate (storage_rebate st) (mgs_rebate_rate st) \<le> storage_rebate st"
    using ok by (intro sender_rebate_le storage_sums_less) (simp add: status_ok_def)
  with comp have "charge_storage_and_rebate st =
      Some (if storage_cost st \<le> sender_rebate (storage_rebate st) (mgs_rebate_rate st) then None
        else if mgs_gas_budget st - mgs_computation_cost st
               < storage_cost st - sender_rebate (storage_rebate st) (mgs_rebate_rate st)
        then Some (InsufficientGas :: 'k execution_error) else None)"
    by (simp add: charge_storage_and_rebate_def Let_def checked_sub_u64_def)
  with comp that show ?thesis by (auto simp: within_budget_def split: if_splits)
qed

text \<open>After the storage charge everything is settled within the budget: as it was, or on the state the
  inputs give, with an error.\<close>

definition handled ::
  "gas_charger \<Rightarrow> temporary_store \<Rightarrow> ('k, 't) execution_result \<Rightarrow> object_id \<Rightarrow> u64 \<Rightarrow> ('k, 't) charging_state \<Rightarrow> u64 \<Rightarrow> bool" where
  "handled gc ts res g v s w \<longleftrightarrow>
     (case s of (gc', ts', res') \<Rightarrow> settled (gc_gas_status gc') ts' g w \<and> within_budget (gc_gas_status gc')
        \<and> same_terms (gc_gas_status gc) (gc_gas_status gc') \<and> same_base ts ts'
        \<and> (ts' = ts \<and> res' = res \<and> w = v
           \<or> reverted ts (gc_gas_coins gc) ts' \<and> w = coin_total ts (gc_gas_coins gc) \<and> (\<exists>e. res' = fail_with res e)))"

lemma give_up_handled:
  fixes gc :: gas_charger and res :: "('k, 't) execution_result"
  defines "st \<equiv> gc_gas_status gc"
  assumes ok: "status_ok st" and inp: "inputs_payable P st ts (gc_gas_coins gc)"
  shows "\<exists>s. do { (gc, ts) \<leftarrow> charger_reset gc ts;
       let gc = gc\<lparr>gc_gas_status := adjust_computation_on_out_of_gas (gc_gas_status gc)\<rparr>;
       ts \<leftarrow> ensure_active_inputs_mutated ts;
       gc \<leftarrow> collect_rebate P ts gc;
       Some (gc, ts, fail_with res e) } = Some s
     \<and> handled gc ts res (fst (hd (gc_gas_coins gc))) v s (coin_total ts (gc_gas_coins gc))
     \<and> reverted ts (gc_gas_coins gc) (fst (snd s)) \<and> (\<exists>e'. snd (snd s) = fail_with res e')"
proof -
  from inp have "inputs_ok ts" "coins_ok ts (gc_gas_coins gc)" "coin_total ts (gc_gas_coins gc) < 2 ^ 64"
    by (simp_all add: inputs_payable_def)
  from reset_eq [OF this, of P] obtain t1 t2 where r: "charger_reset gc ts =
      Some (gc\<lparr>gc_smashed_gas_coin := Some (fst (hd (gc_gas_coins gc))),
        gc_gas_status := status_reset_storage_cost_and_rebate st\<rparr>, t1)"
    "ensure_active_inputs_mutated t1 = Some t2" "start_state P ts (gc_gas_coins gc) t2"
    by (auto simp: st_def)
  define gc' where "gc' = gc\<lparr>gc_smashed_gas_coin := Some (fst (hd (gc_gas_coins gc))),
    gc_gas_status := adjust_computation_on_out_of_gas (status_reset_storage_cost_and_rebate st)\<rparr>"
  have st': "same_terms st (gc_gas_status gc')" "mgs_per_object_storage (gc_gas_status gc') = []"
    "mgs_computation_cost (gc_gas_status gc') = mgs_gas_budget (gc_gas_status gc')"
    by (simp_all add: gc'_def) (simp_all add: adjust_computation_on_out_of_gas_def)
  note terms = same_terms_eqs [OF st'(1)]
  from inp ok have "inputs_payable P (gc_gas_status gc') ts (gc_gas_coins gc)" "status_ok (gc_gas_status gc')"
    by (simp_all add: terms)
  from out_of_gas_settles [OF this(1) r(3) this(2) st'(2,3)] obtain L where L:
    "collect_rebate P t2 gc' = Some (add_records gc' L)"
    "settled (gc_gas_status (add_records gc' L)) t2 (fst (hd (gc_gas_coins gc))) (coin_total ts (gc_gas_coins gc))"
    "within_budget (gc_gas_status (add_records gc' L))" by blast
  have "same_terms st (gc_gas_status (add_records gc' L))"
    by (rule same_terms_trans [OF st'(1)]) simp
  moreover have "same_base ts t2" using r(3) by (simp add: start_state_def)
  ultimately show ?thesis
    using r L start_reverted [OF r(3)]
    by (intro exI [of _ "(add_records gc' L, t2, fail_with res e)"])
      (simp add: handled_def gc'_def [symmetric] st_def [symmetric] Let_def, blast)
qed

lemma retry_settles:
  fixes gc :: gas_charger
  defines "st \<equiv> gc_gas_status gc"
  assumes ok: "status_ok st" and inp: "inputs_payable P st ts (gc_gas_coins gc)"
    and comp: "mgs_computation_cost st \<le> mgs_gas_budget st"
  shows "\<exists>gc1 t1 t2 t3 gc2. charger_reset gc ts = Some (gc1, t1) \<and> ensure_active_inputs_mutated t1 = Some t2
    \<and> collect_storage_and_rebate P t2 gc1 = Some (t3, gc2) \<and> gc_gas_coins gc2 = gc_gas_coins gc
    \<and> gc_gas_model_version gc2 = gc_gas_model_version gc \<and> gc_smashed_gas_coin gc2 = Some (fst (hd (gc_gas_coins gc)))
    \<and> same_terms st (gc_gas_status gc2) \<and> same_base ts t3 \<and> reverted ts (gc_gas_coins gc) t3
    \<and> settled (gc_gas_status gc2) t3 (fst (hd (gc_gas_coins gc))) (coin_total ts (gc_gas_coins gc))"
proof -
  from inp have "inputs_ok ts" "coins_ok ts (gc_gas_coins gc)" "coin_total ts (gc_gas_coins gc) < 2 ^ 64"
    by (simp_all add: inputs_payable_def)
  from reset_eq [OF this, of P] obtain t1 t2 where r: "charger_reset gc ts =
      Some (gc\<lparr>gc_smashed_gas_coin := Some (fst (hd (gc_gas_coins gc))),
        gc_gas_status := status_reset_storage_cost_and_rebate st\<rparr>, t1)"
    "ensure_active_inputs_mutated t1 = Some t2" "start_state P ts (gc_gas_coins gc) t2"
    by (auto simp: st_def)
  define gc1 where "gc1 = gc\<lparr>gc_smashed_gas_coin := Some (fst (hd (gc_gas_coins gc))),
    gc_gas_status := status_reset_storage_cost_and_rebate st\<rparr>"
  have st1: "same_terms st (gc_gas_status gc1)" "mgs_per_object_storage (gc_gas_status gc1) = []"
    "mgs_computation_cost (gc_gas_status gc1) \<le> mgs_gas_budget (gc_gas_status gc1)"
    using comp by (simp_all add: gc1_def) (simp_all add: status_reset_storage_cost_and_rebate_def)
  note terms = same_terms_eqs [OF st1(1)]
  have "payable P (gc_gas_status gc1) t2 (fst (hd (gc_gas_coins gc))) (coin_total ts (gc_gas_coins gc))"
    using start_payable [OF inp r(3)] by (simp add: terms)
  moreover have "status_ok (gc_gas_status gc1)" using ok by (simp add: terms)
  ultimately obtain t3 L where c: "collect_storage_and_rebate P t2 gc1 = Some (t3, add_records gc1 L)"
    "settled (gc_gas_status (add_records gc1 L)) t3 (fst (hd (gc_gas_coins gc))) (coin_total ts (gc_gas_coins gc))"
    "same_base t2 t3" "reverted ts (gc_gas_coins gc) t3"
    using collect_settles [of P gc1 t2] st1(2,3) start_reverted [OF r(3)] by blast
  have "same_base ts t3" using r(3) c(3) by (auto simp: start_state_def intro: same_base_trans)
  moreover have "same_terms st (gc_gas_status (add_records gc1 L))" by (rule same_terms_trans [OF st1(1)]) simp
  moreover have "gc_gas_coins (add_records gc1 L) = gc_gas_coins gc"
    "gc_gas_model_version (add_records gc1 L) = gc_gas_model_version gc"
    "gc_smashed_gas_coin (add_records gc1 L) = Some (fst (hd (gc_gas_coins gc)))"
    by (simp_all add: add_records_def gc1_def)
  ultimately show ?thesis
    using r c by (intro exI [of _ gc1] exI [of _ t1] exI [of _ t2] exI [of _ t3] exI [of _ "add_records gc1 L"])
      (simp add: gc1_def)
qed

lemma base_eqs:
  assumes "same_base ts ts'"
  shows "reverted ts' coins t = reverted ts coins t" "coin_total ts' coins = coin_total ts coins"
  using same_base_fields [OF assms] by (simp_all add: reverted_def coin_total_def gas_coin_value_def)

lemma handle_v1_eq:
  fixes gc :: gas_charger and res :: "('k, 't) execution_result"
  defines "st \<equiv> gc_gas_status gc" and "g \<equiv> fst (hd (gc_gas_coins gc))"
  assumes ok: "status_ok st" and inp: "inputs_payable P st ts (gc_gas_coins gc)" and set: "settled st ts g v"
  shows "\<exists>s w. handle_storage_and_rebate_v1 P (gc, ts, res) = Some s \<and> handled gc ts res g v s w"
proof -
  from set have comp: "mgs_computation_cost st \<le> mgs_gas_budget st" by (simp add: settled_def)
  from ok comp show ?thesis
  proof (cases rule: charge_storage_cases [where 'k = 'k])
    case paid
    with set show ?thesis
      by (intro exI [of _ "(gc, ts, res)"] exI [of _ v]) (simp add: handle_storage_and_rebate_v1_def handled_def st_def)
  next
    case (failed e)
    from give_up_handled [OF ok [unfolded st_def] inp [unfolded st_def], of res e v] failed show ?thesis
      unfolding handle_storage_and_rebate_v1_def g_def by (auto simp: st_def)
  qed
qed

lemma handle_v2_eq:
  fixes gc :: gas_charger and res :: "('k, 't) execution_result"
  defines "st \<equiv> gc_gas_status gc" and "g \<equiv> fst (hd (gc_gas_coins gc))"
  assumes ok: "status_ok st" and inp: "inputs_payable P st ts (gc_gas_coins gc)" and set: "settled st ts g v"
  shows "\<exists>s w. handle_storage_and_rebate_v2 P (gc, ts, res) = Some s \<and> handled gc ts res g v s w"
proof -
  from set have comp: "mgs_computation_cost st \<le> mgs_gas_budget st" by (simp add: settled_def)
  from ok comp show ?thesis
  proof (cases rule: charge_storage_cases [where 'k = 'k])
    case paid
    with set show ?thesis
      by (intro exI [of _ "(gc, ts, res)"] exI [of _ v]) (simp add: handle_storage_and_rebate_v2_def handled_def st_def)
  next
    case (failed e)
    from retry_settles [OF ok [unfolded st_def] inp [unfolded st_def] comp [unfolded st_def]]
    obtain gc1 t1 t2 t3 gc2 where r: "charger_reset gc ts = Some (gc1, t1)" "ensure_active_inputs_mutated t1 = Some t2"
      "collect_storage_and_rebate P t2 gc1 = Some (t3, gc2)" "gc_gas_coins gc2 = gc_gas_coins gc"
      "same_terms st (gc_gas_status gc2)" "same_base ts t3" "reverted ts (gc_gas_coins gc) t3"
      "settled (gc_gas_status gc2) t3 g (coin_total ts (gc_gas_coins gc))"
      unfolding st_def g_def by blast
    note terms = same_terms_eqs [OF r(5)]
    have ok2: "status_ok (gc_gas_status gc2)" using ok by (simp add: terms)
    have inp2: "inputs_payable P (gc_gas_status gc2) t3 (gc_gas_coins gc2)"
      using inp inputs_payable_base [OF r(6)] by (simp add: terms r(4))
    have comp2: "mgs_computation_cost (gc_gas_status gc2) \<le> mgs_gas_budget (gc_gas_status gc2)"
      using r(8) by (simp add: settled_def)
    note start = failed r(1-3)
    from ok2 comp2 show ?thesis
    proof (cases rule: charge_storage_cases [where 'k = 'k])
      case paid
      with start r show ?thesis
        by (intro exI [of _ "(gc2, t3, fail_with res e)"] exI [of _ "coin_total ts (gc_gas_coins gc)"])
          (simp add: handle_storage_and_rebate_v2_def handled_def st_def, blast)
    next
      case (failed e')
      have g2: "g = fst (hd (gc_gas_coins gc2))" by (simp add: g_def r(4))
      from give_up_handled [OF ok2 inp2, of res e' v, folded g2] obtain s where s:
        "do { (gc, ts) \<leftarrow> charger_reset gc2 t3;
          let gc = gc\<lparr>gc_gas_status := adjust_computation_on_out_of_gas (gc_gas_status gc)\<rparr>;
          ts \<leftarrow> ensure_active_inputs_mutated ts;
          gc \<leftarrow> collect_rebate P ts gc;
          Some (gc, ts, fail_with res e') } = Some s"
        "handled gc2 t3 res g v s (coin_total t3 (gc_gas_coins gc2))"
        "reverted t3 (gc_gas_coins gc2) (fst (snd s))" "\<exists>e'. snd (snd s) = fail_with res e'" by blast
      have "handle_storage_and_rebate_v2 P (gc, ts, res) = Some s"
        using start failed s(1) by (simp add: handle_storage_and_rebate_v2_def st_def)
      moreover have "handled gc ts res g v s (coin_total t3 (gc_gas_coins gc2))"
        using s(2-4) r(4) same_terms_trans [OF r(5)] same_base_trans [OF r(6)] base_eqs [OF r(6)]
        by (cases s) (simp add: handled_def st_def)
      ultimately show ?thesis by blast
    qed
  qed
qed

section \<open>The whole charge\<close>

text \<open>What holds when the charge begins: the coins were smashed, no storage is recorded yet, the
  products of the computation charge fit, and the inputs can pay.\<close>

definition chargeable :: "object_platform \<Rightarrow> gas_charger \<Rightarrow> temporary_store \<Rightarrow> bool" where
  "chargeable P gc ts \<longleftrightarrow> status_ok (gc_gas_status gc) \<and> mgs_per_object_storage (gc_gas_status gc) = []
     \<and> gc_smashed_gas_coin gc = Some (fst (hd (gc_gas_coins gc)))
     \<and> (\<exists>used c. gas_used_pre_gas_price (mgs_gas_status (gc_gas_status gc)) = Some used
          \<and> computation_charge (gc_gas_status gc) used = Some c)
     \<and> inputs_payable P (gc_gas_status gc) ts (gc_gas_coins gc) \<and> store_ok ts"

text \<open>The result of a successful execution can pay.\<close>

definition result_payable :: "object_platform \<Rightarrow> gas_charger \<Rightarrow> temporary_store \<Rightarrow> bool" where
  "result_payable P gc ts \<longleftrightarrow>
     (\<exists>ts' v. ensure_active_inputs_mutated ts = Some ts'
        \<and> payable P (gc_gas_status gc) ts' (fst (hd (gc_gas_coins gc))) v)"

text \<open>The state in which storage is collected: of the execution, or of the inputs with an error.\<close>

lemma charge_computation_eq:
  fixes res :: "('k, 't) execution_result"
  assumes ch: "chargeable P gc ts" and pay: "\<forall>r. res = Inr r \<longrightarrow> result_payable P gc ts"
  defines "g \<equiv> fst (hd (gc_gas_coins gc))"
  shows "\<exists>gc' t t' res' v. charge_computation (gc, ts, res) = Some (gc', t, res')
    \<and> ensure_active_inputs_mutated t = Some t' \<and> payable P (gc_gas_status gc') t' g v
    \<and> same_terms (gc_gas_status gc) (gc_gas_status gc') \<and> mgs_per_object_storage (gc_gas_status gc') = []
    \<and> mgs_computation_cost (gc_gas_status gc') \<le> mgs_gas_budget (gc_gas_status gc')
    \<and> gc_gas_coins gc' = gc_gas_coins gc \<and> gc_smashed_gas_coin gc' = Some g
    \<and> same_base ts t'
    \<and> (reverted ts (gc_gas_coins gc) t' \<and> v = coin_total ts (gc_gas_coins gc) \<and> (\<forall>e. res = Inl e \<longrightarrow> res' = res)
       \<or> (\<exists>r. res = Inr r) \<and> res' = res)"
proof -
  let ?st = "gc_gas_status gc"
  from ch obtain used c where "gas_used_pre_gas_price (mgs_gas_status ?st) = Some used"
    "computation_charge ?st used = Some c" by (auto simp: chargeable_def)
  then have "bucketize_computation ?st = Some (?st\<lparr>mgs_computation_cost := min (mgs_gas_budget ?st) c\<rparr>,
      if mgs_gas_budget ?st \<le> c then Some (InsufficientGas :: 'k execution_error) else None)"
    by (simp add: bucketize_computation_def min_def)
  with ch obtain st' e where b: "bucketize_computation ?st = Some (st', e :: 'k execution_error option)"
    "same_terms ?st st'" "mgs_per_object_storage st' = []" "mgs_computation_cost st' \<le> mgs_gas_budget st'"
    by (simp add: chargeable_def)
  define gc1 where "gc1 = gc\<lparr>gc_gas_status := st'\<rparr>"
  define res1 where "res1 = (case e of Some err \<Rightarrow> fail_with res err | None \<Rightarrow> res)"
  have coins: "gc_gas_coins gc1 = gc_gas_coins gc" "gc_gas_status gc1 = st'" by (simp_all add: gc1_def)
  have start: "charge_computation (gc, ts, res) = (case res1 of
      Inl _ \<Rightarrow> do { (gc', t) \<leftarrow> charger_reset gc1 ts; Some (gc', t, res1) } | Inr _ \<Rightarrow> Some (gc1, ts, res1))"
    using ch unfolding charge_computation_def chargeable_def
    by (simp add: b(1) Let_def gc1_def [symmetric] res1_def [symmetric] split: sum.split)
  note terms = same_terms_eqs [OF b(2)]
  show ?thesis
  proof (cases res1)
    case (Inr r)
    then have res: "res1 = res" "res = Inr r"
      by (auto simp: res1_def fail_with_def split: option.splits sum.splits)
    with pay obtain ts' v where p: "ensure_active_inputs_mutated ts = Some ts'" "payable P ?st ts' g v"
      by (auto simp: result_payable_def g_def)
    moreover have "same_base ts ts'" using ensure_eq [of ts] ch p(1) by (auto simp: chargeable_def)
    ultimately show ?thesis
      using start Inr res b(2-4) ch
      by (intro exI [of _ gc1] exI [of _ ts] exI [of _ ts'] exI [of _ res] exI [of _ v])
        (simp add: terms gc1_def chargeable_def g_def)
  next
    case (Inl err)
    from ch have inp: "inputs_payable P st' ts (gc_gas_coins gc)" by (simp add: chargeable_def terms)
    then have "inputs_ok ts" "coins_ok ts (gc_gas_coins gc1)" "coin_total ts (gc_gas_coins gc1) < 2 ^ 64"
      by (simp_all add: inputs_payable_def coins)
    from reset_eq [OF this, of P] obtain t1 t2 where r: "charger_reset gc1 ts =
        Some (gc1\<lparr>gc_smashed_gas_coin := Some g, gc_gas_status := status_reset_storage_cost_and_rebate st'\<rparr>, t1)"
      "ensure_active_inputs_mutated t1 = Some t2" "start_state P ts (gc_gas_coins gc) t2"
      by (auto simp: coins g_def)
    have t: "same_terms ?st (status_reset_storage_cost_and_rebate st')" by (rule same_terms_trans [OF b(2)]) simp
    have "payable P (status_reset_storage_cost_and_rebate st') t2 g (coin_total ts (gc_gas_coins gc))"
      using start_payable [OF inp r(3)] same_terms_eqs(3) [OF t] terms(3) by (simp add: g_def)
    moreover have "same_base ts t2" using r(3) by (simp add: start_state_def)
    moreover have "\<forall>e. res = Inl e \<longrightarrow> res1 = res" by (auto simp: res1_def fail_with_def split: option.splits)
    ultimately show ?thesis
      using start Inl r(1,2) start_reverted [OF r(3)] t b(4) ch
      by (intro exI [of _ "gc1\<lparr>gc_smashed_gas_coin := Some g, gc_gas_status := status_reset_storage_cost_and_rebate st'\<rparr>"]
          exI [of _ t1] exI [of _ t2] exI [of _ res1] exI [of _ "coin_total ts (gc_gas_coins gc)"])
        (simp add: gc1_def status_reset_storage_cost_and_rebate_def)
  qed
qed

text \<open>From the collected storage costs to the end.\<close>

lemma charge_storage_eq:
  fixes gc :: gas_charger and res :: "('k, 't) execution_result"
  defines "g \<equiv> fst (hd (gc_gas_coins gc))" and "budget \<equiv> mgs_gas_budget (gc_gas_status gc)"
    and "coins \<equiv> gc_gas_coins gc"
  assumes ok: "status_ok (gc_gas_status gc)" and inp: "inputs_payable P (gc_gas_status gc) ts coins"
    and set: "settled (gc_gas_status gc) ts g v"
  shows "\<exists>s gc' ts' res' w. do { s \<leftarrow> (if dont_charge_budget_on_storage_oog (gc_gas_model_version gc)
          then handle_storage_and_rebate_v2 P (gc, ts, res) else handle_storage_and_rebate_v1 P (gc, ts, res));
        deduct_charges g s } = Some (s, gc', ts', res')
    \<and> check_mgo_conserved P ts' True s = Some (None :: 'k execution_error option)
    \<and> gcs_computation_cost s \<le> budget
    \<and> gcs_computation_cost s + gcs_storage_cost s \<le> budget + gcs_storage_rebate s
    \<and> coin_at ts' g (w + gcs_storage_rebate s - (gcs_computation_cost s + gcs_storage_cost s)) \<and> budget \<le> w
    \<and> (\<forall>base e. res = Inl e \<longrightarrow> v = coin_total ts coins \<longrightarrow> same_base base ts \<longrightarrow> reverted base coins ts
         \<longrightarrow> res' = res \<and> w = v \<and> reverted base coins ts')"
proof -
  note args = ok inp [unfolded coins_def] set [unfolded g_def]
  obtain s w where h: "(if dont_charge_budget_on_storage_oog (gc_gas_model_version gc)
      then handle_storage_and_rebate_v2 P (gc, ts, res) else handle_storage_and_rebate_v1 P (gc, ts, res)) = Some s"
    "handled gc ts res g v s w"
    unfolding g_def using handle_v1_eq [OF args, of res] handle_v2_eq [OF args, of res]
    by (cases "dont_charge_budget_on_storage_oog (gc_gas_model_version gc)") auto
  obtain gc3 t4 res3 where s: "s = (gc3, t4, res3)" by (cases s) auto
  from h(2) have h3: "settled (gc_gas_status gc3) t4 g w" "within_budget (gc_gas_status gc3)"
    "same_terms (gc_gas_status gc) (gc_gas_status gc3)"
    and alt: "t4 = ts \<and> res3 = res \<and> w = v \<or> reverted ts coins t4
      \<and> w = coin_total ts coins \<and> (\<exists>e. res3 = fail_with res e)"
    by (auto simp: handled_def s coins_def)
  have ok3: "status_ok (gc_gas_status gc3)" using ok by (simp add: same_terms_eqs [OF h3(3)])
  from deduct_charges_eq [OF ok3 h3(1,2), of res3 P] obtain sm t5 where d:
    "deduct_charges g (gc3, t4, res3) = Some (sm, gc3, t5, res3)" "check_mgo_conserved P t5 True sm = Some (None :: 'k execution_error option)"
    "coin_at t5 g (w + gcs_storage_rebate sm - (gcs_computation_cost sm + gcs_storage_cost sm))"
    "gcs_computation_cost sm \<le> mgs_gas_budget (gc_gas_status gc3)"
    "gcs_computation_cost sm + gcs_storage_cost sm \<le> mgs_gas_budget (gc_gas_status gc3) + gcs_storage_rebate sm"
    "\<forall>i. i \<noteq> g \<longrightarrow> bt_get (written t5) i = bt_get (written t4) i" by blast
  have budget: "mgs_gas_budget (gc_gas_status gc3) = budget"
    using h3(3) by (simp add: same_terms_def budget_def)
  have "g \<in> dom (bt_get (written t4))" "g \<in> dom (bt_get (written t5))"
    using h3(1) d(3) by (auto simp: settled_def coin_at_def)
  then have "dom (bt_get (written t5)) = dom (bt_get (written t4))" using d(6) by (auto simp: domIff)
  with d(6) have rev: "reverted base coins t5" if "reverted base coins t4" for base
    using that by (auto simp: reverted_def g_def coins_def)
  have "res3 = res \<and> w = v \<and> reverted base coins t5"
    if "res = Inl e" "v = coin_total ts coins" "same_base base ts" "reverted base coins ts" for e base
    using alt that rev base_eqs(1) [OF that(3)] by (auto simp: fail_with_def)
  then show ?thesis
    using h(1) s d(1-5) h3(1) by (intro exI [of _ sm] exI [of _ gc3] exI [of _ t5] exI [of _ res3] exI [of _ w])
      (auto simp: budget settled_def)
qed

lemma charge_gas_eq:
  fixes res :: "('k, 't) execution_result"
  assumes ch: "chargeable P gc ts" and pay: "\<forall>r. res = Inr r \<longrightarrow> result_payable P gc ts"
  defines "g \<equiv> fst (hd (gc_gas_coins gc))" and "budget \<equiv> mgs_gas_budget (gc_gas_status gc)"
  shows "\<exists>s gc' ts' res' v. charge_gas P (gc, ts, res) = Some (s, gc', ts', res')
    \<and> check_mgo_conserved P ts' True s = Some (None :: 'k execution_error option)
    \<and> gcs_computation_cost s \<le> budget
    \<and> gcs_computation_cost s + gcs_storage_cost s \<le> budget + gcs_storage_rebate s
    \<and> coin_at ts' g (v + gcs_storage_rebate s - (gcs_computation_cost s + gcs_storage_cost s)) \<and> budget \<le> v
    \<and> (\<forall>e. res = Inl e \<longrightarrow> res' = res \<and> v = coin_total ts (gc_gas_coins gc) \<and> reverted ts (gc_gas_coins gc) ts')"
proof -
  from charge_computation_eq [OF ch pay] obtain gc1 t1 t2 res1 v1 where c:
    "charge_computation (gc, ts, res) = Some (gc1, t1, res1)" "ensure_active_inputs_mutated t1 = Some t2"
    "payable P (gc_gas_status gc1) t2 g v1" "same_terms (gc_gas_status gc) (gc_gas_status gc1)"
    "mgs_per_object_storage (gc_gas_status gc1) = []"
    "mgs_computation_cost (gc_gas_status gc1) \<le> mgs_gas_budget (gc_gas_status gc1)"
    "gc_gas_coins gc1 = gc_gas_coins gc" "gc_smashed_gas_coin gc1 = Some g" "same_base ts t2"
    and alt: "reverted ts (gc_gas_coins gc) t2 \<and> v1 = coin_total ts (gc_gas_coins gc) \<and> (\<forall>e. res = Inl e \<longrightarrow> res1 = res)
       \<or> (\<exists>r. res = Inr r) \<and> res1 = res"
    unfolding g_def by blast
  note terms1 = same_terms_eqs [OF c(4)]
  from ch have ok1: "status_ok (gc_gas_status gc1)"
    and inp1: "inputs_payable P (gc_gas_status gc1) t2 (gc_gas_coins gc1)"
    using inputs_payable_base [OF c(9)] by (simp_all add: chargeable_def terms1 c(7))
  from collect_settles [OF c(3) ok1 c(5,6)] obtain t3 L where col:
    "collect_storage_and_rebate P t2 gc1 = Some (t3, add_records gc1 L)"
    "settled (gc_gas_status (add_records gc1 L)) t3 g v1" "same_base t2 t3"
    "\<And>base coins. reverted base coins t2 \<Longrightarrow> reverted base coins t3" by blast
  define gc2 where "gc2 = add_records gc1 L"
  have gc2: "gc_gas_coins gc2 = gc_gas_coins gc" "gc_smashed_gas_coin gc2 = Some g"
    "same_terms (gc_gas_status gc1) (gc_gas_status gc2)"
    using c(7,8) by (simp_all add: gc2_def) (simp_all add: add_records_def)
  note terms2 = same_terms_eqs [OF gc2(3)]
  have base3: "same_base ts t3" by (rule same_base_trans [OF c(9) col(3)])
  have g2: "fst (hd (gc_gas_coins gc2)) = g" by (simp add: gc2(1) g_def)
  have b2: "mgs_gas_budget (gc_gas_status gc2) = budget" using c(4) gc2(3) by (simp add: same_terms_def budget_def)
  have "status_ok (gc_gas_status gc2)" "inputs_payable P (gc_gas_status gc2) t3 (gc_gas_coins gc2)"
    using ok1 inp1 inputs_payable_base [OF col(3)] by (simp_all add: terms2 c(7) gc2(1))
  from charge_storage_eq [OF this, unfolded g2 b2, OF col(2) [folded gc2_def], of res1] obtain s gc' ts' res' w where d:
    "do { s \<leftarrow> (if dont_charge_budget_on_storage_oog (gc_gas_model_version gc2)
          then handle_storage_and_rebate_v2 P (gc2, t3, res1) else handle_storage_and_rebate_v1 P (gc2, t3, res1));
        deduct_charges g s } = Some (s, gc', ts', res')"
    "check_mgo_conserved P ts' True s = Some (None :: 'k execution_error option)" "gcs_computation_cost s \<le> budget"
    "gcs_computation_cost s + gcs_storage_cost s \<le> budget + gcs_storage_rebate s"
    "coin_at ts' g (w + gcs_storage_rebate s - (gcs_computation_cost s + gcs_storage_cost s))" "budget \<le> w"
    "\<And>base e. res1 = Inl e \<Longrightarrow> v1 = coin_total t3 (gc_gas_coins gc2) \<Longrightarrow> same_base base t3
       \<Longrightarrow> reverted base (gc_gas_coins gc2) t3 \<Longrightarrow> res' = res1 \<and> w = v1 \<and> reverted base (gc_gas_coins gc2) ts'"
    by blast
  have "charge_gas P (gc, ts, res) = Some (s, gc', ts', res')"
    using c(1,2) col(1) d(1) by (simp add: charge_gas_def gc2_def [symmetric] gc2(2))
  moreover have "res' = res \<and> w = coin_total ts (gc_gas_coins gc) \<and> reverted ts (gc_gas_coins gc) ts'" if "res = Inl e" for e
    using alt that d(7) [of e ts] base3 col(4) base_eqs(2) [OF base3] by (auto simp: gc2(1))
  ultimately show ?thesis
    using d(2-6) by (intro exI [of _ s] exI [of _ gc'] exI [of _ ts'] exI [of _ res'] exI [of _ w]) simp
qed

section \<open>The computation charge\<close>

lemma meter_run_used:
  assumes "GasStatus_new (cost_table_for_version v) budget price v = Some gs"
    and "\<forall>c \<in> set calls. small_call c" and "meter_run gs calls = (gs', r)"
  obtains used where "gas_used_pre_gas_price gs' = Some used" and "used * price \<le> budget"
proof -
  note new = GasStatus_new_fields [OF assms(1)]
  note inv = GasStatus_new_metered [OF assms(1)]
  have "same_budget gs gs'" by (rule meter_run_same [OF inv assms(2,3)])
  moreover have "gs_inv gs'"
    using gm.run_inv [OF inv assms(2) assms(3) [unfolded meter_run_is]] by (simp add: metered_inv_def)
  ultimately have "\<exists>used. gas_used_pre_gas_price gs' = Some used \<and> used * price \<le> budget"
    using new by (intro gas_used_within) (simp_all add: same_budget_def)
  with that show ?thesis by blast
qed

lemma new_with_budget_fields:
  assumes "new_with_budget budget price rgp config = Some st" and "pc_max_gas_computation_bucket config = Some m"
  obtains v where "GasStatus_new (cost_table_for_version v) (min budget (m * price)) price v = Some (mgs_gas_status st)"
    and "m * price < 2 ^ 64" and "mgs_gas_budget st = budget" and "mgs_gas_price st = price"
    and "mgs_gas_rounding_step st = map_option (\<lambda>s. max s 1) (pc_gas_rounding_step config)"
    and "computation_buckets m = Some (mct_computation_bucket (mgs_cost_table st))"
  using assms
  by (auto simp: new_with_budget_def MgoCostTable_new_def MgoGasStatusV2_new_def checked_u64_simps Let_def min_def
      split: bind_splits if_splits)

lemma bucket_cost_covers:
  assumes "computation_buckets m = Some table" and "used \<le> m"
  shows "used \<le> get_bucket_cost table used" and "get_bucket_cost table used \<le> m"
  using assms
  by (auto simp: computation_buckets_def get_bucket_cost_def ComputationBucket_simple_def ComputationBucket_new_def
      split: if_splits)

lemma round_up_bounds:
  assumes "0 < (s :: nat)"
  shows "u \<le> (u div s + 1) * s" and "(u div s + 1) * s \<le> u + s"
proof -
  have "u = u div s * s + u mod s" "u mod s < s" using assms by simp_all
  then show "u \<le> (u div s + 1) * s" "(u div s + 1) * s \<le> u + s" unfolding add_mult_distrib by linarith+
qed

lemma computation_charge_covers:
  assumes "mgs_gas_price st = price" and "0 < price" and "used \<le> m"
    and "mgs_gas_rounding_step st = map_option (\<lambda>s. max s 1) step"
    and "computation_buckets m = Some (mct_computation_bucket (mgs_cost_table st))"
    and "(m + (case step of Some s \<Rightarrow> max s 1 | None \<Rightarrow> 0)) * price < 2 ^ 64"
  shows "\<exists>c. computation_charge st used = Some c \<and> used * price \<le> c"
proof (cases step)
  case None
  note b = bucket_cost_covers [OF assms(5,3)]
  have "get_bucket_cost (mct_computation_bucket (mgs_cost_table st)) used * price < 2 ^ 64"
    by (rule le_less_trans [OF mult_le_mono1 [OF b(2), of price]]) (use assms(6) None in simp)
  with None assms(1,4) b(1) show ?thesis
    by (simp add: computation_charge_def checked_mul_u64_def)
next
  case (Some s0)
  define s where "s = max s0 1"
  have s: "0 < s" "mgs_gas_rounding_step st = Some s" "(m + s) * price < 2 ^ 64"
    using assms(4,6) Some by (simp_all add: s_def)
  let ?n = "(used div s + 1) * s"
  note r = round_up_bounds [OF s(1), of used]
  have n: "?n * price \<le> (m + s) * price" by (rule mult_le_mono1) (use r(2) assms(3) in linarith)
  have "1 \<le> price" "1 \<le> s" using assms(2) s(1) by simp_all
  note ge = this [THEN mult_le_mono2, unfolded mult_1_right]
  have lt3: "?n * price < 2 ^ 64" by (rule le_less_trans [OF n s(3)])
  have lt2: "?n < 2 ^ 64" by (rule le_less_trans [OF ge(1) lt3])
  have lt: "used div s + 1 < 2 ^ 64" "?n < 2 ^ 64" "?n * price < 2 ^ 64"
    using le_less_trans [OF ge(2) lt2] lt2 lt3 .
  have u: "used * price \<le> ?n * price" by (rule mult_le_mono1 [OF r(1)])
  then have "used * price < 2 ^ 64" using lt(3) by (rule le_less_trans)
  moreover have "computation_charge st used =
      (if used > 0 \<and> used mod s = 0 then checked_mul_u64 used price else checked_mul_u64 ?n price)"
    using s(1,2) lt(1,2) assms(1) unfolding computation_charge_def
    by (simp add: checked_mul_u64_def checked_add_u64_def)
  ultimately show ?thesis using lt(3) u by (auto simp: checked_mul_u64_def)
qed

section \<open>Properties\<close>

text \<open>(C29) Charging a transaction conserves the storage rebates and stays within the budget.  The charge
  returns on every path, whether the execution succeeded, failed, ran out of gas when the
  computation was rounded, or could not pay for storage; the check of conservation then passes, the
  computation cost is at most the budget, and so is the net charge.\<close>

theorem charge_gas_conserves:
  assumes "chargeable P gc ts" and "\<forall>r. res = Inr r \<longrightarrow> result_payable P gc ts"
  shows "\<exists>s gc' ts' res'. charge_gas P (gc, ts, res :: ('k, 't) execution_result) = Some (s, gc', ts', res')
    \<and> check_mgo_conserved P ts' True s = Some (None :: 'k execution_error option)
    \<and> gcs_computation_cost s \<le> mgs_gas_budget (gc_gas_status gc)
    \<and> gcs_computation_cost s + gcs_storage_cost s \<le> mgs_gas_budget (gc_gas_status gc) + gcs_storage_rebate s"
  using charge_gas_eq [OF assms] by blast

text \<open>(C30) A failed execution costs gas and nothing else: the error is kept, every input that may be
  mutated is written back as it was but for its storage rebate, which is set anew, except that the gas
  coins become one coin, and this coin holds their total value plus the rebate minus the costs.\<close>

theorem failed_execution_pays_gas_only:
  assumes "chargeable P gc ts"
  shows "\<exists>s gc' ts'. charge_gas P (gc, ts, Inl e :: ('k, 't) execution_result) = Some (s, gc', ts', Inl e)
    \<and> reverted ts (gc_gas_coins gc) ts'
    \<and> coin_at ts' (fst (hd (gc_gas_coins gc))) (coin_total ts (gc_gas_coins gc) + gcs_storage_rebate s
        - (gcs_computation_cost s + gcs_storage_cost s))"
  using charge_gas_eq [OF assms, of "Inl e"] by auto

text \<open>(C31) The computation charge covers the gas used: for a status made with a budget, after any run of
  the meter, bucketizing returns a cost that is at least the gas used times the gas price and at most
  the budget, and it reports a lack of gas exactly when the cost is the whole budget.\<close>

theorem computation_cost_covers_use:
  assumes "new_with_budget budget price rgp config = Some st"
    and "pc_max_gas_computation_bucket config = Some m" and "pc_gas_rounding_step config = step"
    and "(m + (case step of Some s \<Rightarrow> max s 1 | None \<Rightarrow> 0)) * price < 2 ^ 64"
    and "\<forall>c \<in> set calls. small_call c" and "meter_run (mgs_gas_status st) calls = (gs, r)"
  shows "\<exists>used st' e. gas_used_pre_gas_price gs = Some used
    \<and> bucketize_computation (st\<lparr>mgs_gas_status := gs\<rparr>) = Some (st', e :: 'k execution_error option)
    \<and> used * price \<le> mgs_computation_cost st' \<and> mgs_computation_cost st' \<le> budget
    \<and> (e = Some InsufficientGas \<longleftrightarrow> mgs_computation_cost st' = budget)"
proof -
  let ?st = "st\<lparr>mgs_gas_status := gs\<rparr>"
  obtain v where n: "GasStatus_new (cost_table_for_version v) (min budget (m * price)) price v = Some (mgs_gas_status st)"
    "mgs_gas_budget st = budget" "mgs_gas_price st = price"
    "mgs_gas_rounding_step st = map_option (\<lambda>s. max s 1) step"
    "computation_buckets m = Some (mct_computation_bucket (mgs_cost_table st))"
    by (rule new_with_budget_fields [OF assms(1,2)]) (use assms(3) in auto)
  have price: "0 < price" using GasStatus_new_fields(1) [OF n(1)] .
  obtain used where used: "gas_used_pre_gas_price gs = Some used" "used * price \<le> min budget (m * price)"
    by (rule meter_run_used [OF n(1) assms(5,6)])
  from used(2) price have "used \<le> m" "used * price \<le> budget" by simp_all
  moreover from computation_charge_covers [of ?st price used m step] n price calculation(1) assms(4)
  obtain c where "computation_charge ?st used = Some c" "used * price \<le> c" by auto
  ultimately show ?thesis
    using used(1) n(2) by (auto simp: bucketize_computation_def)
qed

end
