(* ===== verification/Example_Charge.thy ===== *)
theory Example_Charge
  imports Gas_Conservation
begin

text \<open>
  A transaction for the witnesses: two gas coins, a budget that one of them covers, and the
  parameters of a recent protocol version.  The third-party functions are instantiated with constant
  ones.
\<close>

definition ex_platform :: object_platform where
  "ex_platform = \<lparr>op_serialized_type_size = (\<lambda>_. 1), op_size_of_owner = 40, op_hash = (\<lambda>_. 0)\<rparr>"

definition ex_config :: protocol_config where
  "ex_config = \<lparr>pc_max_tx_gas = Some 50000000000, pc_max_gas_price = Some 100000,
     pc_max_gas_computation_bucket = Some 5000000, pc_gas_rounding_step = Some 1000,
     pc_base_tx_cost_fixed = Some 1000, pc_package_publish_cost_per_byte = Some 80,
     pc_obj_access_cost_read_per_byte = Some 15, pc_gas_model_version = Some 8,
     pc_obj_data_cost_refundable = Some 100, pc_storage_rebate_rate = Some 9900,
     pc_storage_gas_price = Some 76, pc_txn_base_cost_as_multiplier = True\<rparr>"

definition ex_status :: mgo_gas_status where
  "ex_status = the (new_with_budget 5000000 10 10 ex_config)"

definition ex_coin :: "u8 \<Rightarrow> u64 \<Rightarrow> object" where
  "ex_coin i v = \<lparr>ob_data = Move \<lparr>mo_type = GasCoin, mo_has_public_transfer = True, mo_version = 1,
       mo_contents = replicate 31 0 @ [i] @ u64_to_le_bytes v\<rparr>,
     ob_owner = AddressOwner 7, ob_previous_transaction = 0, ob_storage_rebate = 988000\<rparr>"

definition ex_inputs :: "object_read_result list" where
  "ex_inputs = map (\<lambda>(i, v). \<lparr>rr_input_object_kind = ImmOrOwnedMoveObject (ucast i, 1, 0), rr_object = Object (ex_coin i v)\<rparr>)
     [(10, 6000000), (11, 3000000)]"

definition ex_backing :: backing_store where
  "ex_backing = \<lparr>bk_get_package_object = (\<lambda>_. None), bk_get_object_by_key = (\<lambda>_ _. None)\<rparr>"

definition ex_store :: temporary_store where
  "ex_store = the (TemporaryStore_new ex_platform ex_backing ex_inputs [] 0)"

definition ex_charger :: "object_ref list \<Rightarrow> gas_charger" where
  "ex_charger coins = \<lparr>gc_tx_digest = 0, gc_gas_model_version = 8, gc_gas_coins = coins,
     gc_smashed_gas_coin = Some 10, gc_gas_status = ex_status\<rparr>"

lemma ex_status_eq: "\<exists>gs. new_with_budget 5000000 10 10 ex_config = Some ex_status
  \<and> GasStatus_new (cost_table_for_version 8) 5000000 10 8 = Some gs \<and> mgs_gas_status ex_status = gs
  \<and> mgs_charge ex_status \<and> mgs_rebate_rate ex_status = 9900 \<and> mgs_storage_gas_price ex_status = 76
  \<and> mgs_gas_budget ex_status = 5000000 \<and> mgs_per_object_storage ex_status = []
  \<and> mct_storage_per_byte_cost (mgs_cost_table ex_status) = 100
  \<and> mgs_gas_rounding_step ex_status = Some 1000 \<and> mgs_gas_price ex_status = 10"
proof -
  obtain gs where gs: "GasStatus_new (cost_table_for_version 8) 5000000 10 8 = Some gs"
    by (simp add: GasStatus_new_def tier_defs Let_def)
  then show ?thesis
    by (simp add: ex_status_def new_with_budget_def ex_config_def checked_mul_u64_def MgoCostTable_new_def
        computation_buckets_def txn_base_cost_as_multiplier_def MgoGasStatusV2_new_def Let_def)
qed

lemma ex_coin_facts:
  "object_id (ex_coin i v) = Some (ucast i)"
  "v < 2 ^ 64 \<Longrightarrow> get_coin_value_unsafe \<lparr>mo_type = GasCoin, mo_has_public_transfer = True, mo_version = 1,
     mo_contents = replicate 31 0 @ [i] @ u64_to_le_bytes v\<rparr> = Some v"
  "object_size_for_gas_metering ex_platform (ex_coin i v) = 130"
proof -
  have "foldl (\<lambda>acc b. acc * 256 + ucast b) (0 :: 256 word) (replicate 31 (0 :: 8 word)) = 0"
    by (simp add: numeral_eq_Suc)
  then show "object_id (ex_coin i v) = Some (ucast i)"
    by (simp add: object_id_def ex_coin_def MoveObject_id_def id_opt_def ID_END_INDEX_def ID_LENGTH_def)
  show "get_coin_value_unsafe \<lparr>mo_type = GasCoin, mo_has_public_transfer = True, mo_version = 1,
     mo_contents = replicate 31 0 @ [i] @ u64_to_le_bytes v\<rparr> = Some v" if "v < 2 ^ 64"
    using that by (simp add: get_coin_value_unsafe_def ID_END_INDEX_def ID_LENGTH_def u64_le_bytes_roundtrip)
  show "object_size_for_gas_metering ex_platform (ex_coin i v) = 130"
    by (simp add: object_size_for_gas_metering_def ex_coin_def MoveObject_size_def ex_platform_def add_u64_def)
qed

lemma ex_store_eq: "ex_store = \<lparr>ts_store = ex_backing, ts_tx_digest = 0,
    ts_input_objects = bt_insert 11 (ex_coin 11 3000000) (bt_insert 10 (ex_coin 10 6000000) bt_empty),
    ts_lamport_timestamp = 2,
    ts_mutable_input_refs = bt_insert 11 ((1, 0), AddressOwner 7) (bt_insert 10 ((1, 0), AddressOwner 7) bt_empty),
    ts_execution_results = results_default, ts_loaded_runtime_objects = bt_empty,
    ts_wrapped_object_containers = bt_empty, ts_runtime_packages_loaded_from_db = bt_empty,
    ts_receiving_objects = []\<rparr>"
  by (simp add: ex_store_def TemporaryStore_new_def mutable_inputs_def ex_inputs_def mutable_input_def is_immutable_def
      owner_is_immutable_def lamport_timestamp_def lamport_increment_def read_version_def into_object_map_def
      collect_map_def as_object_def read_id_def kind_object_id_def List.map_filter_def try_as_move_def add_u64_def
      ex_coin_def)

lemma ex_store_facts:
  "active ex_store = {10, 11}" "touched ex_store = {}" "bt_get (written ex_store) = Map.empty"
  "bt_get (ts_input_objects ex_store) = [10 \<mapsto> ex_coin 10 6000000, 11 \<mapsto> ex_coin 11 3000000]"
  by (auto simp: ex_store_eq results_default_def fun_eq_iff)

lemma ex_coin_values: "gas_coin_value ex_store (10, r) = Some 6000000" "gas_coin_value ex_store (11, r) = Some 3000000"
  using ex_coin_facts(2) [of 6000000 10] ex_coin_facts(2) [of 3000000 11]
  by (simp_all add: gas_coin_value_def ex_store_facts ex_coin_def is_gas_coin_def)

lemma ex_store_ok: "store_ok ex_store"
  by (auto simp: store_ok_def inputs_ok_def written_ok_def modified_ok_def ex_store_facts ex_coin_facts)

lemma ex_inputs_payable:
  assumes "coins = [(10, 1, 0)] \<or> coins = [(10, 1, 0), (11, 1, 0)]"
  shows "inputs_payable ex_platform ex_status ex_store coins"
proof -
  have cost: "object_cost ex_platform ex_status (ex_coin i v) = 988000" for i v
    using ex_status_eq by (auto simp: object_cost_def ex_coin_facts)
  have prior: "prior_rebate ex_store i = 988000" if "i = 10 \<or> i = 11" for i
    using that by (auto simp: prior_rebate_def ex_store_facts) (simp_all add: ex_coin_def)
  show ?thesis
    using assms ex_status_eq store_okD(1) [OF ex_store_ok]
    by (auto simp: inputs_payable_def coins_ok_def coin_total_def ex_coin_values ID_ZERO_def)
      (simp_all add: ex_store_facts cost prior, simp_all add: ex_store_eq)
qed

lemma ex_chargeable:
  assumes "coins = [(10, 1, 0)] \<or> coins = [(10, 1, 0), (11, 1, 0)]"
  shows "chargeable ex_platform (ex_charger coins) ex_store"
proof -
  from ex_status_eq obtain gs where gs: "GasStatus_new (cost_table_for_version 8) 5000000 10 8 = Some gs"
    "mgs_gas_status ex_status = gs" by blast
  have "gas_used_pre_gas_price gs = Some 0"
    using GasStatus_new_fields(3) [OF gs(1)]
    by (simp add: gas_used_pre_gas_price_def quantity_checked_sub_def checked_sub_u64_def to_unit_round_down_is)
  moreover have "computation_charge ex_status 0 = Some 10000"
    using ex_status_eq by (auto simp: computation_charge_def checked_mul_u64_def checked_add_u64_def)
  moreover have "status_ok ex_status" using ex_status_eq by (auto simp: status_ok_def BASIS_POINTS_def)
  ultimately show ?thesis
    using ex_inputs_payable [OF assms] ex_store_ok assms ex_status_eq gs(2)
    by (auto simp: chargeable_def ex_charger_def)
qed

lemma ex_result_payable: "result_payable ex_platform (ex_charger [(10, 1, 0)]) ex_store"
proof -
  let ?coins = "[(10, 1, 0)] :: object_ref list"
  have inp: "inputs_payable ex_platform ex_status ex_store ?coins" by (rule ex_inputs_payable) simp
  from inp reset_eq [of ex_store "ex_charger ?coins" ex_platform] obtain gc t1 t2 where r:
    "charger_reset (ex_charger ?coins) ex_store = Some (gc, t1)" "ensure_active_inputs_mutated t1 = Some t2"
    "start_state ex_platform ex_store ?coins t2"
    by (auto simp: inputs_payable_def ex_charger_def)
  have "drop_writes ex_store = ex_store"
    by (simp add: ex_store_eq drop_writes_def results_drop_writes_def results_default_def)
  with r(1) have "t1 = ex_store"
    by (auto simp: charger_reset_def smash_gas_def ex_charger_def ID_ZERO_def Let_def)
  with r(2) start_payable [OF inp r(3)] show ?thesis
    by (auto simp: result_payable_def ex_charger_def)
qed

section \<open>Witnesses\<close>

theorem charge_gas_conserves_witness:
  "\<exists>s gc' ts' res'. charge_gas ex_platform (ex_charger [(10, 1, 0)], ex_store, Inr ()) = Some (s, gc', ts', res' :: unit execution_error + unit)
    \<and> check_mgo_conserved ex_platform ts' True s = Some (None :: unit execution_error option)
    \<and> gcs_computation_cost s \<le> 5000000"
proof -
  have "chargeable ex_platform (ex_charger [(10, 1, 0)]) ex_store" by (rule ex_chargeable) simp
  from charge_gas_conserves [OF this, of "Inr ()"] ex_result_payable ex_status_eq show ?thesis
    by (fastforce simp: ex_charger_def)
qed

theorem failed_execution_pays_gas_only_witness:
  "\<exists>s gc' ts'. charge_gas ex_platform (ex_charger [(10, 1, 0), (11, 1, 0)], ex_store, Inl (OtherKind ()) :: unit execution_error + unit)
      = Some (s, gc', ts', Inl (OtherKind ()))
    \<and> reverted ex_store [(10, 1, 0), (11, 1, 0)] ts'
    \<and> coin_at ts' 10 (9000000 + gcs_storage_rebate s - (gcs_computation_cost s + gcs_storage_cost s))"
proof -
  have "chargeable ex_platform (ex_charger [(10, 1, 0), (11, 1, 0)]) ex_store" by (rule ex_chargeable) simp
  from failed_execution_pays_gas_only [OF this, of "OtherKind ()"] show ?thesis
    by (simp add: ex_charger_def coin_total_def ex_coin_values)
qed

theorem computation_cost_covers_use_witness:
  "\<exists>gs r used st' e. meter_run (mgs_gas_status ex_status) [MC_simple_instr SI_Add, MC_vec_len] = (gs, r)
    \<and> gas_used_pre_gas_price gs = Some used
    \<and> bucketize_computation (ex_status\<lparr>mgs_gas_status := gs\<rparr>) = Some (st', e :: unit execution_error option)
    \<and> used * 10 \<le> mgs_computation_cost st' \<and> mgs_computation_cost st' \<le> 5000000"
proof -
  obtain gs r where run: "meter_run (mgs_gas_status ex_status) [MC_simple_instr SI_Add, MC_vec_len] = (gs, r)" by fastforce
  have new: "new_with_budget 5000000 10 10 ex_config = Some ex_status" using ex_status_eq by blast
  have "pc_max_gas_computation_bucket ex_config = Some 5000000" "pc_gas_rounding_step ex_config = Some 1000"
    "(5000000 + (case Some (1000 :: nat) of Some s \<Rightarrow> max s 1 | None \<Rightarrow> 0)) * 10 < (2 :: nat) ^ 64"
    "\<forall>c \<in> set [MC_simple_instr SI_Add, MC_vec_len]. small_call c"
    by (simp_all add: ex_config_def small_call_def)
  from computation_cost_covers_use [OF new this run] run show ?thesis by blast
qed

end
