(* ===== verification/Spec2Isabelle.thy ===== *)
theory Spec2Isabelle
  imports Example_Core Move_Integers Example_Charge
begin

text \<open>
  Verification of parts of a blockchain node: the commit rule and the proposal path of its DAG-based
  consensus, the integers of its Move virtual machine, the gas meter that bounds an execution, and the
  charge that follows it.
  Paths are relative to \<open>src/\<close>.

  \<^bold>\<open>The program's parts and how they interact.\<close>
  Authorities exchange blocks.  The core of an authority (\<open>consensus/core/src/core.rs\<close>) gives blocks it
  receives to the block manager (\<open>block_manager.rs\<close>), advances its threshold clock
  (\<open>threshold_clock.rs\<close>), takes transactions from its queue (\<open>transactions_client.rs\<close>), and proposes a
  block that refers to blocks of earlier rounds.  Accepted blocks form a DAG, held in memory
  (\<open>dag_state.rs\<close>) and in a store (\<open>storage/mem_store.rs\<close>).  The universal committer
  (\<open>universal_committer.rs\<close>) asks a base committer (\<open>base_committer.rs\<close>) for each leader slot, which the
  leader schedule (\<open>leader_schedule.rs\<close>) elects, whether the leader is committed, skipped or undecided;
  the decided prefix is the output.  Transactions run in the Move virtual machine, whose integer values
  (\<open>external-crates/move/crates/move-vm-types/src/values/values_impl.rs\<close>) use the 256-bit type of
  \<open>external-crates/move/crates/move-core-types/src/u256.rs\<close>, and which reports every instruction to the
  gas meter (\<open>crates/mgo-types/src/gas_model/tables.rs\<close>).

  \<^bold>\<open>Conventions.\<close>
  \<^item> A Rust \<open>u32\<close> or \<open>u64\<close> is a \<open>nat\<close> and every operation writes its wrap-around (\<open>add_u32\<close>,
    \<open>add_u64\<close>, ...), as the release profile compiles it; the integers of the Move machine are words
    of their width.
  \<^item> A panic, a failed assertion, an unwrap of nothing and a loop that does not end are \<open>None\<close>;
    an error value is the left part of a sum.
  \<^item> State is passed explicitly: an operation on \<open>&mut self\<close> returns the new record.
  \<^item> An ordered map is the type \<open>btree_map\<close> of \<open>BTree_Map\<close>, whose entries are sorted by key.

  \<^bold>\<open>Consensus: the definitions.\<close>
  \<^item> \<open>Prelude\<close>, \<open>BTree_Map\<close>: arithmetic at width, loops with early exit, \<open>BTreeMap\<close>.
  \<^item> \<open>Quorum_System\<close>: the locale of weighted quorums; \<open>Committee\<close> interprets it on the model of
    \<open>consensus/config/src/committee.rs\<close> and models \<open>StakeAggregator\<close> of \<open>stake_aggregator.rs\<close>.
  \<^item> \<open>Block\<close>: \<open>block.rs\<close> and the statuses of \<open>commit.rs\<close>.
  \<^item> \<open>Dag_State\<close>: every operation of \<open>DagState\<close>, the traversal \<open>ancestors_at_uncommitted_round\<close> as
    a partial function, since its loop ends only on a well-formed DAG; \<open>Mem_Store\<close>: the store trait and its
    in-memory implementation.
  \<^item> \<open>Leader_Schedule\<close>, \<open>Base_Committer\<close>, \<open>Universal_Committer\<close>: election, the direct and the
    indirect rule, the decided sequence.
  \<^item> \<open>Threshold_Clock\<close>, \<open>Block_Manager\<close>, \<open>Transactions_Client\<close>, \<open>Consensus_Core\<close>: the
    proposal path.  The block manager of this version suspends nothing: \<open>add_blocks\<close> relies on the
    documented assumption that the causal history of the blocks exists, which is the hypothesis of its property.

  \<^bold>\<open>Consensus: the lemmas.\<close>
  \<^item> \<open>Dag_Traversal\<close>: the traversal returns and gives exactly the ancestors in the round asked for.
  \<^item> \<open>Commit_Rule\<close>: what votes, certificates and blames are, without loops and caches.
  \<^item> \<open>Commit_Safety\<close>, \<open>Commit_Agreement\<close>, \<open>Commit_Sequence\<close>: two authorities with different views
    of one DAG never decide a slot differently, and of their decided sequences one is a prefix of the other.
  \<^item> \<open>Commit_Progress\<close>: the committer returns, and commits a leader with enough support.
  \<^item> \<open>Core_Proposals\<close>: a core proposes in strictly increasing rounds, and its blocks refer to a
    quorum of the previous round.  This is what the agreement lemmas assume of a correct authority.
  \<^item> \<open>Example_Dag\<close>, \<open>Example_Core\<close>: a committee of four authorities and a run of it, on which the
    hypotheses of the properties hold.

  \<^bold>\<open>Move integers and gas.\<close>
  \<^item> \<open>Move_U256\<close>: the wrapper type \<open>U256\<close>.  The type it wraps is third-party code and a parameter, a
    record of operations; its documented laws are the locale \<open>primitive_u256_laws\<close>, interpreted on 256-bit
    words.  The wrapper's own code, widening multiplication by halves and uniform sampling by rejection, is
    proved correct; sampling has fuel in the form of the list of random draws, and the lemmas say which draws
    make it return.
  \<^item> \<open>Move_Integers\<close>: \<open>IntegerValue\<close> with its checked arithmetic, bit operations, shifts,
    comparisons and casts, against a specification in unbounded integers.
  \<^item> \<open>Gas_Units\<close>: gas quantities, cost tables and tiers (\<open>gas_algebra.rs\<close>, \<open>units_types.rs\<close>,
    \<open>gas_predicates.rs\<close>).
  \<^item> \<open>Gas_Status\<close>: \<open>GasStatus\<close> and all calls of the trait \<open>GasMeter\<close>, with \<open>meter_run\<close> for a
    sequence of calls; \<open>Gas_Meter_Budget\<close>: a run never charges more than the budget, and the multipliers
    follow the tables.  The lemmas bound one call (\<open>small_call\<close>: at most 2^16 values of at most 2^32 units each)
    because the sum of the three parts of a cost wraps at 2^64; they hold for calls of the real
    machine, whose instructions report sizes far below this.

  \<^bold>\<open>Objects and the charge of a transaction.\<close>
  After the virtual machine has run, the gas charger
  (\<open>mgo-execution/latest/mgo-adapter/src/gas_charger.rs\<close>) rounds the computation cost, collects the storage
  costs and rebates of what the temporary store (\<open>temporary_store.rs\<close>) has written, and deducts the net charge
  from the gas coin.
  \<^item> \<open>Objects\<close>: \<open>object.rs\<close>, \<open>move_package.rs\<close> and the identifiers and versions of \<open>base_types.rs\<close>;
    \<open>Input_Objects\<close>: the inputs of a transaction (\<open>transaction.rs\<close>).
  \<^item> \<open>Gas_Summary\<close>: \<open>gas.rs\<close> and \<open>gas_model/gas_v2.rs\<close>, whose arithmetic panics on overflow;
    \<open>Temporary_Store\<close>, \<open>Gas_Charger\<close>: the two components above.
  \<^item> \<open>Storage_Ledger\<close>: what the operations of the store do to the rebates, without loops;
    \<open>Gas_Conservation\<close>: the charge returns, passes the check that rebates are conserved, stays within the
    budget, and a failed execution leaves its inputs as they were but for the gas coin and the storage
    rebates.  The bounds of \<open>status_ok\<close> and \<open>payable\<close>, 2^63 on the gas coins and 2^62 on the budget and on the
    sums of storage costs and rebates, are assumptions of these lemmas: they keep the arithmetic in the range
    in which it neither panics nor wraps.  \<open>Example_Charge\<close> charges a transaction with two gas coins.

  \<^bold>\<open>Parameters.\<close>
  Code outside the sources is an argument of the definitions that use it: hashing, signing and
  serialization of blocks (\<open>block_crypto\<close>), the weighted sampling of the leader schedule, the
  order in which a \<open>HashSet\<close> is iterated, the wrapped 256-bit type (\<open>primitive_u256\<close>), the random bytes, and
  the sizes the machine reports for a value (\<open>value_view\<close>).
  For the charge of a transaction they are the serialized size of types, the size of an owner in memory and
  the hash of an object (\<open>object_platform\<close>), and the database behind the temporary store (\<open>backing_store\<close>).

  \<^bold>\<open>Not modelled.\<close>
  \<^item> Pure input and output: the network, RocksDB stores, RPC, indexers, command-line tools and metrics.
    They call the modelled parts and have no rule of their own that a kernel could check without a model of
    the outside world.
  \<^item> The concurrency of the consensus threads: \<open>core_thread.rs\<close> serializes all calls to the core through
    a channel, so a sequence of calls is what the core sees.
  \<^item> The Move compiler, prover and bytecode verifier, and the execution of Move bytecode: separate
    programs of their own size.  Of the temporary store the check of
    ownership, the check of conservation that reads balances inside arbitrary objects through their layouts, and
    the advance of the epoch in safe mode are left out.
  \<^item> Cryptographic schemes and proof systems, which are third-party code.
\<close>

section \<open>Agreement of the commit rule\<close>

text \<open>(C1) Two authorities that run committers built with the same parameters on their own views of
  one DAG return sequences of decided leaders of which one is a prefix of the other, provided that
  correct authorities do not equivocate, the others hold less stake than the validity threshold and
  every block refers to a quorum of the previous round.\<close>

theorem commit_sequences_agree:
  assumes "bft_dag c H U" and "view_of c U low s1" and "view_of c U low s2"
    and "low \<le> sl_round last_decided"
    and "same_parameters ub1 ub2" and "cx_committee (ub_context ub1) = c"
    and "ub_wave_length ub1 = MINIMUM_WAVE_LENGTH"
    and "UniversalCommitterBuilder_build ub1 = Some uc1" and "UniversalCommitterBuilder_build ub2 = Some uc2"
    and "try_commit uc1 s1 last_decided = Some out1" and "try_commit uc2 s2 last_decided = Some out2"
  shows "prefix out1 out2 \<or> prefix out2 out1"
  using assms by (rule try_commit_agree)

theorem commit_sequences_agree_witness:
  "try_commit (ex_committer 0) (ex_state 0 4) (Slot_new 0 0) = Some []
   \<and> try_commit (ex_committer 1) (ex_state 1 5) (Slot_new 0 0) = Some [Commit (ex_block 3 3)]
   \<and> (prefix [] [Commit (ex_block 3 3)] \<or> prefix [Commit (ex_block 3 3)] [])"
proof -
  have "same_parameters (ex_builder 0) (ex_builder 1)" "cx_committee (ub_context (ex_builder 0)) = ex_committee"
    "ub_wave_length (ex_builder 0) = MINIMUM_WAVE_LENGTH"
    by (simp_all add: same_parameters_def ex_builder_def UniversalCommitterBuilder_new_def DEFAULT_WAVE_LENGTH_def)
  from commit_sequences_agree [OF ex_bft ex_view ex_view _ this ex_build ex_build ex_try_commit_4 ex_try_commit_5]
  show ?thesis by (simp add: ex_try_commit_4 ex_try_commit_5)
qed

text \<open>(C2) The committer always returns on a causally complete view of such a DAG: no unwrap or
  assertion fails, no slot has two certified leaders and no traversal runs forever.\<close>

theorem try_commit_returns:
  assumes "bft_dag c H U" and "view_of c U 0 s" and "schedule_total uc"
    and "\<forall>bc \<in> set (uc_committers uc). three_round_waves c bc"
    and "last_commit_round s \<le> sl_round last_decided"
  shows "\<exists>out. try_commit uc s last_decided = Some out"
  using assms by (rule try_commit_defined_gen)

theorem try_commit_returns_witness:
  "\<exists>out. try_commit (ex_committer 2) (ex_state 2 100) (Slot_new 0 0) = Some out"
  by (rule try_commit_returns [OF ex_bft ex_view])
    (simp_all add: schedule_total_def ex_committer_def ex_waves last_commit_round_def ex_base_schedule)

text \<open>(C3) A leader block that a quorum of blocks of the decision round certifies is committed by the
  direct rule.\<close>

theorem supported_leader_is_committed:
  assumes "bft_dag c H U" and "view_of c U 0 s" and "decidable_slot c 0 bc sl"
    and "last_commit_round s \<le> sl_round sl" and "slot_block s sl l"
    and "cm_quorum_threshold c
        \<le> weight_of (stake_at c) (certifiers (get_uncommitted_block s) c (sl_round sl + 2) l)"
    and "\<And>bs. get_uncommitted_blocks_at_round s (sl_round sl + 2) = Some bs \<Longrightarrow>
        sum_list (map (stake_at c \<circ> vb_author) bs) < 2 ^ 64"
  shows "try_direct_decide bc s sl = Some (Commit l)"
  using assms by (rule direct_commit_gen)

theorem supported_leader_is_committed_witness:
  "try_direct_decide (ex_base 0) (ex_state 0 5) (Slot_new 3 3) = Some (Commit (ex_block 3 3))"
proof (rule supported_leader_is_committed [OF ex_bft ex_view])
  show "decidable_slot ex_committee 0 (ex_base 0) (Slot_new 3 3)"
    by (rule ex_decidable [where n = 5]) (simp_all add: ex_elect)
  show "slot_block (ex_state 0 5) (Slot_new 3 3) (ex_block 3 3)" by (rule ex_slot_block) simp_all
  show "cm_quorum_threshold ex_committee \<le> weight_of (stake_at ex_committee) (certifiers
      (get_uncommitted_block (ex_state 0 5)) ex_committee (sl_round (Slot_new 3 3) + 2) (ex_block 3 3))"
    by (rule ex_certifier_quorum) simp_all
  fix bs assume bs: "get_uncommitted_blocks_at_round (ex_state 0 5) (sl_round (Slot_new 3 3) + 2) = Some bs"
  show "sum_list (map (stake_at ex_committee \<circ> vb_author) bs) < 2 ^ 64"
    by (rule ex_stake_sum [OF bs]) simp_all
qed (simp_all add: last_commit_round_def)

text \<open>(C4) A slot of the DAG has at most one certified block: two blocks of one slot that are both
  certified two rounds later are the same block, even if their author equivocates.\<close>

theorem certified_block_unique:
  assumes "bft_dag c H U" and "certified U c l" and "certified U c l'"
    and "U (vb_reference l) = Some l" and "U (vb_reference l') = Some l'"
    and "Slot_from (vb_reference l) = Slot_from (vb_reference l')"
  shows "l = l'"
  using assms by (rule certified_unique)

theorem certified_block_unique_witness:
  "certified ex_dag ex_committee (ex_block 3 3) \<and> ex_block 3 3 = ex_block 3 3"
proof -
  have "certified ex_dag ex_committee (ex_block 3 3)"
    by (rule quorum_certifiers_certified [OF ex_bft]) (use ex_dag_certifiers [of 3 3] in simp)
  with certified_block_unique [OF ex_bft this this] show ?thesis by simp
qed

section \<open>Proposals\<close>

text \<open>(C5) A block the core proposes refers to a quorum of the previous round, which is the condition
  on correct authorities the agreement of the commit rule rests on: if the blocks given to the clock
  have their parents stored, every block seen of the round before the clock's is among the
  ancestors.\<close>

theorem proposal_refers_to_quorum:
  assumes "core_inv seen core" and "hash_order_ok hash_order" and "blocks_below core"
    and "parents_stored (cx_committee (cr_context core)) seen"
    and "try_new_block cr hash_order now ignore_leaders_check core = Some (Some b, core')"
  shows "cm_quorum_threshold (cx_committee (cr_context core))
    \<le> weight_of (stake_at (cx_committee (cr_context core))) (parents_of (vb_reference b) b)"
  using assms by (rule proposal_quorum)

theorem proposal_refers_to_quorum_witness:
  "3 \<le> weight_of (stake_at ex_committee) (parents_of (vb_reference ex_proposal) ex_proposal)"
proof -
  have ctx: "cr_context ex_core = ex_context 0" by (simp add: ex_core_def)
  obtain seen where "core_inv seen ex_core" "blocks_below ex_core" "parents_stored ex_committee seen"
    using Core_new_inv [OF _ _ ex_Core_new] ex_committee_ok ex_no_dictator by auto
  moreover obtain core' where "try_new_block ex_crypto ex_hash_order 5 True ex_core = Some (Some ex_proposal, core')"
    using ex_try_new_block by blast
  ultimately show ?thesis
    using proposal_refers_to_quorum [OF _ ex_hash_order_ok, of seen ex_core ex_crypto 5 True ex_proposal core'] ctx
    by simp
qed

text \<open>(C6) An authority never equivocates: in every run of the core thread from the initial state, the
  blocks announced are its own and their rounds strictly increase.\<close>

theorem own_proposals_increase:
  assumes "committee_ok (cx_committee cx)" and "no_dictator (cx_committee cx)"
    and "Core_new cr cx consumer manager [] = Some core"
    and "CoreThread_run cr hash_order commands core = Some core'"
  shows "sorted_wrt (<) (map br_round (proposals (cr_signals core')))
    \<and> (\<forall>r \<in> set (proposals (cr_signals core')). br_author r = cx_own_index (cr_context core'))"
  using Core_new_inv [OF assms(1-3)] run_proposals [OF _ assms(4)] by (auto simp: proposals_inv_def)

theorem own_proposals_increase_witness:
  "\<exists>core'. CoreThread_run ex_crypto ex_hash_order [(5, GetMissing), (5, ForceNewBlock 1)] ex_core = Some core'
     \<and> proposals (cr_signals core') = [ex_ref 1 0]
     \<and> sorted_wrt (<) (map br_round (proposals (cr_signals core')))"
proof -
  obtain core' where new: "try_new_block ex_crypto ex_hash_order 5 True ex_core = Some (Some ex_proposal, core')"
    using ex_try_new_block by blast
  have run: "CoreThread_run ex_crypto ex_hash_order [(5, GetMissing), (5, ForceNewBlock 1)] ex_core = Some core'"
    by (simp add: force_new_block_def new ex_core_round)
  have sig: "proposals (cr_signals core') = [ex_ref 1 0]"
    by (cases rule: try_new_block_cases [OF new]) (auto simp: ex_core_def ex_proposal_ref)
  have "committee_ok (cx_committee (ex_context 0))" "no_dictator (cx_committee (ex_context 0))"
    using ex_committee_ok ex_no_dictator by simp_all
  from own_proposals_increase [OF this ex_Core_new run] run sig show ?thesis by blast
qed



section \<open>Components of the consensus core\<close>

text \<open>(C8) The threshold clock refines its specification: after any sequence of references it is at
  the highest of the starting round, the rounds seen and the rounds after a round with a quorum.\<close>

theorem clock_refines_spec:
  assumes "committee_ok (cx_committee cx)" and "no_dictator (cx_committee cx)"
    and "\<forall>b \<in> set refs. ref_ok (cx_committee cx) b"
  shows "\<exists>tc. clock_loop (ThresholdClock_new start cx) refs = Some tc
    \<and> tc_round tc = clock_spec (cx_committee cx) start (set refs)"
proof -
  let ?tc = "ThresholdClock_new start cx"
  have ctx: "tc_context ?tc = cx" by (simp add: ThresholdClock_new_def)
  from clock_loop_inv [OF assms(1,2) clock_inv_new [of start cx] _ assms(3)] ctx obtain tc where
    "clock_loop ?tc refs = Some tc" "clock_inv start ({} \<union> set refs) tc" "tc_context tc = cx" by auto
  then show ?thesis using clock_inv_round [of start "set refs" tc] by auto
qed

theorem clock_refines_spec_witness:
  "\<exists>tc. clock_loop (ThresholdClock_new 0 (ex_context 0)) (map (ex_ref 0) [1, 2, 3, 0]) = Some tc
     \<and> tc_round tc = 1 \<and> 1 = clock_spec ex_committee 0 (set (map (ex_ref 0) [1, 2, 3, 0]))"
proof -
  have "committee_ok (cx_committee (ex_context 0))" "no_dictator (cx_committee (ex_context 0))"
    "\<forall>b \<in> set (map (ex_ref 0) [1, 2, 3, 0]). ref_ok (cx_committee (ex_context 0)) b"
    using ex_committee_ok ex_no_dictator by (simp_all add: ref_ok_def)
  from clock_refines_spec [OF this, of 0] show ?thesis unfolding ex_clock_loop by (auto simp: ex_clock_def)
qed

text \<open>(C9) The search for a certificate with its cache of votes and its early exit decides whether a
  quorum of the ancestors vote for the leader, whatever the cache holds of earlier searches, and
  leaves a correct cache.\<close>

theorem certificate_search_correct:
  assumes "committee_ok c" and "cache_ok get leader_block all_votes"
    and "is_certificate get c potential_certificate leader_block all_votes = Some (res, all_votes')"
  shows "(res \<longleftrightarrow> certifies get c potential_certificate leader_block) \<and> cache_ok get leader_block all_votes'"
  using is_certificate_eq [OF assms] by simp

theorem certificate_search_correct_witness:
  "\<exists>votes. is_certificate (get_uncommitted_block (ex_state 0 5)) ex_committee (ex_block 5 0) (ex_block 3 3) Map.empty
     = Some (True, votes)"
proof -
  have "is_certificate (get_uncommitted_block (ex_state 0 5)) ex_committee (ex_block 5 0) (ex_block 3 3) Map.empty \<noteq> None"
    by (rule is_certificate_defined [OF ex_bft ex_view cache_ok_empty, where q = "ex_ref 5 0"])
      (simp_all add: ex_state_get)
  then obtain res votes where res: "is_certificate (get_uncommitted_block (ex_state 0 5)) ex_committee
      (ex_block 5 0) (ex_block 3 3) Map.empty = Some (res, votes)" by auto
  from certificate_search_correct [OF ex_committee_ok cache_ok_empty res] ex_certifies [of 3 3 5 0 0] res
  show ?thesis by simp
qed

text \<open>(C10) The ancestors of a block at an earlier round: the traversal returns, and it returns exactly
  the blocks of that round that chains of ancestors above the round lead to.\<close>

theorem ancestors_at_round_exact:
  assumes "ancestors_below (get_uncommitted_block s)"
    and "causally_complete earlier (get_uncommitted_block s)"
    and "get_uncommitted_block s r = Some later" and "earlier < vb_round later"
    and "last_commit_round s < earlier"
  shows "\<exists>bs. ancestors_at_uncommitted_round s later earlier = Some bs
    \<and> set bs = {b. \<exists>q. linked_from (get_uncommitted_block s) earlier (set (vb_ancestors later)) q
                  \<and> br_round q = earlier \<and> get_uncommitted_block s q = Some b}"
  using ancestors_at_round_defined [OF assms] ancestors_at_round_set by blast

theorem ancestors_at_round_exact_witness:
  "\<exists>bs. ancestors_at_uncommitted_round (ex_state 0 5) (ex_block 5 0) 4 = Some bs \<and> ex_block 4 2 \<in> set bs"
proof -
  have below: "ancestors_below (get_uncommitted_block (ex_state 0 5))"
    using ancestors_below_submap [OF bft_dagD(3) [OF ex_bft] view_ofD(1) [OF ex_view]] by simp
  have comp: "causally_complete 4 (get_uncommitted_block (ex_state 0 5))"
    using view_ofD(2) [OF ex_view [of 5 0]] by (simp add: causally_complete_def)
  have get: "get_uncommitted_block (ex_state 0 5) (ex_ref 5 0) = Some (ex_block 5 0)"
    "get_uncommitted_block (ex_state 0 5) (ex_ref 4 2) = Some (ex_block 4 2)" by (simp_all add: ex_state_get)
  have "linked_from (get_uncommitted_block (ex_state 0 5)) 4 (set (vb_ancestors (ex_block 5 0))) (ex_ref 4 2)"
    by (rule linked_from.start) (simp add: ex_parents_def)
  with ancestors_at_round_exact [OF below comp get(1)] get(2) show ?thesis
    by (fastforce simp: last_commit_round_def)
qed

text \<open>(C11) Accepting blocks keeps the DAG state consistent: blocks stay under their references, the
  cached references match, the highest round is attained, and no own slot holds two blocks.\<close>

theorem accept_blocks_keeps_state:
  assumes "dag_inv cx s" and "accept_blocks cx s blocks = Some s'"
  shows "dag_inv cx s'"
  using assms by (rule accept_blocks_inv)

theorem accept_blocks_keeps_state_witness: "dag_inv (ex_context 0) (ex_state 0 5)"
  by (rule accept_blocks_keeps_state [OF ex_empty_inv ex_state_accept])

text \<open>(C12) An authority refuses to accept two of its own blocks in one slot: the attempt aborts.\<close>

theorem own_slot_accepted_once:
  assumes "vb_author b = cx_own_index cx" and "get_uncommitted_block s r \<noteq> None"
    and "Slot_from r = Slot_from (vb_reference b)"
  shows "accept_block cx s b = None"
proof (rule ccontr)
  assume "accept_block cx s b \<noteq> None"
  with assms(1,3) have "get_uncommitted_block s r = None" unfolding accept_block_defined by simp
  with assms(2) show False ..
qed

theorem own_slot_accepted_once_witness: "accept_block (ex_context 2) (ex_state 2 5) (ex_block 3 2) = None"
  by (rule own_slot_accepted_once [where r = "ex_ref 3 2"]) (simp_all add: ex_state_get)

text \<open>(C13) Recovery: a state built from the store holds exactly the stored blocks from the cached
  rounds below each authority's last committed round on, and satisfies the invariant.\<close>

theorem recovery_reloads_recent_blocks:
  assumes "store_inv st" and "own_slots_stored_once cx st"
    and "committee_size (cx_committee cx) < 2 ^ 32"
    and "length (last_rounds cx last_commit) = committee_size (cx_committee cx)"
    and "\<forall>r \<in> set (last_rounds cx last_commit). r < 2 ^ 32"
  shows "\<exists>s. DagState_new cx last_commit (MemStore_scan_blocks_by_author st) = Some s \<and> dag_inv cx s
    \<and> ds_last_commit s = last_commit
    \<and> (\<forall>r b. get_uncommitted_block s r = Some b \<longleftrightarrow>
          read_block st r = Some b \<and> br_author r < committee_size (cx_committee cx)
          \<and> last_rounds cx last_commit ! br_author r - CACHED_ROUNDS \<le> br_round r)"
  using assms by (rule DagState_new_recovers)

theorem recovery_reloads_recent_blocks_witness:
  "\<exists>s. DagState_new (ex_context 1) None (MemStore_scan_blocks_by_author (MemStore_write MemStore_new (ex_blocks 2) []))
       = Some s \<and> get_uncommitted_block s (ex_ref 0 3) = Some (ex_block 0 3)"
proof -
  let ?st = "MemStore_write MemStore_new (ex_blocks 2) []"
  have read: "read_block ?st r = Some b \<longleftrightarrow> b \<in> set (ex_blocks 2) \<and> vb_reference b = r" for r b
    unfolding read_after_write by (rule find_reference_ex)
  have "store_inv ?st" by (rule store_inv_write [OF store_inv_new]) (auto simp: ex_blocks_set)
  moreover have "own_slots_stored_once (ex_context 1) ?st"
    unfolding own_slots_stored_once_def
  proof (intro allI impI)
    fix r r' assume "read_block ?st r \<noteq> None" "read_block ?st r' \<noteq> None" "Slot_from r = Slot_from r'"
    then show "r = r'" by (auto simp: read ex_blocks_set Slot_from_inject ex_ref_def)
  qed
  ultimately obtain s where
    "DagState_new (ex_context 1) None (MemStore_scan_blocks_by_author ?st) = Some s"
    and "\<forall>r b. get_uncommitted_block s r = Some b \<longleftrightarrow> read_block ?st r = Some b \<and> br_author r < 4
          \<and> replicate 4 0 ! br_author r - CACHED_ROUNDS \<le> br_round r"
    using recovery_reloads_recent_blocks [of ?st "ex_context 1" None] by (auto simp: last_rounds_def)
  moreover have "ex_block 0 3 \<in> set (ex_blocks 2)" unfolding ex_blocks_set by (intro exI [of _ 0] exI [of _ 3]) simp
  ultimately show ?thesis by (auto simp: read)
qed

text \<open>(C14) The blocks and commits written to the store are read back; a later write of the same
  reference wins, and other references keep their value.\<close>

theorem store_read_after_write:
  "MemStore_read_blocks (MemStore_write st blocks commits) refs =
     map (\<lambda>r. case List.find (\<lambda>b. vb_reference b = r) (rev blocks) of Some b \<Rightarrow> Some b | None \<Rightarrow> read_block st r) refs"
  by (simp add: MemStore_read_blocks_def read_after_write)

text \<open>(C15) The leaders of a round at different offsets are different members of the committee, for
  every weighted choice that returns distinct elements.\<close>

theorem leaders_of_round_distinct:
  assumes "committee_ok c" and "chooses_distinct choice"
    and "i < committee_size c" and "j < committee_size c" and "i \<noteq> j"
  shows "\<exists>a b. LeaderSchedule_new as_f32 choice c round i = Some a
    \<and> LeaderSchedule_new as_f32 choice c round j = Some b \<and> a \<noteq> b \<and> a \<in> members c \<and> b \<in> members c"
  using elect_leader_distinct_gen [OF assms(1,2), of as_f32 round] assms(3-5)
  by (fastforce simp: LeaderSchedule_new_def nth_eq_iff_index_eq subset_iff)

theorem leaders_of_round_distinct_witness:
  "\<exists>a b. LeaderSchedule_new id (\<lambda>_ xs n. Some (take n xs)) ex_committee 7 0 = Some a
     \<and> LeaderSchedule_new id (\<lambda>_ xs n. Some (take n xs)) ex_committee 7 1 = Some b \<and> a \<noteq> b"
proof -
  have "chooses_distinct (\<lambda>_ xs n. Some (take n (xs :: (nat \<times> nat) list)))"
    by (auto simp: chooses_distinct_def dest: in_set_takeD)
  from leaders_of_round_distinct [OF ex_committee_ok this, of 0 1 id 7] show ?thesis by auto
qed

text \<open>(C16) Quorums of a committee intersect in a correct authority, and the correct authorities reach
  a quorum on their own, whenever the faulty ones hold less stake than the validity threshold.\<close>

theorem quorums_meet_in_correct_authority:
  assumes "committee_ok c" and "A \<subseteq> members c" and "B \<subseteq> members c"
    and "cm_quorum_threshold c \<le> weight_of (stake_at c) A" and "cm_quorum_threshold c \<le> weight_of (stake_at c) B"
    and "weight_of (stake_at c) (members c - H) < cm_validity_threshold c"
  shows "(\<exists>h. h \<in> A \<inter> B \<inter> H) \<and> cm_quorum_threshold c \<le> weight_of (stake_at c) (members c \<inter> H)"
proof
  show "\<exists>h. h \<in> A \<inter> B \<inter> H" using cq.quorums_share_correct [OF assms] by blast
  have "members c - members c \<inter> H = members c - H" by blast
  with cq.correct_reach_quorum [OF assms(1), of "members c \<inter> H"] assms(6)
  show "cm_quorum_threshold c \<le> weight_of (stake_at c) (members c \<inter> H)" by simp
qed

theorem quorums_meet_in_correct_authority_witness:
  "(\<exists>h. h \<in> {0, 1, 2} \<inter> {1, 2, 3} \<inter> {0, 1, 2 :: nat})
   \<and> 3 \<le> weight_of (stake_at ex_committee) (members ex_committee \<inter> {0, 1, 2})"
proof -
  have "weight_of (stake_at ex_committee) (members ex_committee - {0, 1, 2}) < cm_validity_threshold ex_committee"
    using bft_dagD(5) [OF ex_bft] by (simp add: faults_below_validity_def)
  with quorums_meet_in_correct_authority [OF ex_committee_ok, of "{0, 1, 2}" "{1, 2, 3}" "{0, 1, 2}"]
  show ?thesis by (auto simp: ex_weight)
qed

text \<open>(C17) Feeding votes to the aggregator reports the threshold exactly when the distinct voters reach
  it; repeated votes count once.\<close>

theorem aggregator_counts_distinct_votes:
  assumes "committee_ok c" and "\<forall>v \<in> set votes. v < committee_size c"
  shows "votes_reach T c StakeAggregator_new votes = Some (threshold_of T c \<le> weight_of (stake_at c) (set votes))"
  using assms by (rule votes_reach_eq)

theorem aggregator_counts_distinct_votes_witness:
  "votes_reach QuorumThreshold ex_committee StakeAggregator_new [0, 1, 1, 0] = Some False
   \<and> votes_reach QuorumThreshold ex_committee StakeAggregator_new [0, 1, 0, 2] = Some True"
proof -
  have sets: "set [0, 1, 1, 0] = {0, 1 :: nat}" "set [0, 1, 0, 2] = {0, 1, 2 :: nat}" by auto
  have "votes_reach QuorumThreshold ex_committee StakeAggregator_new [0, 1, 1, 0]
      = Some (threshold_of QuorumThreshold ex_committee \<le> weight_of (stake_at ex_committee) (set [0, 1, 1, 0]))"
    "votes_reach QuorumThreshold ex_committee StakeAggregator_new [0, 1, 0, 2]
      = Some (threshold_of QuorumThreshold ex_committee \<le> weight_of (stake_at ex_committee) (set [0, 1, 0, 2]))"
    by (rule aggregator_counts_distinct_votes [OF ex_committee_ok], simp)+
  then show ?thesis unfolding sets by (simp add: ex_weight del: votes_reach.simps)
qed

text \<open>(C18) The consumer hands out the waiting transactions in order: what it returns followed by what
  still waits is what waited before.\<close>

theorem transactions_in_order:
  "fst (TransactionsConsumer_next tc) @ waiting (snd (TransactionsConsumer_next tc)) = waiting tc"
  using next_order [of tc] by (cases "TransactionsConsumer_next tc") simp

text \<open>(C19) A proposal never carries more bytes of transactions than the protocol allows, if no single
  transaction does.\<close>

theorem transactions_within_block_limit:
  assumes "\<forall>t \<in> set (waiting tc). length t \<le> max_consumed_bytes_per_request tc"
    and "total_bytes (waiting tc) < 2 ^ 64"
  shows "total_bytes (fst (TransactionsConsumer_next tc)) \<le> max_consumed_bytes_per_request tc"
  using next_bytes [of tc] assms by (cases "TransactionsConsumer_next tc") simp

theorem transactions_within_block_limit_witness:
  "total_bytes (fst (TransactionsConsumer_next (TransactionsConsumer_new [[1, 2], [3], [4]] 3 None))) \<le> 3"
  using transactions_within_block_limit [of "TransactionsConsumer_new [[1, 2], [3], [4]] 3 None"]
  by (simp add: TransactionsConsumer_new_def waiting_def total_bytes_def)

text \<open>(C20) On blocks whose causal history exists, which is the assumption the comment of
  \<open>add_blocks\<close> states, the block manager returns exactly the blocks it did not have, each once and in
  ascending order of rounds, and every ancestor of a returned block is in the graph already or
  is returned before it.  Given again, the blocks are not returned a second time.\<close>

theorem block_manager_returns_connected:
  assumes "history_exists bm blocks" and "BlockManager_add_blocks bm blocks = (accepted, bm')"
  shows "vb_reference ` set accepted = vb_reference ` set blocks - bm_accepted_blocks bm
    \<and> distinct (map vb_reference accepted) \<and> sorted (map vb_round accepted)
    \<and> (\<forall>i < length accepted. \<forall>r \<in> set (vb_ancestors (accepted ! i)).
         in_graph bm r \<or> r \<in> vb_reference ` set (take i accepted))
    \<and> BlockManager_add_blocks bm' blocks = ([], bm')"
  using add_blocks_spec [OF assms(2)] ancestors_come_first [OF assms] add_blocks_again [OF assms(2)] by simp

theorem block_manager_returns_connected_witness:
  "history_exists BlockManager_new [ex_block 2 0, ex_block 1 3, ex_block 1 2, ex_block 1 1, ex_block 1 0]
   \<and> vb_reference ` set (fst (BlockManager_add_blocks BlockManager_new
        [ex_block 2 0, ex_block 1 3, ex_block 1 2, ex_block 1 1, ex_block 1 0]))
     = {ex_ref 1 0, ex_ref 1 1, ex_ref 1 2, ex_ref 1 3, ex_ref 2 0}"
proof -
  let ?blocks = "[ex_block 2 0, ex_block 1 3, ex_block 1 2, ex_block 1 1, ex_block 1 0]"
  have hist: "history_exists BlockManager_new ?blocks"
    by (simp add: history_exists_def in_graph_def ex_parents_def GENESIS_ROUND_def)
  obtain accepted bm where add: "BlockManager_add_blocks BlockManager_new ?blocks = (accepted, bm)" by fastforce
  from block_manager_returns_connected [OF hist add]
  have "vb_reference ` set accepted = {ex_ref 1 0, ex_ref 1 1, ex_ref 1 2, ex_ref 1 3, ex_ref 2 0}"
    by (auto simp: BlockManager_new_def)
  with hist show ?thesis unfolding add fst_conv by blast
qed

end
